(* ===== verification/Prelude.thy ===== *)
theory Prelude
  imports Main "HOL-Library.Word"
begin

text \<open>
  What every component of the model shares: the result type of a C function call (it may run
  for ever, it may have undefined behaviour, or it returns), the total-correctness predicate
  \<open>ensures\<close> that the component lemmas are stated with, bounds-checked access to C arrays,
  the narrowing conversions between C integer types and the character classes of
  \<^verbatim>\<open><ctype.h>\<close> in the C locale.
\<close>

section \<open>Runs of C code\<close>

text \<open>
  A C function call is a value of type \<open>'a run\<close>: \<open>None\<close> when the call never returns,
  \<open>Some (Inl f)\<close> when it executes undefined behaviour of kind \<open>f\<close> or ends the process with
  \<^verbatim>\<open>exit\<close> (\<open>ProcessExit\<close>), and \<open>Some (Inr x)\<close> when it returns with the result \<open>x\<close>. Loops whose end depends on
  the input are \<^theory_text>\<open>partial_function (option)\<close>, for which \<open>None\<close> is the least element.
\<close>

datatype fault = OutOfBounds | NullPointer | BadPointer | ProcessExit

type_synonym 'a run = "(fault + 'a) option"

definition returns :: "'a \<Rightarrow> 'a run" where
  "returns x = Some (Inr x)"

definition faults :: "fault \<Rightarrow> 'a run" where
  "faults f = Some (Inl f)"

definition rbind :: "'a run \<Rightarrow> ('a \<Rightarrow> 'b run) \<Rightarrow> 'b run" where
  "rbind m f =
     (case m of None \<Rightarrow> None | Some (Inl e) \<Rightarrow> Some (Inl e) | Some (Inr x) \<Rightarrow> f x)"

named_theorems run_defs \<open>definitions that turn a straight-line run into an equation\<close>
named_theorems frame_intros \<open>which part of the state an operation leaves alone\<close>

lemma rbind_simps [simp]:
  "rbind None f = None"
  "rbind (returns x) f = f x"
  "rbind (faults e) f = faults e"
  by (simp_all add: rbind_def returns_def faults_def)

lemma returns_inject [simp]: "returns x = returns y \<longleftrightarrow> x = y"
  by (simp add: returns_def)

lemma faults_inject [simp]: "faults e = faults e' \<longleftrightarrow> e = e'"
  by (simp add: faults_def)

lemma run_distinct [simp]:
  "returns x \<noteq> faults e" "faults e \<noteq> returns x"
  "returns x \<noteq> None" "None \<noteq> returns x" "faults e \<noteq> None" "None \<noteq> faults e"
  by (simp_all add: returns_def faults_def)

lemma run_cases:
  obtains (diverges) "m = None" | (fault) e where "m = faults e" | (result) x where "m = returns x"
proof (cases m)
  case None
  then show ?thesis by (rule diverges)
next
  case (Some v)
  then show ?thesis
    by (cases v) (auto simp: returns_def faults_def intro: fault result)
qed

lemma rbind_eq_returns: "rbind m f = returns y \<longleftrightarrow> (\<exists>x. m = returns x \<and> f x = returns y)"
  by (cases m rule: run_cases) auto

lemma rbind_assoc: "rbind (rbind m f) g = rbind m (\<lambda>x. rbind (f x) g)"
  by (cases m rule: run_cases) auto

lemma rbind_returns_right [simp]: "rbind m returns = m"
  by (cases m rule: run_cases) auto

lemma rbind_Some_mono:
  "rbind m f = Some y \<Longrightarrow> (\<And>x. m = returns x \<Longrightarrow> f x = Some y \<Longrightarrow> g x = Some y) \<Longrightarrow> rbind m g = Some y"
  by (auto simp: rbind_def returns_def split: option.splits sum.splits)

lemma rbind_cong [fundef_cong]:
  assumes "m = m'" and "\<And>x. m' = returns x \<Longrightarrow> f x = f' x"
  shows "rbind m f = rbind m' f'"
  using assms by (cases m' rule: run_cases) auto

lemma rbind_eq_bind:
  "rbind m k = Option.bind m (\<lambda>v. case v of Inl e \<Rightarrow> Some (Inl e) | Inr x \<Rightarrow> k x)"
  by (auto simp: rbind_def split: option.split sum.split)

lemma rbind_mono [partial_function_mono]:
  assumes B: "mono_option B" and C: "\<And>y. mono_option (\<lambda>f. C y f)"
  shows "mono_option (\<lambda>f. rbind (B f) (\<lambda>y. C y f))"
proof -
  have "mono_option (\<lambda>f. case v of Inl e \<Rightarrow> Some (Inl e) | Inr x \<Rightarrow> C x f)" for v
    using C by (cases v) (auto simp: monotone_def flat_ord_def)
  then show ?thesis
    unfolding rbind_eq_bind by (rule bind_mono [OF B])
qed

subsection \<open>Total correctness\<close>

text \<open>\<open>ensures m Q\<close>: the call returns, without undefined behaviour or exit, and its result satisfies \<open>Q\<close>.\<close>

definition ensures :: "'a run \<Rightarrow> ('a \<Rightarrow> bool) \<Rightarrow> bool" where
  "ensures m Q \<longleftrightarrow> (\<exists>x. m = returns x \<and> Q x)"

lemma ensures_simps [simp]:
  "ensures (returns x) Q \<longleftrightarrow> Q x"
  "\<not> ensures None Q"
  "\<not> ensures (faults e) Q"
  "ensures (rbind m f) Q \<longleftrightarrow> ensures m (\<lambda>x. ensures (f x) Q)"
  by (auto simp: ensures_def rbind_eq_returns)

lemma ensures_mono: "ensures m P \<Longrightarrow> (\<And>x. P x \<Longrightarrow> Q x) \<Longrightarrow> ensures m Q"
  by (auto simp: ensures_def)

lemma ensures_conj: "ensures m P \<Longrightarrow> ensures m Q \<Longrightarrow> ensures m (\<lambda>x. P x \<and> Q x)"
  by (auto simp: ensures_def)

lemma ensures_returnsD: "ensures m P \<Longrightarrow> m = returns x \<Longrightarrow> P x"
  by (auto simp: ensures_def)

lemma ensuresE:
  assumes "ensures m P"
  obtains x where "m = returns x" and "P x"
  using assms by (auto simp: ensures_def)

lemma ensures_if [simp]:
  "ensures (if b then m else m') Q \<longleftrightarrow> (b \<longrightarrow> ensures m Q) \<and> (\<not> b \<longrightarrow> ensures m' Q)"
  by simp

section \<open>C arrays\<close>

text \<open>An access outside the array is undefined behaviour, so it is a fault of the run.\<close>

definition load :: "'a list \<Rightarrow> nat \<Rightarrow> 'a run" where
  "load xs i = (if i < length xs then returns (xs ! i) else faults OutOfBounds)"

definition store :: "'a list \<Rightarrow> nat \<Rightarrow> 'a \<Rightarrow> 'a list run" where
  "store xs i x = (if i < length xs then returns (xs[i := x]) else faults OutOfBounds)"

lemma load_simps [simp]:
  "i < length xs \<Longrightarrow> load xs i = returns (xs ! i)"
  "length xs \<le> i \<Longrightarrow> load xs i = faults OutOfBounds"
  by (simp_all add: load_def)

lemma store_simps [simp]:
  "i < length xs \<Longrightarrow> store xs i x = returns (xs[i := x])"
  "length xs \<le> i \<Longrightarrow> store xs i x = faults OutOfBounds"
  by (simp_all add: store_def)

text \<open>\<open>splice buf i x\<close>: the array after \<open>x\<close> was written from index \<open>i\<close> on.\<close>

definition splice :: "'a list \<Rightarrow> nat \<Rightarrow> 'a list \<Rightarrow> 'a list" where
  "splice buf i x = take i buf @ x @ drop (i + length x) buf"

lemma length_splice [simp]: "i + length x \<le> length buf \<Longrightarrow> length (splice buf i x) = length buf"
  by (simp add: splice_def)

lemma splice_Nil [simp]: "splice buf i [] = buf"
  by (simp add: splice_def)

lemma splice_update:
  "i < length buf \<Longrightarrow> splice (buf[i := c]) (Suc i) x = splice buf i (c # x)"
  by (simp add: splice_def take_Suc_conv_app_nth take_update_swap drop_update_swap
      list_update_append)

lemma splice_single: "i < length buf \<Longrightarrow> splice buf i [c] = buf[i := c]"
  by (simp add: splice_update [symmetric])

lemma splice_nth_end:
  "i + length x < length buf \<Longrightarrow> splice buf i (x @ [c]) ! (i + length x) = c"
  by (simp add: splice_def nth_append)

lemma splice_update_end:
  "i + length x < length buf \<Longrightarrow> (splice buf i (x @ [c]))[i + length x := d] = splice buf i (x @ [d])"
  by (simp add: splice_def list_update_append)

lemma splice_snoc:
  assumes "i + length x < length buf"
  shows "(splice buf i x)[i + length x := c] = splice buf i (x @ [c])"
proof -
  have "drop (i + length x) buf = buf ! (i + length x) # drop (Suc (i + length x)) buf"
    using assms by (simp add: Cons_nth_drop_Suc)
  then show ?thesis
    using assms by (simp add: splice_def list_update_append)
qed

section \<open>Narrowing conversions\<close>

definition int8 :: "int \<Rightarrow> int" where
  "int8 x = signed_take_bit 7 x"

definition uint8 :: "int \<Rightarrow> int" where
  "uint8 x = take_bit 8 x"

definition int16 :: "int \<Rightarrow> int" where
  "int16 x = signed_take_bit 15 x"

definition uint16 :: "int \<Rightarrow> int" where
  "uint16 x = take_bit 16 x"

definition int32 :: "int \<Rightarrow> int" where
  "int32 x = signed_take_bit 31 x"

lemma narrow_simps [simp]:
  "int8 0 = 0" "int8 1 = 1" "int8 (- 1) = - 1" "uint8 0 = 0" "uint8 1 = 1" "uint8 (- 1) = 255"
  "int16 0 = 0" "int16 1 = 1" "int16 (- 1) = - 1" "uint16 0 = 0" "uint16 1 = 1" "uint16 (- 1) = 65535"
  "int8 65535 = - 1"
  by (simp_all add: int8_def uint8_def int16_def uint16_def take_bit_minus_one_eq_mask mask_eq_exp_minus_1
      signed_take_bit_eq_if_positive signed_take_bit_eq_if_negative)

lemma int16_id: "- (2 ^ 15) \<le> x \<Longrightarrow> x < 2 ^ 15 \<Longrightarrow> int16 x = x"
  and int32_id: "- (2 ^ 31) \<le> x \<Longrightarrow> x < 2 ^ 31 \<Longrightarrow> int32 x = x"
  by (simp_all add: int16_def int32_def signed_take_bit_int_eq_self)

section \<open>Character classes of the C locale\<close>

abbreviation NUL :: char where "NUL \<equiv> CHR 0x00"
abbreviation TAB :: char where "TAB \<equiv> CHR 0x09"
abbreviation LF :: char where "LF \<equiv> CHR 0x0A"
abbreviation CR :: char where "CR \<equiv> CHR 0x0D"
abbreviation SP :: char where "SP \<equiv> CHR 0x20"

definition isblank :: "char \<Rightarrow> bool" where
  "isblank c \<longleftrightarrow> c = SP \<or> c = TAB"

definition isspace :: "char \<Rightarrow> bool" where
  "isspace c \<longleftrightarrow> c = SP \<or> c = TAB \<or> c = LF \<or> c = CHR 0x0B \<or> c = CHR 0x0C \<or> c = CR"

definition tolower :: "char \<Rightarrow> char" where
  "tolower c = (if 65 \<le> (of_char c :: nat) \<and> (of_char c :: nat) \<le> 90
                then char_of (of_char c + 32 :: nat) else c)"

lemma isblank_isspace: "isblank c \<Longrightarrow> isspace c"
  by (auto simp: isblank_def isspace_def)

lemma not_blank_NUL [simp]: "\<not> isblank NUL" "\<not> isspace NUL"
  by (simp_all add: isblank_def isspace_def)

lemma blank_chars [simp]: "isblank SP" "isblank TAB" "\<not> isblank LF" "\<not> isblank CR"
  "isspace SP" "isspace TAB" "isspace LF" "isspace CR"
  by (simp_all add: isblank_def isspace_def)

lemma char_of_of_char_int [simp]: "char_of (of_char c :: int) = c"
  by (rule char_of_char)

lemma of_char_int_eq_0 [simp]: "(of_char c :: int) = 0 \<longleftrightarrow> c = NUL"
proof -
  have "(of_char c :: int) = of_char NUL \<longleftrightarrow> c = NUL"
    by (rule of_char_eq_iff)
  then show ?thesis by simp
qed

lemma of_char_int_bounds [simp]: "(0::int) \<le> of_char c" "of_char c < (256::int)"
proof -
  have "(of_char c :: int) = int (of_char c)"
    by (simp add: of_nat_of_char)
  then show "(0::int) \<le> of_char c" "of_char c < (256::int)"
    using nat_of_char_less_256 [of c] by linarith+
qed

lemma of_char_int_pos [simp]: "(0::int) < of_char c \<longleftrightarrow> c \<noteq> NUL"
  using of_char_int_bounds(1) [of c] of_char_int_eq_0 [of c] by linarith

section \<open>Words\<close>

lemma unat_of_nat_small: "n < 2 ^ LENGTH('a) \<Longrightarrow> unat (of_nat n :: 'a::len word) = n"
  by (simp add: unat_of_nat)

lemma of_nat_unat_id: "of_nat (unat w) = w"
  by simp

lemma unat_ucast_32 [simp]: "unat (ucast (x :: 16 word) :: 32 word) = unat x"
  by transfer (simp add: take_bit_take_bit)

lemma ucast_16_32_16 [simp]: "(ucast (ucast (x :: 16 word) :: 32 word) :: 16 word) = x"
  by transfer simp

end
