(* ===== verification/CString.thy ===== *)
theory CString
  imports Prelude "HOL-Library.Sublist"
begin

text \<open>
  The functions of \<^verbatim>\<open><string.h>\<close>, \<^verbatim>\<open><strings.h>\<close> and \<^verbatim>\<open><stdio.h>\<close> that attoHTTP
  calls, on C buffers. A buffer is the list of all bytes of the array a pointer points into,
  from the pointer on; the C string it holds is \<open>strz\<close>, the bytes before the first NUL. A
  function that needs a byte past the end of the array faults.
\<close>

section \<open>Strings in buffers\<close>

definition strz :: "string \<Rightarrow> string" where
  "strz b = takeWhile (\<lambda>c. c \<noteq> NUL) b"

text \<open>A string literal of the source, with its terminator.\<close>

definition cstr :: "string \<Rightarrow> string" where
  "cstr x = x @ [NUL]"

definition terminated :: "string \<Rightarrow> bool" where
  "terminated b \<longleftrightarrow> NUL \<in> set b"

text \<open>The first \<open>n\<close> bytes of the string can be read.\<close>

definition readable :: "string \<Rightarrow> nat \<Rightarrow> bool" where
  "readable b n \<longleftrightarrow> n \<le> length b \<or> terminated b"

lemma strz_simps [simp]:
  "strz [] = []" "strz (NUL # b) = []" "c \<noteq> NUL \<Longrightarrow> strz (c # b) = c # strz b"
  by (simp_all add: strz_def)

lemma strz_append_NUL [simp]: "NUL \<notin> set x \<Longrightarrow> strz (x @ NUL # b) = x"
  by (induction x) (auto simp: strz_def)

lemma strz_cstr [simp]: "NUL \<notin> set x \<Longrightarrow> strz (cstr x) = x"
  by (simp add: cstr_def)

lemma strz_no_NUL: "NUL \<notin> set x \<Longrightarrow> strz x = x"
  by (auto simp: strz_def takeWhile_eq_all_conv)

lemma NUL_notin_strz [simp]: "NUL \<notin> set (strz b)"
  by (auto simp: strz_def dest: set_takeWhileD)

lemma terminated_simps [simp]:
  "\<not> terminated []" "terminated (NUL # b)" "terminated (cstr x)"
  "terminated (c # b) \<longleftrightarrow> c = NUL \<or> terminated b"
  "terminated (a @ b) \<longleftrightarrow> terminated a \<or> terminated b"
  by (auto simp: terminated_def cstr_def)

lemma length_strz_terminated: "terminated b \<Longrightarrow> length (strz b) < length b"
  by (induction b) (auto simp: strz_def)

lemma length_strz_le: "length (strz b) \<le> length b"
  by (simp add: strz_def length_takeWhile_le)

lemma strz_decompose: "terminated b \<Longrightarrow> \<exists>t. b = strz b @ NUL # t"
  by (induction b) (auto simp: strz_def)

lemma readable_simps [simp]:
  "terminated b \<Longrightarrow> readable b n" "n \<le> length b \<Longrightarrow> readable b n" "readable b 0"
  by (simp_all add: readable_def)

lemma readable_Cons: "readable (c # b) (Suc n) \<Longrightarrow> c \<noteq> NUL \<Longrightarrow> readable b n"
  by (auto simp: readable_def)

lemma not_readable_Nil: "\<not> readable [] (Suc n)"
  by (simp add: readable_def)

section \<open>strlen, strncmp, strncasecmp, strstr, strncpy\<close>

fun strlen :: "string \<Rightarrow> nat run" where
  "strlen [] = faults OutOfBounds"
| "strlen (c # b) = (if c = NUL then returns 0 else rbind (strlen b) (\<lambda>n. returns (Suc n)))"

lemma strlen_terminated: "terminated b \<Longrightarrow> strlen b = returns (length (strz b))"
  by (induction b) auto

fun strncmp :: "string \<Rightarrow> string \<Rightarrow> nat \<Rightarrow> int run" where
  "strncmp a b 0 = returns 0"
| "strncmp (x # xs) (y # ys) (Suc n) =
     (if x \<noteq> y then returns (of_char x - of_char y)
      else if x = NUL then returns 0 else strncmp xs ys n)"
| "strncmp a b (Suc n) = faults OutOfBounds"

fun strncasecmp :: "string \<Rightarrow> string \<Rightarrow> nat \<Rightarrow> int run" where
  "strncasecmp a b 0 = returns 0"
| "strncasecmp (x # xs) (y # ys) (Suc n) =
     (if tolower x \<noteq> tolower y then returns (of_char (tolower x) - of_char (tolower y))
      else if x = NUL then returns 0 else strncasecmp xs ys n)"
| "strncasecmp a b (Suc n) = faults OutOfBounds"

lemma of_char_diff_eq_0 [simp]: "(of_char x - of_char y :: int) = 0 \<longleftrightarrow> x = y"
  by (simp add: right_minus_eq)

lemma tolower_NUL [simp]: "tolower NUL = NUL"
  by (simp add: tolower_def)

lemma tolower_eq_NUL [simp]: "tolower c = NUL \<longleftrightarrow> c = NUL"
proof
  assume a: "tolower c = NUL"
  show "c = NUL"
  proof (rule ccontr)
    assume "c \<noteq> NUL"
    with a have b: "65 \<le> (of_char c :: nat)" "(of_char c :: nat) \<le> 90"
      and "char_of (of_char c + 32 :: nat) = NUL"
      by (auto simp: tolower_def split: if_splits)
    then have "(of_char (char_of (of_char c + 32 :: nat)) :: nat) = 0"
      by simp
    with b show False by simp
  qed
qed simp

lemma strncmp_spec:
  "readable a n \<Longrightarrow> readable b n \<Longrightarrow>
   ensures (strncmp a b n) (\<lambda>r. r = 0 \<longleftrightarrow> take n (strz a) = take n (strz b))"
proof (induction a b n rule: strncmp.induct)
  case (2 x xs y ys n)
  show ?case
  proof (cases "x = y \<and> x \<noteq> NUL")
    case True
    then have "readable xs n" "readable ys n"
      using 2(2,3) by (auto dest: readable_Cons)
    with 2(1) True show ?thesis by simp
  next
    case False
    then show ?thesis
      by (cases "x = NUL"; cases "y = NUL") auto
  qed
qed (auto simp: not_readable_Nil)

lemma strncasecmp_spec:
  "readable a n \<Longrightarrow> readable b n \<Longrightarrow>
   ensures (strncasecmp a b n)
     (\<lambda>r. r = 0 \<longleftrightarrow> map tolower (take n (strz a)) = map tolower (take n (strz b)))"
proof (induction a b n rule: strncasecmp.induct)
  case (2 x xs y ys n)
  show ?case
  proof (cases "tolower x = tolower y \<and> x \<noteq> NUL")
    case True
    then have "y \<noteq> NUL" by (metis tolower_eq_NUL)
    with True have "readable xs n" "readable ys n"
      using 2(2,3) by (auto dest: readable_Cons)
    with 2(1) True \<open>y \<noteq> NUL\<close> show ?thesis by simp
  next
    case False
    then show ?thesis
      by (cases "x = NUL"; cases "y = NUL") (auto, metis tolower_eq_NUL)
  qed
qed (auto simp: not_readable_Nil)

text \<open>\<open>strstr\<close> gives the offset of the first occurrence, \<open>None\<close> for \<^verbatim>\<open>NULL\<close>.\<close>

fun find_sub :: "string \<Rightarrow> string \<Rightarrow> nat option" where
  "find_sub [] nd = (if nd = [] then Some 0 else None)"
| "find_sub (c # hs) nd =
     (if take (length nd) (c # hs) = nd then Some 0 else map_option Suc (find_sub hs nd))"

definition strstr :: "string \<Rightarrow> string \<Rightarrow> nat option run" where
  "strstr h nd =
     (if terminated h \<and> terminated nd then returns (find_sub (strz h) (strz nd))
      else faults OutOfBounds)"

lemma find_sub_Some:
  "find_sub h nd = Some k \<Longrightarrow> take (length nd) (drop k h) = nd \<and> k + length nd \<le> length h"
proof (induction h nd arbitrary: k rule: find_sub.induct)
  case (2 c hs nd)
  show ?case
  proof (cases "take (length nd) (c # hs) = nd")
    case True
    then have "length nd \<le> length (c # hs)"
      by (metis length_take min.absorb_iff2 min.commute)
    with True 2(2) show ?thesis by auto
  next
    case False
    with 2(2) obtain j where "find_sub hs nd = Some j" "k = Suc j"
      by (auto split: if_splits)
    with 2(1) [OF False] show ?thesis by auto
  qed
qed (auto split: if_splits)

lemma find_sub_None_iff: "find_sub h nd = None \<longleftrightarrow> \<not> sublist nd h"
proof (induction h nd rule: find_sub.induct)
  case (2 c hs nd)
  have "prefix nd (c # hs) \<longleftrightarrow> take (length nd) (c # hs) = nd"
    by (metis append_eq_conv_conj append_take_drop_id prefix_def)
  then show ?case
    using 2 by (auto simp: sublist_Cons_right)
qed auto

lemma strstr_terminated:
  "terminated h \<Longrightarrow> terminated nd \<Longrightarrow> strstr h nd = returns (find_sub (strz h) (strz nd))"
  by (simp add: strstr_def)

text \<open>\<open>strncpy d s n\<close>: the destination buffer afterwards.\<close>

definition strncpy :: "string \<Rightarrow> string \<Rightarrow> nat \<Rightarrow> string run" where
  "strncpy d s n =
     (if n \<le> length d \<and> readable s n
      then returns (let t = take n (strz s) in t @ replicate (n - length t) NUL @ drop n d)
      else faults OutOfBounds)"

lemma strncpy_full:
  assumes "length d = n" "readable s n"
  shows "ensures (strncpy d s n)
    (\<lambda>b. length b = n \<and> strz b = take n (strz s) \<and> (length (strz s) < n \<longrightarrow> terminated b))"
proof -
  let ?t = "take n (strz s)"
  have len: "length ?t \<le> n" by simp
  have nn: "NUL \<notin> set ?t" by (meson NUL_notin_strz in_set_takeD)
  have z: "strz (?t @ replicate k NUL) = ?t" for k
    using nn by (cases k) (simp_all add: strz_no_NUL)
  have "terminated (?t @ replicate (n - length ?t) NUL)" if "length (strz s) < n"
    using that by (simp add: terminated_def)
  then show ?thesis
    using assms len by (simp add: strncpy_def Let_def z)
qed

section \<open>Formatted output\<close>

fun show_nat :: "nat \<Rightarrow> string" where
  "show_nat n =
     (if n < 10 then [char_of (48 + n)] else show_nat (n div 10) @ [char_of (48 + n mod 10)])"

declare show_nat.simps [simp del]

definition show_int :: "int \<Rightarrow> string" where
  "show_int i = (if i < 0 then CHR ''-'' # show_nat (nat (- i)) else show_nat (nat i))"

datatype fmtarg = ArgS string | ArgD int

text \<open>
  The text \<^verbatim>\<open>vsnprintf\<close> formats, before it is cut to the buffer: \<^verbatim>\<open>%s\<close> (the C string an
  \<open>ArgS\<close> buffer holds) and \<^verbatim>\<open>%d\<close> are the conversions the source uses.
\<close>

definition format_conv :: "char \<Rightarrow> fmtarg list \<Rightarrow> (string \<times> fmtarg list) option" where
  "format_conv d as =
     (case as of
        ArgS x # as' \<Rightarrow> if d = CHR ''s'' then Some (strz x, as') else None
      | ArgD i # as' \<Rightarrow> if d = CHR ''d'' then Some (show_int i, as') else None
      | [] \<Rightarrow> None)"

fun format :: "string \<Rightarrow> fmtarg list \<Rightarrow> string" where
  "format [] as = []"
| "format [c] as = [c]"
| "format (c # d # f) as =
     (case (if c = CHR ''%'' then format_conv d as else None) of
        Some (t, as') \<Rightarrow> t @ format f as'
      | None \<Rightarrow> c # format (d # f) as)"

text \<open>\<open>snprintf d n text\<close> with the text already formatted: cut to \<open>n - 1\<close> bytes and terminated.\<close>

definition snprintf :: "string \<Rightarrow> nat \<Rightarrow> string \<Rightarrow> string run" where
  "snprintf d n t =
     (if n = 0 then returns d
      else if min (length t) (n - 1) < length d
           then returns (take (n - 1) t @ NUL # drop (Suc (min (length t) (n - 1))) d)
           else faults OutOfBounds)"

lemma length_strncpy: "strncpy d s n = returns d' \<Longrightarrow> length d' = length d"
  by (auto simp: strncpy_def Let_def split: if_splits)

lemma length_snprintf: "snprintf d n t = returns d' \<Longrightarrow> length d' = length d"
  by (auto simp: snprintf_def split: if_splits)

end
