(* ===== verification/HttpState.thy ===== *)
theory HttpState
  imports CString
begin

text \<open>
  The data model of \<^verbatim>\<open>src/src/attohttp.h\<close> and the global variables of \<^verbatim>\<open>src/src/attohttp.c\<close>:
  the enumerations, the page record, the server state (one field per global variable, plus the
  state \<open>io\<close> of the user's transport), the environment of functions the user supplies, the
  per-connection initialisation and the functions that read and write a single byte.
\<close>

section \<open>Configuration constants\<close>

definition ATTOHTTP_PRINTF_BUFFER_SIZE :: nat where [simp]: "ATTOHTTP_PRINTF_BUFFER_SIZE = 128"
definition ATTOHTTP_URL_BUFFER_SIZE :: nat where [simp]: "ATTOHTTP_URL_BUFFER_SIZE = 64"
definition ATTOHTTP_HEADER_NAME_SIZE :: nat where [simp]: "ATTOHTTP_HEADER_NAME_SIZE = 64"
definition ATTOHTTP_HEADER_VALUE_SIZE :: nat where [simp]: "ATTOHTTP_HEADER_VALUE_SIZE = 64"
definition ATTOHTTP_PAGE_BUFFERS :: nat where [simp]: "ATTOHTTP_PAGE_BUFFERS = 8"
definition ATTOHTTP_API_LEVELS :: nat where [simp]: "ATTOHTTP_API_LEVELS = 3"
definition ATTOHTTP_PAGE_URL_SIZE :: nat where [simp]: "ATTOHTTP_PAGE_URL_SIZE = 32"
definition ATTOHTTP_AUTH_TYPES :: nat where [simp]: "ATTOHTTP_AUTH_TYPES = 2"
definition ATTOHTTP_MIME_TYPES :: nat where [simp]: "ATTOHTTP_MIME_TYPES = 7"

definition ATTOHTTP_AUTH_REALM :: string where
  "ATTOHTTP_AUTH_REALM = ''attoHTTP Server''"

definition ATTOHTTP_AUTH_ERROR_MSG :: string where
  "ATTOHTTP_AUTH_ERROR_MSG =
     ''<!DOCTYPE html><html><head><title>Invalid Request</title></head><body><h1>Invalid Request</h1></body></html>''"

definition HTTPEOL :: string where "HTTPEOL = [CR, LF]"
definition HTTP_METHOD_GET :: string where "HTTP_METHOD_GET = ''GET''"
definition HTTP_METHOD_PUT :: string where "HTTP_METHOD_PUT = ''PUT''"
definition HTTP_METHOD_POST :: string where "HTTP_METHOD_POST = ''POST''"
definition HTTP_METHOD_PATCH :: string where "HTTP_METHOD_PATCH = ''PATCH''"
definition HTTP_METHOD_DELETE :: string where "HTTP_METHOD_DELETE = ''DELETE''"
definition HTTP_VERSION_1_0 :: string where "HTTP_VERSION_1_0 = ''HTTP/1.0''"
definition HTTP_VERSION_1_1 :: string where "HTTP_VERSION_1_1 = ''HTTP/1.1''"
definition HTTP_VERSION :: string where "HTTP_VERSION = HTTP_VERSION_1_0"

section \<open>Enumerations\<close>

datatype returncode =
    STATUS_SERVERSENTEVENTS | STATUS_OK | STATUS_ACCEPTED | STATUS_UNSUPPORTED
  | STATUS_BADREQUEST | STATUS_UNAUTHORIZED | STATUS_INTERNAL_ERROR | STATUS_NOT_FOUND
  | STATUS_RUNKNOWN

fun returncode_value :: "returncode \<Rightarrow> 16 word" where
  "returncode_value STATUS_SERVERSENTEVENTS = 1"
| "returncode_value STATUS_OK = 200"
| "returncode_value STATUS_ACCEPTED = 202"
| "returncode_value STATUS_UNSUPPORTED = 501"
| "returncode_value STATUS_BADREQUEST = 400"
| "returncode_value STATUS_UNAUTHORIZED = 401"
| "returncode_value STATUS_INTERNAL_ERROR = 500"
| "returncode_value STATUS_NOT_FOUND = 404"
| "returncode_value STATUS_RUNKNOWN = 510"

datatype authtype = BASIC_AUTH | DIGEST_AUTH

datatype httpmethod =
    METHOD_GET | METHOD_POST | METHOD_PUT | METHOD_DELETE | METHOD_PATCH | METHOD_NOTSUPPORTED

datatype httpversion = VUNKNOWN | V1_0 | V1_1

datatype mimetype =
    APPLICATION_JSON | TEXT_HTML | TEXT_PLAIN | TEXT_CSS | APPLICATION_JAVASCRIPT
  | APPLICATION_XWWWFORMURLENCODED | IMAGE_PNG | TEXT_EVENTSTREAM

text \<open>The enumerators in the order of their values: \<open>mime_of ! i\<close> is the type with value \<open>i\<close>.\<close>

definition mime_of :: "mimetype list" where
  "mime_of = [APPLICATION_JSON, TEXT_HTML, TEXT_PLAIN, TEXT_CSS, APPLICATION_JAVASCRIPT,
     APPLICATION_XWWWFORMURLENCODED, IMAGE_PNG, TEXT_EVENTSTREAM]"

definition auth_of :: "authtype list" where
  "auth_of = [BASIC_AUTH, DIGEST_AUTH]"

fun authtypes :: "authtype \<Rightarrow> string" where
  "authtypes BASIC_AUTH = ''Basic''"
| "authtypes DIGEST_AUTH = ''Digest''"

fun mimetypes :: "mimetype \<Rightarrow> string" where
  "mimetypes APPLICATION_JSON = ''application/json''"
| "mimetypes TEXT_HTML = ''text/html''"
| "mimetypes TEXT_PLAIN = ''text/plain''"
| "mimetypes TEXT_CSS = ''text/css''"
| "mimetypes APPLICATION_JAVASCRIPT = ''application/javascript''"
| "mimetypes APPLICATION_XWWWFORMURLENCODED = ''application/x-www-form-urlencoded''"
| "mimetypes IMAGE_PNG = ''image/png''"
| "mimetypes TEXT_EVENTSTREAM = ''text/event-stream''"

text \<open>
  The enumerators of the two C enumerations that are used as numbers, as instances of the class of
  enumerable types: quantifiers over them can be evaluated.
\<close>

instantiation mimetype :: enum
begin

definition "enum_mimetype = mime_of"
definition "enum_all_mimetype P = list_all P mime_of"
definition "enum_ex_mimetype P = list_ex P mime_of"

instance
proof
  have all: "m \<in> set mime_of" for m by (cases m) (simp_all add: mime_of_def)
  then show "(UNIV :: mimetype set) = set enum_class.enum" by (auto simp: enum_mimetype_def)
  show "distinct (enum_class.enum :: mimetype list)" by (simp add: enum_mimetype_def mime_of_def)
  show "enum_class.enum_all P = Ball (UNIV :: mimetype set) P" for P
    using all by (auto simp: enum_all_mimetype_def list_all_iff)
  show "enum_class.enum_ex P = Bex (UNIV :: mimetype set) P" for P
    using all by (auto simp: enum_ex_mimetype_def list_ex_iff)
qed

end

definition returncodes :: "returncode list" where
  "returncodes = [STATUS_SERVERSENTEVENTS, STATUS_OK, STATUS_ACCEPTED, STATUS_UNSUPPORTED, STATUS_BADREQUEST,
     STATUS_UNAUTHORIZED, STATUS_INTERNAL_ERROR, STATUS_NOT_FOUND, STATUS_RUNKNOWN]"

instantiation returncode :: enum
begin

definition "enum_returncode = returncodes"
definition "enum_all_returncode P = list_all P returncodes"
definition "enum_ex_returncode P = list_ex P returncodes"

instance
proof
  have all: "c \<in> set returncodes" for c by (cases c) (simp_all add: returncodes_def)
  then show "(UNIV :: returncode set) = set enum_class.enum" by (auto simp: enum_returncode_def)
  show "distinct (enum_class.enum :: returncode list)" by (simp add: enum_returncode_def returncodes_def)
  show "enum_class.enum_all P = Ball (UNIV :: returncode set) P" for P
    using all by (auto simp: enum_all_returncode_def list_all_iff)
  show "enum_class.enum_ex P = Bex (UNIV :: returncode set) P" for P
    using all by (auto simp: enum_ex_returncode_def list_ex_iff)
qed

end

lemma returncode_value_inject: "returncode_value c = returncode_value d \<longleftrightarrow> c = d"
proof -
  have "\<forall>c d. returncode_value c = returncode_value d \<longrightarrow> c = d" by code_simp
  then show ?thesis by blast
qed

lemma mimetypes_short: "\<forall>m. length (mimetypes m) \<le> 33 \<and> NUL \<notin> set (mimetypes m)"
  by code_simp

lemma mimetypes_no_NUL [simp]: "NUL \<notin> set (mimetypes m)"
  by (simp add: mimetypes_short)

lemma authtypes_no_NUL [simp]: "NUL \<notin> set (authtypes a)"
  by (cases a) auto

section \<open>Pages\<close>

text \<open>
  \<open>page_content\<close> is the \<^verbatim>\<open>content\<close> pointer: \<open>None\<close> for \<^verbatim>\<open>NULL\<close>, otherwise the bytes of the
  object it points to. \<open>page_size\<close> is what the caller said the length is.
\<close>

record page =
  page_url :: string
  page_content :: "string option"
  page_size :: "32 word"
  page_type :: mimetype

definition favicon_ico :: string where
  "favicon_ico = map char_of
    ([0x1f, 0x8b, 0x08, 0x08, 0xbf, 0x58, 0xcd, 0x55, 0x00, 0x03, 0x66, 0x61,
     0x76, 0x69, 0x63, 0x6f, 0x6e, 0x2e, 0x70, 0x6e, 0x67, 0x00, 0xeb, 0x0c,
     0xf0, 0x73, 0xe7, 0xe5, 0x92, 0xe2, 0x62, 0x60, 0x60, 0xe0, 0xf5, 0xf4,
     0x70, 0x09, 0x02, 0xd2, 0x02, 0x20, 0xcc, 0xc1, 0x06, 0x24, 0xe5, 0x3f,
     0xff, 0x4f, 0x04, 0x52, 0x6c, 0x49, 0xde, 0xee, 0x2e, 0x0c, 0xff, 0x41,
     0x70, 0xc1, 0xde, 0xe5, 0x93, 0x81, 0x22, 0xb7, 0x3c, 0x5d, 0x1c, 0x43,
     0x2c, 0x4e, 0x5f, 0xbd, 0x6c, 0xc8, 0xd5, 0x6c, 0x20, 0xc2, 0xf6, 0x60,
     0x3f, 0xab, 0xac, 0x92, 0xc7, 0x89, 0x77, 0xb2, 0x73, 0x6c, 0x9b, 0x9b,
     0x9b, 0x9a, 0x5f, 0x3c, 0x79, 0xf4, 0xce, 0xd2, 0xa6, 0xf5, 0xb9, 0x40,
     0xfe, 0x02, 0xf7, 0x82, 0x02, 0x51, 0xa3, 0x9d, 0x16, 0x2c, 0xff, 0xfc,
     0x64, 0xa3, 0x94, 0xc5, 0xbc, 0xda, 0xff, 0x7d, 0xd8, 0xf6, 0xe1, 0x63,
     0xdc, 0xa4, 0x72, 0x65, 0xcf, 0x9a, 0x89, 0xd6, 0xfb, 0xce, 0xe4, 0x37,
     0xec, 0x7b, 0x2f, 0x78, 0xdc, 0x70, 0xc9, 0x14, 0x01, 0x27, 0x85, 0x2e,
     0x25, 0x9e, 0xc3, 0x09, 0xe2, 0x19, 0x9c, 0x0d, 0xce, 0x96, 0x7d, 0x87,
     0x0b, 0x65, 0xfa, 0xd3, 0x73, 0x1d, 0xa6, 0xa5, 0xce, 0x59, 0xd6, 0xf9,
     0x7b, 0x5f, 0xf1, 0xbc, 0xf4, 0x65, 0x99, 0x5e, 0x0c, 0x67, 0x3e, 0xff,
     0x31, 0x7e, 0x60, 0xfb, 0x7a, 0x97, 0x10, 0x43, 0xb3, 0xc2, 0x0e, 0xb6,
     0x1e, 0xc3, 0x9c, 0xdb, 0xd3, 0x12, 0x25, 0x82, 0x38, 0x3e, 0x1a, 0xb5,
     0xbd, 0xde, 0x75, 0xdd, 0xe1, 0xb2, 0xc9, 0x35, 0xeb, 0x8a, 0x6b, 0xaa,
     0x0b, 0xa6, 0x28, 0x31, 0x94, 0xc5, 0xba, 0xaf, 0x35, 0xed, 0x35, 0xbc,
     0x12, 0x35, 0x9f, 0xa9, 0xfc, 0xf4, 0x6a, 0x06, 0x86, 0x9a, 0xfb, 0xed,
     0xcf, 0x2b, 0x23, 0xa6, 0xb1, 0x96, 0xc6, 0xce, 0xaf, 0x6f, 0x29, 0xdf,
     0xa8, 0xd1, 0xe5, 0x7c, 0xdb, 0x73, 0x52, 0x8d, 0x5d, 0xd3, 0xb5, 0x59,
     0xa9, 0x91, 0x41, 0x9a, 0xae, 0x9a, 0xaa, 0xab, 0x57, 0x3d, 0xda, 0x96,
     0xbb, 0xfc, 0xc0, 0xdb, 0xff, 0xd3, 0x5f, 0x32, 0x9e, 0x2d, 0x9f, 0xca,
     0x56, 0xa3, 0xbd, 0xaf, 0x0e, 0xe8, 0x4b, 0x06, 0x4f, 0x57, 0x3f, 0x97,
     0x75, 0x4e, 0x09, 0x4d, 0x00, 0x91, 0x99, 0x0f, 0x4f, 0x25, 0x01, 0x00,
     0x00] :: nat list)"

definition favicon_ico_len :: "32 word" where
  "favicon_ico_len = 325"

section \<open>The state of the server\<close>

text \<open>
  Addresses that attoHTTP only hands through (the \<^verbatim>\<open>void *\<close> read and write arguments, the
  callback) are opaque numbers. A pointer into the URL buffer is its offset, \<open>None\<close> is
  \<^verbatim>\<open>NULL\<close>.
\<close>

type_synonym handle = nat

record 'io http =
  http_method :: httpmethod
  version :: httpversion
  url :: string
  extra_c :: int
  url_params :: "nat option"
  url_params_start :: "16 word"
  url_len :: nat
  read_h :: handle
  write_h :: handle
  headersDone :: bool
  headersSent :: bool
  firstlineSent :: bool
  returnCode :: returncode
  accept :: "16 word"
  contenttype :: mimetype
  contentlength :: "32 word"
  pages :: "page list"
  defaultPage :: page
  defaultCallback :: "nat option"
  ssePage :: string
  cblevel :: "8 word"
  sblevel :: "8 word"
  baselevel :: char
  counter :: "8 word"
  authenticated :: "8 word"
  io :: 'io

section \<open>The environment\<close>

text \<open>
  What is not in the source: the user's \<^verbatim>\<open>attoHTTPGetByte\<close>, \<^verbatim>\<open>attoHTTPSetByte\<close>,
  \<^verbatim>\<open>attoHTTPWrapperCheckAuth\<close> and REST callback, which preprocessor flags the build has, and
  the bytes an automatic variable holds before its first assignment (\<open>junk\<close>, by variable,
  index and moment). \<open>getByte\<close> returns the C return value and the byte it stored through its
  pointer, if it stored one.
\<close>

datatype authmode = NO_AUTH | BASIC_BUILD | DIGEST_BUILD

datatype local_var =
    ParseSpace_c | ParseEOL_c | ParseMethod_buffer | ParseVersion_buffer
  | ParseHeaders_name | ParseHeaders_value | vprintf_buffer
  | ParseURLParam_c | ParseURLParam_decode | ParseJSONParam_c

record 'io env =
  getByte :: "handle \<Rightarrow> 'io \<Rightarrow> (int \<times> char option \<times> 'io) run"
  setByte :: "handle \<Rightarrow> char \<Rightarrow> 'io \<Rightarrow> (int \<times> 'io) run"
  checkAuth :: "authtype \<Rightarrow> string \<Rightarrow> 'io \<Rightarrow> (int \<times> 'io) run"
  callback :: "nat \<Rightarrow> httpmethod \<Rightarrow> 16 word \<Rightarrow> nat option list \<Rightarrow> nat option list \<Rightarrow>
    nat \<Rightarrow> nat \<Rightarrow> 'io http \<Rightarrow> (returncode \<times> 'io http) run"
  authMode :: authmode
  gzipPages :: bool
  junk :: "local_var \<Rightarrow> nat \<Rightarrow> 'io \<Rightarrow> char"

definition uninit :: "'io env \<Rightarrow> local_var \<Rightarrow> nat \<Rightarrow> 'io http \<Rightarrow> string" where
  "uninit E v n s = map (\<lambda>i. junk E v i (io s)) [0..<n]"

lemma length_uninit [simp]: "length (uninit E v n s) = n"
  by (simp add: uninit_def)

section \<open>Initialisation of a connection\<close>

definition attoHTTPInitRun :: "'io env \<Rightarrow> 'io http \<Rightarrow> 'io http" where
  "attoHTTPInitRun E s = s\<lparr>
     authenticated := (if authMode E = NO_AUTH then 1 else 0),
     http_method := METHOD_NOTSUPPORTED,
     version := VUNKNOWN,
     url_len := 0,
     headersDone := False,
     headersSent := False,
     firstlineSent := False,
     returnCode := STATUS_RUNKNOWN,
     extra_c := -1,
     url_params := None,
     url_params_start := of_nat ATTOHTTP_URL_BUFFER_SIZE,
     accept := 1,
     contenttype := TEXT_HTML,
     contentlength := 0,
     cblevel := 0,
     sblevel := 0,
     baselevel := NUL,
     counter := 0\<rparr>"

text \<open>The two variables that say where the parameters are agree.\<close>

definition params_ok :: "'io http \<Rightarrow> bool" where
  "params_ok s \<longleftrightarrow> (case url_params s of None \<Rightarrow> url_params_start s = 64
     | Some p \<Rightarrow> p \<le> 64 \<and> url_params_start s = of_nat p)"

lemma params_ok_updates [simp]:
  "params_ok (s\<lparr>url := u\<rparr>) = params_ok s" "params_ok (s\<lparr>url_len := n\<rparr>) = params_ok s"
  "params_ok (s\<lparr>http_method := m\<rparr>) = params_ok s" "params_ok (s\<lparr>returnCode := rc\<rparr>) = params_ok s"
  "params_ok (s\<lparr>version := v\<rparr>) = params_ok s" "params_ok (s\<lparr>headersDone := h\<rparr>) = params_ok s"
  by (auto simp: params_ok_def split: option.splits)

section \<open>Reading and writing a byte\<close>

definition attoHTTPPushC :: "char \<Rightarrow> 'io http \<Rightarrow> 'io http" where
  "attoHTTPPushC c s = s\<lparr>extra_c := of_char c\<rparr>"

text \<open>The second argument is what the byte pointed to holds before the call.\<close>

definition attoHTTPReadC :: "'io env \<Rightarrow> char \<Rightarrow> 'io http \<Rightarrow> (int \<times> char \<times> 'io http) run" where
  "attoHTTPReadC E c s =
     (if extra_c s > 0 then returns (1, char_of (extra_c s), s\<lparr>extra_c := -1\<rparr>)
      else rbind (getByte E (read_h s) (io s)) (\<lambda>(r, oc, i).
        returns (int8 r, (case oc of None \<Rightarrow> c | Some b \<Rightarrow> b), s\<lparr>io := i\<rparr>)))"

definition attoHTTPWriteC :: "'io env \<Rightarrow> char \<Rightarrow> 'io http \<Rightarrow> (int \<times> 'io http) run" where
  "attoHTTPWriteC E c s =
     rbind (setByte E (write_h s) c (io s)) (\<lambda>(r, i). returns (int8 r, s\<lparr>io := i\<rparr>))"

text \<open>\<^verbatim>\<open>_attoHTTPReadC(&buf[i])\<close>: the byte goes into an array.\<close>

definition readInto :: "'io env \<Rightarrow> string \<Rightarrow> nat \<Rightarrow> 'io http \<Rightarrow> (int \<times> string \<times> 'io http) run" where
  "readInto E buf i s =
     rbind (load buf i) (\<lambda>c0.
     rbind (attoHTTPReadC E c0 s) (\<lambda>(ret, c, s).
     rbind (store buf i c) (\<lambda>buf. returns (ret, buf, s))))"

end
