(* ===== verification/ByteChannel.thy ===== *)
theory ByteChannel
  imports HttpState
begin

text \<open>
  The interface between the server and the transport: what attoHTTP relies on when it calls
  \<^verbatim>\<open>attoHTTPGetByte\<close> and \<^verbatim>\<open>attoHTTPSetByte\<close>, as two locales, and the server's view of its
  input (the pushed-back character, then what the transport has still to deliver). The laws
  are the documented behaviour (\<^verbatim>\<open>src/src/attohttp.h\<close>, page \<^verbatim>\<open>char_fcts\<close>: 1 when a byte was
  transferred, 0 otherwise). All four wrappers provide them, the particle.io one
  while its client stays connected, the Windows one while no call fails: see \<^verbatim>\<open>WrapperEsp8266\<close>,
  \<^verbatim>\<open>WrapperUnix\<close>, \<^verbatim>\<open>WrapperWin32\<close> and \<^verbatim>\<open>WrapperParticle\<close>.
\<close>

text \<open>The user's check of credentials does not touch the transport.\<close>

definition auth_quiet :: "'io env \<Rightarrow> bool" where
  "auth_quiet U \<longleftrightarrow> (\<forall>a cred i. \<exists>r. checkAuth U a cred i = returns (r, i))"

section \<open>The logical input of the server\<close>

definition input_of :: "(handle \<Rightarrow> 'io \<Rightarrow> string) \<Rightarrow> 'io http \<Rightarrow> string" where
  "input_of pending s =
     (if extra_c s > 0 then [char_of (extra_c s)] else []) @ pending (read_h s) (io s)"

text \<open>What reading may change: the pushed-back character and the transport.\<close>

definition io_frame :: "'io http \<Rightarrow> 'io http \<Rightarrow> bool" where
  "io_frame s s' \<longleftrightarrow> (\<exists>e i. s' = s\<lparr>extra_c := e, io := i\<rparr>)"

lemma io_frame_refl [simp, frame_intros]: "io_frame s s"
  unfolding io_frame_def by (rule exI [of _ "extra_c s"], rule exI [of _ "io s"]) simp

lemma io_frame_updates [simp, frame_intros]:
  "io_frame s (s\<lparr>extra_c := e\<rparr>)" "io_frame s (s\<lparr>io := i\<rparr>)"
  unfolding io_frame_def
  by (rule exI [of _ e], rule exI [of _ "io s"], simp)
    (rule exI [of _ "extra_c s"], rule exI [of _ i], simp)

lemma io_frame_trans: "io_frame s t \<Longrightarrow> io_frame t u \<Longrightarrow> io_frame s u"
  unfolding io_frame_def by clarsimp (rule exI, rule exI, rule refl)

lemma io_frame_fields:
  assumes "io_frame s s'"
  shows "http_method s' = http_method s" "version s' = version s" "url s' = url s"
    "url_params s' = url_params s" "url_params_start s' = url_params_start s"
    "url_len s' = url_len s" "read_h s' = read_h s" "write_h s' = write_h s"
    "headersDone s' = headersDone s" "headersSent s' = headersSent s"
    "firstlineSent s' = firstlineSent s" "returnCode s' = returnCode s"
    "accept s' = accept s" "contenttype s' = contenttype s"
    "contentlength s' = contentlength s" "pages s' = pages s"
    "defaultPage s' = defaultPage s" "defaultCallback s' = defaultCallback s"
    "ssePage s' = ssePage s" "cblevel s' = cblevel s" "sblevel s' = sblevel s"
    "baselevel s' = baselevel s" "counter s' = counter s" "authenticated s' = authenticated s"
  using assms unfolding io_frame_def by auto

lemma io_frame_iff: "io_frame s s' \<longleftrightarrow> s' = s\<lparr>extra_c := extra_c s', io := io s'\<rparr>"
  by (auto simp: io_frame_def)

lemma io_frame_pushC [simp, frame_intros]: "io_frame s (attoHTTPPushC c s)"
  by (simp add: attoHTTPPushC_def)

lemma extra_c_pushC [simp]: "extra_c (attoHTTPPushC c s) = of_char c"
  and io_pushC [simp]: "io (attoHTTPPushC c s) = io s"
  by (simp_all add: attoHTTPPushC_def)

lemmas pushC_fields [simp] = io_frame_fields [OF io_frame_pushC]

lemma input_of_pushC:
  "extra_c s \<le> 0 \<Longrightarrow>
   input_of pending (attoHTTPPushC c s) = (if c = NUL then [] else [c]) @ input_of pending s"
  by (simp add: input_of_def attoHTTPPushC_def)

text \<open>
  What the transport has still to deliver, and the effect every parser has on the server: it
  reads forward, so the undelivered part gets no longer, nothing is sent, and no global
  variable but the pushed-back character changes.
\<close>

definition unread :: "(handle \<Rightarrow> 'io \<Rightarrow> string) \<Rightarrow> 'io http \<Rightarrow> string" where
  "unread pending s = pending (read_h s) (io s)"

definition reads ::
    "(handle \<Rightarrow> 'io \<Rightarrow> string) \<Rightarrow> (handle \<Rightarrow> 'io \<Rightarrow> string) \<Rightarrow> 'io http \<Rightarrow> 'io http \<Rightarrow> bool" where
  "reads pending sent s s' \<longleftrightarrow>
     io_frame s s' \<and> (\<forall>g. sent g (io s') = sent g (io s)) \<and>
     length (unread pending s') \<le> length (unread pending s)"

lemma input_of_unread:
  "input_of pending s = (if extra_c s > 0 then [char_of (extra_c s)] else []) @ unread pending s"
  by (simp add: input_of_def unread_def)

lemma input_of_Nil: "input_of pending s = [] \<Longrightarrow> unread pending s = []"
  by (simp add: input_of_unread)

lemma reads_refl [simp, frame_intros]: "reads p w s s"
  by (simp add: reads_def)

lemma reads_trans: "reads p w s t \<Longrightarrow> reads p w t u \<Longrightarrow> reads p w s u"
  by (auto simp: reads_def intro: io_frame_trans)

lemma unread_pushC [simp]: "unread p (attoHTTPPushC c s) = unread p s"
  by (simp add: unread_def attoHTTPPushC_def)

lemma reads_pushC [simp, frame_intros]: "reads p w s (attoHTTPPushC c s)"
  by (simp add: reads_def)

lemma reads_pushC_right: "reads p w s s' \<Longrightarrow> reads p w s (attoHTTPPushC c s')"
  by (rule reads_trans [OF _ reads_pushC])

lemma reads_io_frame: "reads p w s s' \<Longrightarrow> io_frame s s'"
  by (simp add: reads_def)

lemma reads_sent: "reads p w s s' \<Longrightarrow> w g (io s') = w g (io s)"
  by (simp add: reads_def)

lemma reads_unread: "reads p w s s' \<Longrightarrow> length (unread p s') \<le> length (unread p s)"
  by (simp add: reads_def)

lemmas reads_fields = io_frame_fields [OF reads_io_frame]

text \<open>
  Assigning a global variable commutes with reading, and does not change the input.
\<close>

lemma reads_updates [frame_intros]:
  assumes "reads p w s s'"
  shows "reads p w (s\<lparr>headersDone := h\<rparr>) (s'\<lparr>headersDone := h\<rparr>)"
    and "reads p w (s\<lparr>http_method := m\<rparr>) (s'\<lparr>http_method := m\<rparr>)"
    and "reads p w (s\<lparr>version := v\<rparr>) (s'\<lparr>version := v\<rparr>)"
    and "reads p w (s\<lparr>returnCode := rc\<rparr>) (s'\<lparr>returnCode := rc\<rparr>)"
    and "reads p w (s\<lparr>url := u\<rparr>) (s'\<lparr>url := u\<rparr>)"
    and "reads p w (s\<lparr>url_len := n\<rparr>) (s'\<lparr>url_len := n\<rparr>)"
    and "reads p w (s\<lparr>url_params := q\<rparr>) (s'\<lparr>url_params := q\<rparr>)"
    and "reads p w (s\<lparr>url_params_start := k\<rparr>) (s'\<lparr>url_params_start := k\<rparr>)"
    and "reads p w (s\<lparr>accept := a\<rparr>) (s'\<lparr>accept := a\<rparr>)"
    and "reads p w (s\<lparr>contenttype := t\<rparr>) (s'\<lparr>contenttype := t\<rparr>)"
    and "reads p w (s\<lparr>authenticated := z\<rparr>) (s'\<lparr>authenticated := z\<rparr>)"
proof -
  from assms obtain e i where "s' = s\<lparr>extra_c := e, io := i\<rparr>"
    by (auto simp: reads_def io_frame_def)
  with assms show
    "reads p w (s\<lparr>headersDone := h\<rparr>) (s'\<lparr>headersDone := h\<rparr>)"
    "reads p w (s\<lparr>http_method := m\<rparr>) (s'\<lparr>http_method := m\<rparr>)"
    "reads p w (s\<lparr>version := v\<rparr>) (s'\<lparr>version := v\<rparr>)"
    "reads p w (s\<lparr>returnCode := rc\<rparr>) (s'\<lparr>returnCode := rc\<rparr>)"
    "reads p w (s\<lparr>url := u\<rparr>) (s'\<lparr>url := u\<rparr>)"
    "reads p w (s\<lparr>url_len := n\<rparr>) (s'\<lparr>url_len := n\<rparr>)"
    "reads p w (s\<lparr>url_params := q\<rparr>) (s'\<lparr>url_params := q\<rparr>)"
    "reads p w (s\<lparr>url_params_start := k\<rparr>) (s'\<lparr>url_params_start := k\<rparr>)"
    "reads p w (s\<lparr>accept := a\<rparr>) (s'\<lparr>accept := a\<rparr>)"
    "reads p w (s\<lparr>contenttype := t\<rparr>) (s'\<lparr>contenttype := t\<rparr>)"
    "reads p w (s\<lparr>authenticated := z\<rparr>) (s'\<lparr>authenticated := z\<rparr>)"
    by (simp_all add: reads_def io_frame_iff unread_def)
qed

lemma input_of_updates [simp]:
  "input_of p (s\<lparr>headersDone := h\<rparr>) = input_of p s"
  "input_of p (s\<lparr>http_method := m\<rparr>) = input_of p s"
  "input_of p (s\<lparr>version := v\<rparr>) = input_of p s"
  "input_of p (s\<lparr>returnCode := rc\<rparr>) = input_of p s"
  "input_of p (s\<lparr>url := u\<rparr>) = input_of p s"
  "input_of p (s\<lparr>url_len := n\<rparr>) = input_of p s"
  "input_of p (s\<lparr>url_params := q\<rparr>) = input_of p s"
  "input_of p (s\<lparr>url_params_start := k\<rparr>) = input_of p s"
  "input_of p (s\<lparr>accept := a\<rparr>) = input_of p s"
  "input_of p (s\<lparr>contenttype := t\<rparr>) = input_of p s"
  "input_of p (s\<lparr>authenticated := z\<rparr>) = input_of p s"
  by (simp_all add: input_of_def)

lemma unread_updates [simp]:
  "unread p (s\<lparr>headersDone := h\<rparr>) = unread p s"
  "unread p (s\<lparr>http_method := m\<rparr>) = unread p s"
  "unread p (s\<lparr>version := v\<rparr>) = unread p s"
  "unread p (s\<lparr>returnCode := rc\<rparr>) = unread p s"
  "unread p (s\<lparr>url := u\<rparr>) = unread p s"
  "unread p (s\<lparr>url_len := n\<rparr>) = unread p s"
  "unread p (s\<lparr>url_params := q\<rparr>) = unread p s"
  "unread p (s\<lparr>url_params_start := k\<rparr>) = unread p s"
  "unread p (s\<lparr>accept := a\<rparr>) = unread p s"
  "unread p (s\<lparr>contenttype := t\<rparr>) = unread p s"
  "unread p (s\<lparr>authenticated := z\<rparr>) = unread p s"
  by (simp_all add: unread_def)

section \<open>A source of bytes\<close>

text \<open>
  \<open>pending h i\<close> are the bytes \<^verbatim>\<open>attoHTTPGetByte(h, _)\<close> will deliver one at a time before it
  returns 0; \<open>sent h i\<close> are the bytes written to \<open>h\<close>, which reading does not change.
\<close>

locale byte_source =
  fixes E :: "'io env"
    and pending :: "handle \<Rightarrow> 'io \<Rightarrow> string"
    and sent :: "handle \<Rightarrow> 'io \<Rightarrow> string"
  assumes getByte_Cons: "pending h i = c # cs \<Longrightarrow>
      \<exists>i'. getByte E h i = returns (1, Some c, i') \<and> pending h i' = cs \<and>
        (\<forall>g. sent g i' = sent g i)"
    and getByte_Nil: "pending h i = [] \<Longrightarrow>
      \<exists>oc i'. getByte E h i = returns (0, oc, i') \<and> pending h i' = [] \<and>
        (\<forall>g. sent g i' = sent g i)"
begin

abbreviation rds :: "'io http \<Rightarrow> 'io http \<Rightarrow> bool" where "rds \<equiv> reads pending sent"
abbreviation inp :: "'io http \<Rightarrow> string" where "inp \<equiv> input_of pending"
abbreviation left :: "'io http \<Rightarrow> nat" where "left s \<equiv> length (unread pending s)"

lemma ReadC_Cons:
  assumes "inp s = c # cs"
  obtains s' where "\<And>c0. attoHTTPReadC E c0 s = returns (1, c, s')"
    and "rds s s'" and "extra_c s' \<le> 0" and "inp s' = cs"
    and "extra_c s \<le> 0 \<Longrightarrow> left s' < left s"
proof (cases "extra_c s > 0")
  case True
  with assms show ?thesis
    by (intro that [of "s\<lparr>extra_c := -1\<rparr>"])
      (simp_all add: attoHTTPReadC_def input_of_def reads_def unread_def)
next
  case False
  with assms have "pending (read_h s) (io s) = c # cs"
    by (simp add: input_of_def)
  with getByte_Cons obtain i' where
    "getByte E (read_h s) (io s) = returns (1, Some c, i')" "pending (read_h s) i' = cs"
    "\<forall>g. sent g i' = sent g (io s)"
    by blast
  with False \<open>pending (read_h s) (io s) = c # cs\<close> show ?thesis
    by (intro that [of "s\<lparr>io := i'\<rparr>"])
      (simp_all add: attoHTTPReadC_def input_of_def reads_def unread_def)
qed

lemma ReadC_Nil:
  assumes "inp s = []"
  obtains s' oc where "\<And>c0. attoHTTPReadC E c0 s = returns (0, case oc of None \<Rightarrow> c0 | Some b \<Rightarrow> b, s')"
    and "rds s s'" and "extra_c s' \<le> 0" and "inp s' = []"
proof -
  from assms have e: "extra_c s \<le> 0" and "pending (read_h s) (io s) = []"
    by (auto simp: input_of_def split: if_splits)
  with getByte_Nil obtain oc i' where
    "getByte E (read_h s) (io s) = returns (0, oc, i')" "pending (read_h s) i' = []"
    "\<forall>g. sent g i' = sent g (io s)"
    by blast
  with e show ?thesis
    by (intro that [of oc "s\<lparr>io := i'\<rparr>"])
      (simp_all add: attoHTTPReadC_def input_of_def reads_def unread_def)
qed

text \<open>One read, whatever the input is.\<close>

lemma ReadC_ensures:
  "ensures (attoHTTPReadC E c s) (\<lambda>(ret, c', s').
     rds s s' \<and> extra_c s' \<le> 0 \<and>
     (ret = 1 \<and> inp s = c' # inp s' \<and> (extra_c s \<le> 0 \<longrightarrow> left s' < left s) \<or>
      ret = 0 \<and> inp s = [] \<and> inp s' = [] \<and> left s' = 0))"
proof (cases "inp s")
  case Nil
  show ?thesis
    by (rule ReadC_Nil [OF Nil]) (simp add: Nil input_of_Nil)
next
  case (Cons b bs)
  show ?thesis
    by (rule ReadC_Cons [OF Cons]) (simp add: Cons)
qed

lemma readInto_ensures:
  "i < length buf \<Longrightarrow>
   ensures (readInto E buf i s) (\<lambda>(ret, buf', s').
     rds s s' \<and> extra_c s' \<le> 0 \<and>
     (\<exists>c'. buf' = buf[i := c'] \<and>
       (ret = 1 \<and> inp s = c' # inp s' \<and> (extra_c s \<le> 0 \<longrightarrow> left s' < left s) \<or>
        ret = 0 \<and> inp s = [] \<and> inp s' = [] \<and> left s' = 0)))"
  using ReadC_ensures [of "buf ! i" s]
  by (auto simp: readInto_def elim!: ensures_mono)

lemma readInto_Cons:
  assumes "inp s = c # cs" and "i < length buf"
  obtains s' where "readInto E buf i s = returns (1, buf[i := c], s')"
    and "rds s s'" and "extra_c s' \<le> 0" and "inp s' = cs"
  using assms by (auto elim!: ReadC_Cons simp: readInto_def)

end

section \<open>Reading a token into a buffer\<close>

text \<open>
  Four loops of the parser have one shape: read the next byte into \<open>buf ! i\<close>, stop on a
  delimiter, otherwise go on while the read succeeded and \<open>i\<close> stays below a limit. They differ
  in the delimiter, the limit, the test of the return value (\<open>cont\<close>) and the locals they
  return (\<open>res\<close>). The lemmas about them are proved once.
\<close>

text \<open>The end of a token is determined by the first delimiter.\<close>

lemma token_end_unique:
  assumes "xs @ b # r = ys @ c # t" and "\<forall>x \<in> set xs. \<not> P x" and "\<forall>x \<in> set ys. \<not> P x"
    and "P b" and "P c"
  shows "xs = ys" "b = c" "r = t"
proof -
  have "takeWhile (\<lambda>x. \<not> P x) (xs @ b # r) = xs" "takeWhile (\<lambda>x. \<not> P x) (ys @ c # t) = ys"
    using assms(2-) by (simp_all add: takeWhile_append2)
  then have "xs = ys" using assms(1) by metis
  with assms(1) show "xs = ys" "b = c" "r = t" by auto
qed

lemma token_cut_unique:
  assumes "xs @ b # r = ys @ t" and "P b" and "\<forall>x \<in> set ys. \<not> P x"
  shows "ys = take (length ys) xs" "t = drop (length ys) xs @ b # r" "length ys \<le> length xs"
proof -
  show *: "length ys \<le> length xs"
  proof (rule ccontr)
    assume "\<not> length ys \<le> length xs"
    then have "(ys @ t) ! length xs \<in> set ys" by (simp add: nth_append)
    moreover have "(xs @ b # r) ! length xs = b" by simp
    ultimately show False using assms by metis
  qed
  have "take (length ys) (xs @ b # r) = ys" "drop (length ys) (xs @ b # r) = t"
    using assms(1) by simp_all
  with * show "ys = take (length ys) xs" "t = drop (length ys) xs @ b # r" by simp_all
qed

locale token_loop = byte_source E pending sent
  for E :: "'io env" and pending sent +
  fixes loop :: "string \<Rightarrow> nat \<Rightarrow> 'io http \<Rightarrow> 'r run"
    and stop :: "char \<Rightarrow> bool"
    and limit :: nat
    and cont :: "int \<Rightarrow> bool"
    and res :: "int \<Rightarrow> string \<Rightarrow> nat \<Rightarrow> 'io http \<Rightarrow> 'r"
  assumes loop_unfold: "i < limit \<Longrightarrow> loop buf i s =
      rbind (readInto E buf i s) (\<lambda>(ret, buf, s).
        if stop (buf ! i) then returns (res ret buf i s)
        else if cont ret \<and> i + 1 < limit then loop buf (i + 1) s
        else returns (res ret buf (i + 1) s))"
    and cont_1: "cont 1"
    and cont_0: "\<not> cont 0"
begin

definition token_post :: "'io http \<Rightarrow> string \<Rightarrow> 'r \<Rightarrow> bool" where
  "token_post s buf r \<longleftrightarrow> (\<exists>ret buf' i' s'. r = res ret buf' i' s' \<and> rds s s' \<and>
     extra_c s' \<le> 0 \<and> length buf' = length buf \<and> i' \<le> limit \<and>
     (ret = 1 \<or> ret = 0 \<and> inp s' = []))"

lemma token_postI:
  "rds s s' \<Longrightarrow> extra_c s' \<le> 0 \<Longrightarrow> length buf' = length buf \<Longrightarrow> i' \<le> limit \<Longrightarrow>
   ret = 1 \<or> ret = 0 \<and> inp s' = [] \<Longrightarrow> token_post s buf (res ret buf' i' s')"
  unfolding token_post_def by blast

lemma token_post_step:
  "rds s s' \<Longrightarrow> length buf' = length buf \<Longrightarrow> token_post s' buf' r \<Longrightarrow> token_post s buf r"
  unfolding token_post_def by (metis reads_trans)

lemma token_total:
  "i < limit \<Longrightarrow> limit < length buf \<Longrightarrow> ensures (loop buf i s) (token_post s buf)"
proof (induction "limit - i" arbitrary: i buf s rule: less_induct)
  case less
  have rec: "ensures (loop buf' (i + 1) s') (token_post s buf)"
    if "rds s s'" "length buf' = length buf" "i + 1 < limit" for buf' s'
  proof -
    from that(3) have "limit - (i + 1) < limit - i" by arith
    from less.hyps [OF this that(3), of buf' s'] that(2) less.prems(2)
    have "ensures (loop buf' (i + 1) s') (token_post s' buf')" by simp
    with that(1,2) show ?thesis by (auto elim!: ensures_mono intro: token_post_step)
  qed
  from less.prems have i: "i < length buf" by simp
  show ?case
    unfolding loop_unfold [OF less.prems(1)] ensures_simps
    by (rule ensures_mono [OF readInto_ensures [OF i]])
      (use less.prems(1) rec in \<open>auto intro!: token_postI simp del: Suc_eq_plus1 add_Suc_right\<close>)
qed

lemma token_exact:
  "inp s = tok @ b # rest \<Longrightarrow> \<forall>c \<in> set tok. \<not> stop c \<Longrightarrow> stop b \<Longrightarrow>
   i + length tok < limit \<Longrightarrow> limit \<le> length buf \<Longrightarrow>
   ensures (loop buf i s) (\<lambda>r. \<exists>s'. r = res 1 (splice buf i (tok @ [b])) (i + length tok) s' \<and>
     rds s s' \<and> extra_c s' \<le> 0 \<and> inp s' = rest)"
proof (induction tok arbitrary: i buf s)
  case Nil
  then have "inp s = b # rest" "i < length buf" by simp_all
  then obtain s' where s': "readInto E buf i s = returns (1, buf[i := b], s')" "rds s s'"
    "extra_c s' \<le> 0" "inp s' = rest"
    by (rule readInto_Cons)
  with Nil have "loop buf i s = returns (res 1 (buf[i := b]) i s')"
    by (simp add: loop_unfold)
  with Nil s' show ?case by (auto simp: splice_single)
next
  case (Cons c tok)
  then have "inp s = c # tok @ b # rest" "i < length buf" by simp_all
  then obtain s' where s': "readInto E buf i s = returns (1, buf[i := c], s')" "rds s s'"
    "extra_c s' \<le> 0" "inp s' = tok @ b # rest"
    by (rule readInto_Cons)
  have "ensures (loop (buf[i := c]) (i + 1) s') (\<lambda>r. \<exists>t.
      r = res 1 (splice (buf[i := c]) (i + 1) (tok @ [b])) (i + 1 + length tok) t \<and>
      rds s' t \<and> extra_c t \<le> 0 \<and> inp t = rest)"
    using Cons.IH [OF s'(4), of "i + 1" "buf[i := c]"] Cons.prems by simp
  then have "ensures (loop (buf[i := c]) (i + 1) s') (\<lambda>r. \<exists>t.
      r = res 1 (splice buf i ((c # tok) @ [b])) (i + length (c # tok)) t \<and>
      rds s t \<and> extra_c t \<le> 0 \<and> inp t = rest)"
    by (rule ensures_mono) (use Cons.prems s'(2) in \<open>auto simp: splice_update intro: reads_trans\<close>)
  with Cons.prems s' show ?case by (simp add: loop_unfold cont_1)
qed

lemma token_cut:
  "inp s = tok @ rest \<Longrightarrow> \<forall>c \<in> set tok. \<not> stop c \<Longrightarrow> tok \<noteq> [] \<Longrightarrow>
   i + length tok = limit \<Longrightarrow> limit \<le> length buf \<Longrightarrow>
   ensures (loop buf i s) (\<lambda>r. \<exists>s'. r = res 1 (splice buf i tok) limit s' \<and>
     rds s s' \<and> extra_c s' \<le> 0 \<and> inp s' = rest)"
proof (induction tok arbitrary: i buf s)
  case (Cons c tok)
  then have "inp s = c # tok @ rest" "i < length buf" by simp_all
  then obtain s' where s': "readInto E buf i s = returns (1, buf[i := c], s')" "rds s s'"
    "extra_c s' \<le> 0" "inp s' = tok @ rest"
    by (rule readInto_Cons)
  show ?case
  proof (cases "tok = []")
    case True
    with Cons.prems s' have "loop buf i s = returns (res 1 (buf[i := c]) limit s')"
      by (simp add: loop_unfold)
    with True Cons.prems s' show ?thesis by (auto simp: splice_single)
  next
    case False
    then have "ensures (loop (buf[i := c]) (i + 1) s') (\<lambda>r. \<exists>t.
        r = res 1 (splice (buf[i := c]) (i + 1) tok) limit t \<and>
        rds s' t \<and> extra_c t \<le> 0 \<and> inp t = rest)"
      using Cons.IH [OF s'(4), of "i + 1" "buf[i := c]"] Cons.prems by simp
    then have "ensures (loop (buf[i := c]) (i + 1) s') (\<lambda>r. \<exists>t.
        r = res 1 (splice buf i (c # tok)) limit t \<and>
        rds s t \<and> extra_c t \<le> 0 \<and> inp t = rest)"
      by (rule ensures_mono) (use Cons.prems s'(2) in \<open>auto simp: splice_update intro: reads_trans\<close>)
    with Cons.prems False s' show ?thesis by (cases tok) (auto simp: loop_unfold cont_1)
  qed
qed simp

end

section \<open>A full channel\<close>

locale byte_channel = byte_source E pending sent
  for E :: "'io env" and pending sent +
  assumes setByte_sends: "\<exists>i'. setByte E h c i = returns (1, i') \<and>
      sent h i' = sent h i @ [c] \<and> (\<forall>g. pending g i' = pending g i)"
    and checkAuth_channel: "ensures (checkAuth E a cred i)
      (\<lambda>(r, i'). (\<forall>g. pending g i' = pending g i) \<and> (\<forall>g. sent g i' = sent g i))"

end
