(* ===== verification/RequestLine.thy ===== *)
theory RequestLine
  imports ByteChannel
begin

text \<open>
  The parsers of the first line of a request in \<^verbatim>\<open>src/src/attohttp.c\<close>:
  \<^verbatim>\<open>_attoHTTPParseSpace\<close>, \<^verbatim>\<open>_attoHTTPParseEOL\<close>, \<^verbatim>\<open>_attoHTTPParseMethod\<close>,
  \<^verbatim>\<open>_attoHTTPParseURL\<close> and \<^verbatim>\<open>_attoHTTPParseVersion\<close>. Each loop is a function of its own, with
  the local variables it changes as arguments; an array local is the list of its bytes, and a
  pointer that walks through it is an index.
\<close>

section \<open>Definitions\<close>

partial_function (option) attoHTTPParseSpace_loop ::
    "'io env \<Rightarrow> char \<Rightarrow> 'io http \<Rightarrow> (int \<times> char \<times> 'io http) run" where
  [code]: "attoHTTPParseSpace_loop E c s =
     rbind (attoHTTPReadC E c s) (\<lambda>(ret, c, s).
       if isblank c \<and> ret > 0 then attoHTTPParseSpace_loop E c s
       else returns (ret, c, s))"

definition attoHTTPParseSpace :: "'io env \<Rightarrow> 'io http \<Rightarrow> (int \<times> 'io http) run" where
  "attoHTTPParseSpace E s =
     rbind (attoHTTPParseSpace_loop E (junk E ParseSpace_c 0 (io s)) s) (\<lambda>(ret, c, s).
       returns (ret, attoHTTPPushC c s))"

text \<open>
  In \<^verbatim>\<open>_attoHTTPParseEOL\<close> the local \<^verbatim>\<open>ret\<close> is unsigned, so an error return of the transport
  becomes 255 there.
\<close>

partial_function (option) attoHTTPParseEOL_loop ::
    "'io env \<Rightarrow> char \<Rightarrow> nat \<Rightarrow> 'io http \<Rightarrow> (int \<times> char \<times> nat \<times> 'io http) run" where
  [code]: "attoHTTPParseEOL_loop E c eolCount s =
     rbind (attoHTTPReadC E c s) (\<lambda>(r, c, s).
       let ret = uint8 r;
           eolCount = (if c = LF then eolCount + 1 else eolCount)
       in if (isspace c \<or> eolCount = 0) \<and> ret > 0 \<and> eolCount < 2
          then attoHTTPParseEOL_loop E c eolCount s
          else returns (ret, c, eolCount, s))"

definition attoHTTPParseEOL :: "'io env \<Rightarrow> 'io http \<Rightarrow> (int \<times> 'io http) run" where
  "attoHTTPParseEOL E s =
     rbind (attoHTTPParseEOL_loop E (junk E ParseEOL_c 0 (io s)) 0 s) (\<lambda>(ret, c, eolCount, s).
       let s = attoHTTPPushC c s;
           s = (if eolCount > 1 then s\<lparr>headersDone := True\<rparr> else s)
       in returns (int8 ret, s))"

text \<open>\<^verbatim>\<open>sizeof(buffer)\<close> of the method and version parsers.\<close>

definition token_buffer_size :: nat where [simp]: "token_buffer_size = 10"

partial_function (option) attoHTTPParseMethod_loop ::
    "'io env \<Rightarrow> string \<Rightarrow> nat \<Rightarrow> 'io http \<Rightarrow> (int \<times> string \<times> nat \<times> 'io http) run" where
  [code]: "attoHTTPParseMethod_loop E buffer ptr s =
     rbind (readInto E buffer ptr s) (\<lambda>(ret, buffer, s).
       if isblank (buffer ! ptr) then returns (ret, buffer, ptr, s)
       else if ret > 0 \<and> ptr + 1 < token_buffer_size - 1
            then attoHTTPParseMethod_loop E buffer (ptr + 1) s
            else returns (ret, buffer, ptr + 1, s))"

definition method_of_buffer :: "string \<Rightarrow> httpmethod option run" where
  "method_of_buffer buffer =
     (let n = token_buffer_size in
      rbind (strncmp (cstr HTTP_METHOD_GET) buffer n) (\<lambda>r. if r = 0 then returns (Some METHOD_GET) else
      rbind (strncmp (cstr HTTP_METHOD_POST) buffer n) (\<lambda>r. if r = 0 then returns (Some METHOD_POST) else
      rbind (strncmp (cstr HTTP_METHOD_PUT) buffer n) (\<lambda>r. if r = 0 then returns (Some METHOD_PUT) else
      rbind (strncmp (cstr HTTP_METHOD_DELETE) buffer n) (\<lambda>r. if r = 0 then returns (Some METHOD_DELETE) else
      rbind (strncmp (cstr HTTP_METHOD_PATCH) buffer n) (\<lambda>r. if r = 0 then returns (Some METHOD_PATCH)
        else returns None))))))"

definition attoHTTPParseMethod :: "'io env \<Rightarrow> 'io http \<Rightarrow> (int \<times> 'io http) run" where
  "attoHTTPParseMethod E s =
     rbind (attoHTTPParseSpace E s) (\<lambda>(ret, s).
       if ret > 0 then
         rbind (attoHTTPParseMethod_loop E (uninit E ParseMethod_buffer token_buffer_size s) 0 s)
           (\<lambda>(ret, buffer, ptr, s).
         rbind (store buffer ptr NUL) (\<lambda>buffer.
         rbind (method_of_buffer buffer) (\<lambda>m.
         returns (ret, case m of Some m \<Rightarrow> s\<lparr>http_method := m\<rparr>
                               | None \<Rightarrow> s\<lparr>returnCode := STATUS_UNSUPPORTED\<rparr>))))
       else returns (ret, s\<lparr>returnCode := STATUS_INTERNAL_ERROR\<rparr>))"

partial_function (option) attoHTTPParseURL_loop ::
    "'io env \<Rightarrow> 'io http \<Rightarrow> (int \<times> 'io http) run" where
  [code]: "attoHTTPParseURL_loop E s =
     rbind (readInto E (url s) (url_len s) s) (\<lambda>(ret, buf, s).
       let s = s\<lparr>url := buf\<rparr> in
       if isblank (url s ! url_len s) then returns (ret, s)
       else
         let s = (if url s ! url_len s = CHR ''?'' then
                    s\<lparr>url := (url s)[url_len s := NUL],
                      url_params := Some (url_len s + 1),
                      url_params_start := of_nat (url_len s + 1)\<rparr>
                  else s);
             s = s\<lparr>url_len := url_len s + 1\<rparr>
         in if ret \<noteq> 0 \<and> url_len s < ATTOHTTP_URL_BUFFER_SIZE - 1
            then attoHTTPParseURL_loop E s
            else returns (ret, s))"

partial_function (option) attoHTTPParseURL_skip ::
    "'io env \<Rightarrow> int \<Rightarrow> char \<Rightarrow> 'io http \<Rightarrow> (int \<times> char \<times> 'io http) run" where
  [code]: "attoHTTPParseURL_skip E ret c s =
     (if ret \<noteq> 0 \<and> \<not> isblank c
      then rbind (attoHTTPReadC E c s) (\<lambda>(ret, c, s). attoHTTPParseURL_skip E ret c s)
      else returns (ret, c, s))"

definition attoHTTPParseURL :: "'io env \<Rightarrow> 'io http \<Rightarrow> (int \<times> 'io http) run" where
  "attoHTTPParseURL E s =
     rbind (attoHTTPParseSpace E s) (\<lambda>(ret, s).
       if ret > 0 then
         rbind (attoHTTPParseURL_loop E (s\<lparr>url_len := 0\<rparr>)) (\<lambda>(ret, s).
         rbind (load (url s) (url_len s)) (\<lambda>c.
         rbind (attoHTTPParseURL_skip E ret c s) (\<lambda>(ret, c, s).
         let s = attoHTTPPushC c s in
         rbind (store (url s) (url_len s) NUL) (\<lambda>u.
         returns (ret, s\<lparr>url := u\<rparr>)))))
       else returns (ret, s))"

partial_function (option) attoHTTPParseVersion_loop ::
    "'io env \<Rightarrow> string \<Rightarrow> nat \<Rightarrow> 'io http \<Rightarrow> (int \<times> string \<times> nat \<times> 'io http) run" where
  [code]: "attoHTTPParseVersion_loop E buffer ptr s =
     rbind (readInto E buffer ptr s) (\<lambda>(ret, buffer, s).
       if isspace (buffer ! ptr) then returns (ret, buffer, ptr, s)
       else if ret \<noteq> 0 \<and> ptr + 1 < token_buffer_size - 1
            then attoHTTPParseVersion_loop E buffer (ptr + 1) s
            else returns (ret, buffer, ptr + 1, s))"

definition version_of_buffer :: "string \<Rightarrow> nat \<Rightarrow> httpversion run" where
  "version_of_buffer buffer ptr =
     rbind (strncmp (cstr HTTP_VERSION_1_0) buffer ptr) (\<lambda>r.
       if r = 0 then returns V1_0 else
     rbind (strncmp (cstr HTTP_VERSION_1_1) buffer ptr) (\<lambda>r.
       if r = 0 then returns V1_1 else returns VUNKNOWN))"

definition attoHTTPParseVersion :: "'io env \<Rightarrow> 'io http \<Rightarrow> (int \<times> 'io http) run" where
  "attoHTTPParseVersion E s =
     rbind (attoHTTPParseSpace E s) (\<lambda>(ret, s).
     rbind (if ret > 0 then
              rbind (attoHTTPParseVersion_loop E
                       (uninit E ParseVersion_buffer token_buffer_size s) 0 s)
                (\<lambda>(ret, buffer, ptr, s).
              rbind (load buffer ptr) (\<lambda>c.
              let s = attoHTTPPushC c s in
              rbind (store buffer ptr NUL) (\<lambda>buffer.
              rbind (version_of_buffer buffer ptr) (\<lambda>v. returns (s\<lparr>version := v\<rparr>)))))
            else returns s) (\<lambda>s.
     attoHTTPParseEOL E s))"

section \<open>White space and line ends\<close>

text \<open>
  What \<^verbatim>\<open>_attoHTTPParseEOL\<close> looks for in the input, as a function of the input alone: the
  character it stops at, the number of line feeds seen and the rest; \<open>None\<close> when the input
  ends first.
\<close>

fun eol_scan :: "nat \<Rightarrow> string \<Rightarrow> (char \<times> nat \<times> string) option" where
  "eol_scan n [] = None"
| "eol_scan n (c # cs) =
     (let n' = (if c = LF then n + 1 else n)
      in if (isspace c \<or> n' = 0) \<and> n' < 2 then eol_scan n' cs else Some (c, n', cs))"

lemma eol_scan_length: "eol_scan n cs = Some (c, m, rest) \<Longrightarrow> length rest < length cs"
  by (induction n cs rule: eol_scan.induct) (auto simp: Let_def split: if_splits)

lemma eol_scan_length_0: "eol_scan 0 cs = Some (c, m, rest) \<Longrightarrow> length rest + 2 \<le> length cs"
proof (induction "0::nat" cs rule: eol_scan.induct)
  case (2 c' cs)
  then show ?case
    by (cases "c' = LF") (auto simp: Let_def split: if_splits dest: eol_scan_length)
qed simp

lemma eol_scan_line:
  "LF \<notin> set x \<Longrightarrow> eol_scan 0 (x @ LF # cs) = eol_scan (Suc 0) cs"
  by (induction x) auto

lemma eol_scan_Suc_0:
  "eol_scan (Suc 0) (LF # cs) = Some (LF, 2, cs)"
  "eol_scan (Suc 0) (CR # cs) = eol_scan (Suc 0) cs"
  "\<not> isspace c \<Longrightarrow> eol_scan (Suc 0) (c # cs) = Some (c, 1, cs)"
  by (auto simp: numeral_2_eq_2)

context byte_source
begin

lemma ParseSpace_loop_ensures:
  "ensures (attoHTTPParseSpace_loop E c s) (\<lambda>(ret, c', s'). rds s s' \<and> extra_c s' \<le> 0 \<and>
     (ret = 1 \<and> dropWhile isblank (inp s) = c' # inp s' \<or>
      ret = 0 \<and> dropWhile isblank (inp s) = [] \<and> inp s' = []))"
proof (induction "inp s" arbitrary: c s)
  case Nil
  from Nil [symmetric] show ?case
    by (rule ReadC_Nil) (simp add: attoHTTPParseSpace_loop.simps [of E c s] Nil [symmetric])
next
  case (Cons b bs)
  from Cons.hyps(2) [symmetric] obtain s' where s': "\<And>c0. attoHTTPReadC E c0 s = returns (1, b, s')"
    "rds s s'" "extra_c s' \<le> 0" "inp s' = bs"
    by (rule ReadC_Cons) blast
  show ?case
  proof (cases "isblank b")
    case True
    with s' Cons.hyps(1) [of s' b] Cons.hyps(2) [symmetric] show ?thesis
      by (auto simp: attoHTTPParseSpace_loop.simps [of E c s]
          elim!: ensures_mono intro: reads_trans)
  next
    case False
    with s' Cons.hyps(2) [symmetric] show ?thesis
      by (simp add: attoHTTPParseSpace_loop.simps [of E c s])
  qed
qed

lemma ParseSpace_ensures:
  "ensures (attoHTTPParseSpace E s) (\<lambda>(ret, s'). rds s s' \<and>
     (case dropWhile isblank (inp s) of
        c # r \<Rightarrow> ret = 1 \<and> inp s' = (if c = NUL then r else c # r)
      | [] \<Rightarrow> ret = 0 \<and> unread pending s' = []))"
  unfolding attoHTTPParseSpace_def ensures_simps
  by (rule ensures_mono [OF ParseSpace_loop_ensures])
    (auto simp: input_of_pushC input_of_Nil intro: reads_pushC_right
      simp del: dropWhile_eq_Nil_conv)

lemma ParseSpace_Cons:
  assumes "dropWhile isblank (inp s) = c # r" and "c \<noteq> NUL"
  shows "ensures (attoHTTPParseSpace E s) (\<lambda>(ret, s'). ret = 1 \<and> rds s s' \<and> inp s' = c # r)"
  by (rule ensures_mono [OF ParseSpace_ensures]) (use assms in auto)

lemma ParseEOL_loop_ensures:
  "ensures (attoHTTPParseEOL_loop E c n s) (\<lambda>(ret, c', n', s'). rds s s' \<and> extra_c s' \<le> 0 \<and>
     (ret = 1 \<and> eol_scan n (inp s) = Some (c', n', inp s') \<or>
      ret = 0 \<and> eol_scan n (inp s) = None \<and> inp s' = []))"
proof (induction "inp s" arbitrary: c n s)
  case Nil
  from Nil [symmetric] show ?case
    by (rule ReadC_Nil)
      (simp add: attoHTTPParseEOL_loop.simps [of E c n s] Nil [symmetric] Let_def)
next
  case (Cons b bs)
  from Cons.hyps(2) [symmetric] obtain s' where s': "\<And>c0. attoHTTPReadC E c0 s = returns (1, b, s')"
    "rds s s'" "extra_c s' \<le> 0" "inp s' = bs"
    by (rule ReadC_Cons) blast
  let ?n = "if b = LF then n + 1 else n"
  have unf: "attoHTTPParseEOL_loop E c n s =
      (if (isspace b \<or> ?n = 0) \<and> ?n < 2 then attoHTTPParseEOL_loop E b ?n s'
       else returns (1, b, ?n, s'))"
    by (simp add: attoHTTPParseEOL_loop.simps [of E c n s] s'(1) Let_def)
  have scan: "eol_scan n (inp s) = (if (isspace b \<or> ?n = 0) \<and> ?n < 2
      then eol_scan ?n (inp s') else Some (b, ?n, inp s'))"
    by (simp only: Cons.hyps(2) [symmetric] s'(4) eol_scan.simps Let_def)
  show ?case
  proof (cases "(isspace b \<or> ?n = 0) \<and> ?n < 2")
    case True
    have "ensures (attoHTTPParseEOL_loop E b ?n s') (\<lambda>(ret, c', n', t). rds s' t \<and> extra_c t \<le> 0 \<and>
       (ret = 1 \<and> eol_scan ?n (inp s') = Some (c', n', inp t) \<or>
        ret = 0 \<and> eol_scan ?n (inp s') = None \<and> inp t = []))"
      by (rule Cons.hyps(1)) (simp add: s'(4))
    then show ?thesis
      unfolding unf scan if_P [OF True]
      by (rule ensures_mono) (use s'(2) in \<open>auto intro: reads_trans\<close>)
  next
    case False
    show ?thesis
      unfolding unf scan if_not_P [OF False] using s' by simp
  qed
qed

text \<open>
  What a call of \<^verbatim>\<open>_attoHTTPParseEOL\<close> does: a return value of 1 means that the transport
  delivered at least one more byte, which is what makes the header loop end.
\<close>

lemma ParseEOL_ensures:
  "ensures (attoHTTPParseEOL E s) (\<lambda>(ret, s'). rds (s\<lparr>headersDone := headersDone s'\<rparr>) s' \<and>
     (case eol_scan 0 (inp s) of
        Some (c, n, r) \<Rightarrow> ret = 1 \<and> inp s' = (if c = NUL then r else c # r) \<and>
          left s' < left s \<and> headersDone s' = (headersDone s \<or> n > 1)
      | None \<Rightarrow> ret = 0 \<and> unread pending s' = []))"
proof -
  have len: "length (inp s) \<le> Suc (left s)"
    by (simp add: input_of_unread)
  have post: "length (unread pending s1) < left s"
    if "eol_scan 0 (inp s) = Some (c, n, inp s1)" "extra_c s1 \<le> 0" for c n s1
    using eol_scan_length_0 [OF that(1)] len that(2) by (simp add: input_of_unread)
  obtain r c n s1 where loop: "attoHTTPParseEOL_loop E (junk E ParseEOL_c 0 (io s)) 0 s
      = returns (r, c, n, s1)"
    and s1: "rds s s1" "extra_c s1 \<le> 0"
      "r = 1 \<and> eol_scan 0 (inp s) = Some (c, n, inp s1) \<or>
       r = 0 \<and> eol_scan 0 (inp s) = None \<and> inp s1 = []"
    using ParseEOL_loop_ensures [of "junk E ParseEOL_c 0 (io s)" 0 s] by (auto elim!: ensuresE)
  have hd: "headersDone s1 = headersDone s"
    by (rule reads_fields(9) [OF s1(1)])
  have "rds (s\<lparr>headersDone := True\<rparr>) (attoHTTPPushC c s1\<lparr>headersDone := True\<rparr>)"
    "rds s (attoHTTPPushC c s1)"
    by (intro reads_updates reads_pushC_right s1(1))+
  with s1(2,3) post show ?thesis
    by (auto simp: attoHTTPParseEOL_def loop hd input_of_pushC input_of_Nil Let_def)
qed

end

section \<open>The method\<close>

sublocale byte_source \<subseteq> mtok: token_loop E pending sent "attoHTTPParseMethod_loop E" isblank
    "token_buffer_size - 1" "\<lambda>r. r > 0" "\<lambda>ret b i s. (ret, b, i, s)"
  by unfold_locales (subst attoHTTPParseMethod_loop.simps, rule refl, simp_all)

text \<open>The method a token names, as the protocol has it.\<close>

definition method_of_token :: "string \<Rightarrow> httpmethod option" where
  "method_of_token t =
     (if t = ''GET'' then Some METHOD_GET else if t = ''POST'' then Some METHOD_POST
      else if t = ''PUT'' then Some METHOD_PUT else if t = ''DELETE'' then Some METHOD_DELETE
      else if t = ''PATCH'' then Some METHOD_PATCH else None)"

lemma strncmp_literal:
  assumes "NUL \<notin> set x" and "length x < n" and "terminated b" and "length b \<le> n"
  shows "ensures (strncmp (cstr x) b n) (\<lambda>r. r = 0 \<longleftrightarrow> strz b = x)"
proof -
  have "length (strz b) < n"
    using length_strz_terminated [OF assms(3)] assms(4) by simp
  with assms strncmp_spec [of "cstr x" n b] show ?thesis
    by (auto elim!: ensures_mono)
qed

text \<open>A comparison with a literal that decides a branch.\<close>

lemma strncmp_branch:
  assumes "NUL \<notin> set x" and "length x < n" and "terminated b" and "length b \<le> n"
  shows "rbind (strncmp (cstr x) b n) (\<lambda>r. if r = 0 then f else g) = (if strz b = x then f else g)"
proof -
  from strncmp_literal [OF assms] obtain r where "strncmp (cstr x) b n = returns r"
    "r = 0 \<longleftrightarrow> strz b = x"
    by (rule ensuresE)
  then show ?thesis by simp
qed

lemma method_of_buffer_spec:
  assumes "terminated b" and "length b = 10"
  shows "method_of_buffer b = returns (method_of_token (strz b))"
proof -
  have *: "rbind (strncmp (cstr x) b 10) (\<lambda>r. if r = 0 then f else g) = (if strz b = x then f else g)"
    if "NUL \<notin> set x" "length x < 10" for x and f g :: "httpmethod option run"
    using that assms by (intro strncmp_branch) simp_all
  show ?thesis
    unfolding method_of_buffer_def Let_def token_buffer_size_def method_of_token_def HTTP_METHOD_GET_def
      HTTP_METHOD_POST_def HTTP_METHOD_PUT_def HTTP_METHOD_DELETE_def HTTP_METHOD_PATCH_def
    by (simp add: *)
qed

context byte_source
begin

lemma reads_method_result:
  assumes "rds s t"
  shows "rds (s\<lparr>http_method := m, returnCode := returnCode t\<rparr>) (t\<lparr>http_method := m\<rparr>)"
    and "rds (s\<lparr>http_method := http_method t, returnCode := rc\<rparr>) (t\<lparr>returnCode := rc\<rparr>)"
proof -
  have "rds (s\<lparr>http_method := m\<rparr>) (t\<lparr>http_method := m\<rparr>)" "rds (s\<lparr>returnCode := rc\<rparr>) (t\<lparr>returnCode := rc\<rparr>)"
    and eq: "returnCode t = returnCode s" "http_method t = http_method s"
    using assms by (simp_all add: reads_updates reads_fields)
  then show "rds (s\<lparr>http_method := m, returnCode := returnCode t\<rparr>) (t\<lparr>http_method := m\<rparr>)"
    "rds (s\<lparr>http_method := http_method t, returnCode := rc\<rparr>) (t\<lparr>returnCode := rc\<rparr>)"
    unfolding eq by simp_all
qed

lemma ParseMethod_total:
  "ensures (attoHTTPParseMethod E s) (\<lambda>(ret, s').
     rds (s\<lparr>http_method := http_method s', returnCode := returnCode s'\<rparr>) s' \<and> (ret = 1 \<or> ret = 0))"
proof -
  obtain ret s1 where sp: "attoHTTPParseSpace E s = returns (ret, s1)"
    and s1: "rds s s1" "ret = 1 \<or> ret = 0"
    using ParseSpace_ensures [of s]
    by (cases "dropWhile isblank (inp s)") (auto elim!: ensuresE simp del: dropWhile_eq_Nil_conv)
  from s1(2) show ?thesis
  proof
    assume r: "ret = 1"
    let ?b = "uninit E ParseMethod_buffer 10 s1"
    have "ensures (attoHTTPParseMethod_loop E ?b 0 s1) (mtok.token_post s1 ?b)"
      by (rule mtok.token_total) simp_all
    then obtain rt b i s2 where loop: "attoHTTPParseMethod_loop E ?b 0 s1 = returns (rt, b, i, s2)"
      and s2: "rds s1 s2" "length b = 10" "i \<le> 9" "rt = 1 \<or> rt = 0"
      by (auto elim!: ensuresE simp: mtok.token_post_def [simplified])
    have "terminated (b[i := NUL])"
      using s2(2,3) by (auto simp: terminated_def intro: set_update_memI)
    then have mb: "method_of_buffer (b[i := NUL]) = returns (method_of_token (strz (b[i := NUL])))"
      using s2(2) by (simp add: method_of_buffer_spec)
    have "rds s s2" by (rule reads_trans [OF s1(1) s2(1)])
    with s2 show ?thesis
      by (auto simp: attoHTTPParseMethod_def sp r loop mb reads_method_result split: option.split)
  next
    assume "ret = 0"
    then show ?thesis
      using s1(1) by (simp add: attoHTTPParseMethod_def sp reads_method_result)
  qed
qed

text \<open>
  A method token of at most eight characters, after any blanks and before a blank: the method
  is the one it names, otherwise the request is answered with 501, and the blank after the
  token is consumed.
\<close>

lemma ParseMethod_token:
  assumes inp: "inp s = bl @ tok @ b # rest"
    and bl: "\<forall>c \<in> set bl. isblank c" and b: "isblank b"
    and tok: "\<forall>c \<in> set tok. \<not> isblank c" "NUL \<notin> set tok" "tok \<noteq> []" "length tok \<le> 8"
  shows "ensures (attoHTTPParseMethod E s) (\<lambda>(ret, s'). ret = 1 \<and> inp s' = rest \<and>
    rds (case method_of_token tok of Some m \<Rightarrow> s\<lparr>http_method := m\<rparr>
         | None \<Rightarrow> s\<lparr>returnCode := STATUS_UNSUPPORTED\<rparr>) s')"
proof -
  obtain c t where ct: "tok = c # t" using tok(3) by (cases tok) auto
  have dw: "dropWhile isblank (inp s) = c # (t @ b # rest)"
    using inp bl tok(1) ct by (auto simp: dropWhile_append2)
  have "c \<noteq> NUL" using tok(2) ct by auto
  from ParseSpace_Cons [OF dw this] obtain s1 where sp: "attoHTTPParseSpace E s = returns (1, s1)"
    and s1: "rds s s1" "inp s1 = tok @ b # rest"
    by (auto elim!: ensuresE simp: ct)
  from mtok.token_exact [OF s1(2) tok(1) b, of 0 "uninit E ParseMethod_buffer 10 s1"] tok(4)
  obtain s2 where loop: "attoHTTPParseMethod_loop E (uninit E ParseMethod_buffer 10 s1) 0 s1
      = returns (1, splice (uninit E ParseMethod_buffer 10 s1) 0 (tok @ [b]), length tok, s2)"
    and s2: "rds s1 s2" "inp s2 = rest"
    by (auto elim!: ensuresE)
  let ?buf = "splice (uninit E ParseMethod_buffer 10 s1) 0 (tok @ [NUL])"
  have st: "store (splice (uninit E ParseMethod_buffer 10 s1) 0 (tok @ [b])) (length tok) NUL
      = returns ?buf"
    using splice_update_end [of 0 tok "uninit E ParseMethod_buffer 10 s1" b NUL] tok(4)
    by simp
  have z: "strz ?buf = tok" and "terminated ?buf" and "length ?buf = 10"
    using tok(2,4) by (auto simp: splice_def)
  then have mb: "method_of_buffer ?buf = returns (method_of_token tok)"
    by (simp add: method_of_buffer_spec)
  have "rds s s2" by (rule reads_trans [OF s1(1) s2(1)])
  then show ?thesis
    by (auto simp: attoHTTPParseMethod_def sp loop st mb s2(2) reads_updates split: option.split)
qed

text \<open>An unknown method of any length: of a long one the buffer keeps nine characters.\<close>

lemma ParseMethod_unknown:
  assumes inp: "inp s = tok @ SP # rest" and m: "method_of_token tok = None"
    and tok: "\<forall>c \<in> set tok. \<not> isblank c" "NUL \<notin> set tok" "tok \<noteq> []"
  shows "ensures (attoHTTPParseMethod E s) (\<lambda>(ret, s'). rds (s\<lparr>returnCode := STATUS_UNSUPPORTED\<rparr>) s')"
proof (cases "length tok \<le> 8")
  case True
  have "inp s = [] @ tok @ SP # rest" using inp by simp
  from ParseMethod_token [OF this _ _ tok True] m show ?thesis by (auto simp: isblank_def elim!: ensures_mono)
next
  case False
  define t9 where "t9 = take 9 tok"
  have t9: "length t9 = 9" "\<forall>c \<in> set t9. \<not> isblank c" "NUL \<notin> set t9" "tok @ SP # rest = t9 @ drop 9 tok @ SP # rest"
    using False tok(1,2) by (auto simp: t9_def dest: in_set_takeD)
  obtain c t where ct: "tok = c # t" "c \<noteq> NUL" using tok(2,3) by (cases tok) auto
  then have dw: "dropWhile isblank (inp s) = c # (t @ SP # rest)" using inp tok(1) by simp
  from ParseSpace_Cons [OF this ct(2)] obtain s1 where sp: "attoHTTPParseSpace E s = returns (1, s1)"
    and s1: "rds s s1" "inp s1 = t9 @ drop 9 tok @ SP # rest"
    using t9(4) by (auto elim!: ensuresE simp: ct(1))
  have "t9 \<noteq> []" using t9(1) by auto
  from mtok.token_cut [OF s1(2) t9(2) this, of 0 "uninit E ParseMethod_buffer 10 s1"] t9(1)
  obtain s2 where loop: "attoHTTPParseMethod_loop E (uninit E ParseMethod_buffer 10 s1) 0 s1
      = returns (1, splice (uninit E ParseMethod_buffer 10 s1) 0 t9, 9, s2)" and s2: "rds s1 s2"
    by (auto elim!: ensuresE)
  let ?buf = "(splice (uninit E ParseMethod_buffer 10 s1) 0 t9)[9 := NUL]"
  have "length (drop 9 (uninit E ParseMethod_buffer 10 s1)) = Suc 0" by simp
  then obtain x where "drop 9 (uninit E ParseMethod_buffer 10 s1) = [x]"
    unfolding length_Suc_conv length_0_conv by blast
  then have buf: "?buf = t9 @ [NUL]" using t9(1) by (simp add: splice_def list_update_append)
  have "method_of_buffer ?buf = returns (method_of_token t9)"
    using method_of_buffer_spec [of "t9 @ [NUL]"] t9(1,3) by (simp add: buf terminated_def)
  moreover have "length x \<le> 8" if "method_of_token x = Some mm" for x mm
    using that by (auto simp: method_of_token_def split: if_splits)
  then have "method_of_token t9 = None" using t9(1) by (cases "method_of_token t9") fastforce+
  moreover have "rds s s2" by (rule reads_trans [OF s1(1) s2])
  ultimately show ?thesis
    using t9(1) by (auto simp: attoHTTPParseMethod_def sp loop reads_updates)
qed

end

section \<open>The URL\<close>

text \<open>What the loop of \<^verbatim>\<open>_attoHTTPParseURL\<close> does with a character of the URL.\<close>

definition url_put :: "char \<Rightarrow> 'io http \<Rightarrow> 'io http" where
  "url_put c s =
     (let n = url_len s in
      if c = CHR ''?'' then s\<lparr>url := (url s)[n := NUL], url_params := Some (n + 1),
        url_params_start := of_nat (n + 1), url_len := n + 1\<rparr>
      else s\<lparr>url := (url s)[n := c], url_len := n + 1\<rparr>)"

lemma url_put_fields [simp]:
  "url_len (url_put c s) = url_len s + 1"
  "length (url (url_put c s)) = length (url s)"
  "url (url_put c s) = (url s)[url_len s := (if c = CHR ''?'' then NUL else c)]"
  "input_of p (url_put c s) = input_of p s" "unread p (url_put c s) = unread p s"
  "extra_c (url_put c s) = extra_c s" "io (url_put c s) = io s"
  "returnCode (url_put c s) = returnCode s" "http_method (url_put c s) = http_method s"
  by (simp_all add: url_put_def Let_def)

lemma reads_url_put:
  assumes "reads p w s t"
  shows "reads p w (url_put c s) (url_put c t)"
proof -
  have "url t = url s" "url_len t = url_len s"
    using assms by (simp_all add: reads_fields)
  then show ?thesis
    by (auto simp: url_put_def Let_def intro!: reads_updates assms)
qed

lemma ReadC_io_frame: "attoHTTPReadC E c s = returns (r, c', s') \<Longrightarrow> io_frame s s'"
  by (auto simp: attoHTTPReadC_def rbind_eq_returns split: if_splits prod.splits)

lemma ParseURL_loop_unfold:
  assumes "url_len s < length (url s)"
  shows "attoHTTPParseURL_loop E s =
    rbind (attoHTTPReadC E (url s ! url_len s) s) (\<lambda>(ret, c, s).
      if isblank c then returns (ret, s\<lparr>url := (url s)[url_len s := c]\<rparr>)
      else if ret \<noteq> 0 \<and> url_len s + 1 < 63 then attoHTTPParseURL_loop E (url_put c s)
      else returns (ret, url_put c s))"
proof (cases "attoHTTPReadC E (url s ! url_len s) s" rule: run_cases)
  case (result x)
  obtain ret c s' where x: "x = (ret, c, s')" by (cases x)
  have "url s' = url s" "url_len s' = url_len s"
    using io_frame_fields [OF ReadC_io_frame] result x by simp_all
  with assms result show ?thesis
    by (simp add: attoHTTPParseURL_loop.simps [of E s] readInto_def x Let_def url_put_def)
qed (use assms in \<open>simp_all add: attoHTTPParseURL_loop.simps [of E s] readInto_def\<close>)

text \<open>The URL buffer and its bookkeeping are all that changes.\<close>

definition url_frame :: "'io http \<Rightarrow> 'io http \<Rightarrow> bool" where
  "url_frame s s' \<longleftrightarrow> s' = s\<lparr>url := url s', url_len := url_len s', url_params := url_params s',
     url_params_start := url_params_start s'\<rparr>"

lemma url_frame_refl [simp]: "url_frame s s"
  by (simp add: url_frame_def)

lemma url_frame_trans: "url_frame s t \<Longrightarrow> url_frame t u \<Longrightarrow> url_frame s u"
  unfolding url_frame_def by (cases s; cases t; cases u) simp

lemma url_frame_put [simp]: "url_frame s (url_put c s)"
  by (simp add: url_frame_def url_put_def Let_def)

lemma url_frame_fold: "url_frame s (fold url_put cs s)"
  by (induction cs arbitrary: s) (auto intro: url_frame_trans [OF url_frame_put])

lemma url_frame_buffer: "url_frame s t \<Longrightarrow> url_frame s (t\<lparr>url := u\<rparr>)"
  unfolding url_frame_def by (cases s; cases t) simp

text \<open>Where the parameters start: after the last question mark.\<close>

fun query_at :: "nat \<Rightarrow> nat option \<Rightarrow> string \<Rightarrow> nat option" where
  "query_at n q [] = q"
| "query_at n q (c # cs) = query_at (n + 1) (if c = CHR ''?'' then Some (n + 1) else q) cs"

definition url_byte :: "char \<Rightarrow> char" where
  "url_byte c = (if c = CHR ''?'' then NUL else c)"

lemma fold_url_put:
  assumes "url_len s + length cs \<le> length (url s)"
  shows "url_len (fold url_put cs s) = url_len s + length cs"
    and "url (fold url_put cs s) = splice (url s) (url_len s) (map url_byte cs)"
    and "url_params (fold url_put cs s) = query_at (url_len s) (url_params s) cs"
    and "input_of p (fold url_put cs s) = input_of p s"
proof -
  have "url_len (fold url_put cs s) = url_len s + length cs \<and>
    url (fold url_put cs s) = splice (url s) (url_len s) (map url_byte cs) \<and>
    url_params (fold url_put cs s) = query_at (url_len s) (url_params s) cs \<and>
    input_of p (fold url_put cs s) = input_of p s"
    using assms
  proof (induction cs arbitrary: s)
    case (Cons c cs)
    have "url_params (url_put c s) = (if c = CHR ''?'' then Some (url_len s + 1) else url_params s)"
      by (simp add: url_put_def Let_def)
    with Cons show ?case by (simp add: splice_update url_byte_def)
  qed simp
  then show "url_len (fold url_put cs s) = url_len s + length cs"
    "url (fold url_put cs s) = splice (url s) (url_len s) (map url_byte cs)"
    "url_params (fold url_put cs s) = query_at (url_len s) (url_params s) cs"
    "input_of p (fold url_put cs s) = input_of p s" by simp_all
qed

lemma params_ok_reads: "reads p w s t \<Longrightarrow> params_ok t = params_ok s"
  by (auto simp: params_ok_def reads_fields split: option.splits)

lemma params_ok_put: "params_ok s \<Longrightarrow> url_len s < 64 \<Longrightarrow> params_ok (url_put c s)"
  by (auto simp: params_ok_def url_put_def Let_def split: option.splits)

lemma params_ok_fold:
  "params_ok s \<Longrightarrow> url_len s + length cs \<le> 64 \<Longrightarrow> params_ok (fold url_put cs s)"
  by (induction cs arbitrary: s) (simp_all add: params_ok_put)

lemma reads_fold_put: "reads p w s t \<Longrightarrow> reads p w (fold url_put cs s) (fold url_put cs t)"
  by (induction cs arbitrary: s t) (simp_all add: reads_url_put)

text \<open>The characters of a URL and the blank that ends it.\<close>

definition url_stop :: "char \<Rightarrow> string \<Rightarrow> 'io http \<Rightarrow> 'io http" where
  "url_stop b cs s = (let t = fold url_put cs s in t\<lparr>url := (url t)[url_len t := b]\<rparr>)"

lemma url_stop_Cons: "url_stop b (c # cs) s = url_stop b cs (url_put c s)"
  by (simp add: url_stop_def)

lemma reads_url_stop:
  assumes "reads p w s t"
  shows "reads p w (url_stop b cs s) (url_stop b cs t)"
proof -
  have "reads p w (fold url_put cs s) (fold url_put cs t)"
    by (rule reads_fold_put [OF assms])
  moreover from this have "url (fold url_put cs t) = url (fold url_put cs s)"
    "url_len (fold url_put cs t) = url_len (fold url_put cs s)"
    by (simp_all add: reads_fields)
  ultimately show ?thesis by (simp add: url_stop_def Let_def reads_updates)
qed

context byte_source
begin

text \<open>
  The loop stores a run of characters without a blank: up to a blank, up to the end of the
  buffer, or up to the end of the input (then the last byte stored is whatever the location
  held).
\<close>

definition url_loop_post :: "'io http \<Rightarrow> string \<Rightarrow> int \<times> 'io http \<Rightarrow> bool" where
  "url_loop_post s cs r \<longleftrightarrow> (case r of (ret, s') \<Rightarrow>
     extra_c s' \<le> 0 \<and> url_len s + length cs \<le> 63 \<and> (\<forall>c \<in> set cs. \<not> isblank c) \<and>
     (ret = 1 \<and> (\<exists>b. isblank b \<and> inp s = cs @ b # inp s' \<and> url_len s + length cs < 63 \<and>
         rds (url_stop b cs s) s') \<or>
      ret = 1 \<and> inp s = cs @ inp s' \<and> url_len s + length cs = 63 \<and> rds (fold url_put cs s) s' \<or>
      ret = 0 \<and> (\<forall>c \<in> set (inp s). \<not> isblank c) \<and> inp s' = [] \<and> (rds (fold url_put cs s) s' \<or>
        (\<exists>b. url_len s + length cs < 63 \<and> rds (url_stop b cs s) s'))))"

lemma url_loop_post_Cons:
  assumes post: "url_loop_post (url_put c s1) cs r" and "rds s s1" and "\<not> isblank c"
    and "inp s = c # inp s1"
  shows "url_loop_post s (c # cs) r"
proof -
  have 1: "rds (fold url_put (c # cs) s) s'" if "rds (fold url_put cs (url_put c s1)) s'" for s'
    using reads_trans [OF reads_fold_put [OF reads_url_put [OF assms(2)]] that] by simp
  have 2: "rds (url_stop b (c # cs) s) s'" if "rds (url_stop b cs (url_put c s1)) s'" for b s'
    using reads_trans [OF reads_url_stop [OF reads_url_put [OF assms(2)]] that]
    by (simp add: url_stop_Cons)
  have "url_len s1 = url_len s" by (simp add: reads_fields [OF assms(2)])
  with post assms(3,4) show ?thesis
    unfolding url_loop_post_def by (auto dest: 1 2 simp del: fold_simps)
qed

lemma url_loop_post_stored:
  assumes "url_loop_post u cs (ret, s')" and "rds s u"
  obtains t where "t = fold url_put cs s \<or> (\<exists>b. t = url_stop b cs s \<and> url_len u + length cs < 63)"
    and "rds t s'"
proof -
  have "rds (fold url_put cs u) s' \<or> (\<exists>b. url_len u + length cs < 63 \<and> rds (url_stop b cs u) s')"
    using assms(1) by (auto simp: url_loop_post_def)
  then show ?thesis
  proof
    assume "rds (fold url_put cs u) s'"
    from that [OF _ reads_trans [OF reads_fold_put [OF assms(2)] this]] show ?thesis by simp
  next
    assume "\<exists>b. url_len u + length cs < 63 \<and> rds (url_stop b cs u) s'"
    then obtain b where "url_len u + length cs < 63" "rds (url_stop b cs u) s'" by blast
    from that [OF _ reads_trans [OF reads_url_stop [OF assms(2)] this(2)]] this(1)
    show ?thesis by blast
  qed
qed

lemma ParseURL_loop_ensures:
  "url_len s < 63 \<Longrightarrow> length (url s) = 64 \<Longrightarrow>
   ensures (attoHTTPParseURL_loop E s) (\<lambda>r. \<exists>cs. url_loop_post s cs r)"
proof (induction "63 - url_len s" arbitrary: s rule: less_induct)
  case less
  obtain ret c s1 where rd: "attoHTTPReadC E (url s ! url_len s) s = returns (ret, c, s1)"
    and s1: "rds s s1" "extra_c s1 \<le> 0"
      "ret = 1 \<and> inp s = c # inp s1 \<or> ret = 0 \<and> inp s = [] \<and> inp s1 = []"
    using ReadC_ensures [of "url s ! url_len s" s] by (auto elim!: ensuresE)
  have f: "url s1 = url s" "url_len s1 = url_len s"
    by (simp_all add: reads_fields [OF s1(1)])
  note unf = ParseURL_loop_unfold [of s E, unfolded rd rbind_simps prod.case]
  show ?case
  proof (cases "isblank c")
    case True
    have "rds (url_stop c [] s) (s1\<lparr>url := (url s)[url_len s := c]\<rparr>)"
      using s1(1) by (simp add: url_stop_def reads_updates)
    with True s1 less.prems f have "url_loop_post s [] (ret, s1\<lparr>url := (url s)[url_len s := c]\<rparr>)"
      by (auto simp: url_loop_post_def)
    with True less.prems f show ?thesis by (auto simp: unf)
  next
    case False
    have rput: "rds (fold url_put [c] s) (url_put c s1)"
      using reads_url_put [OF s1(1)] by simp
    show ?thesis
    proof (cases "ret \<noteq> 0 \<and> url_len s + 1 < 63")
      case True
      have "ensures (attoHTTPParseURL_loop E (url_put c s1)) (\<lambda>r. \<exists>cs. url_loop_post (url_put c s1) cs r)"
        using True less.prems f by (intro less.hyps) auto
      then show ?thesis
        using True False less.prems f s1
        by (auto simp: unf elim!: ensures_mono dest: url_loop_post_Cons)
    next
      case stop: False
      have "url_loop_post s [c] (ret, url_put c s1)"
        using stop False s1 less.prems f rput by (auto simp: url_loop_post_def)
      with stop False less.prems f show ?thesis by (auto simp: unf)
    qed
  qed
qed

lemma ParseURL_skip_ensures:
  "ret = 1 \<or> ret = 0 \<Longrightarrow> extra_c s \<le> 0 \<Longrightarrow>
   ensures (attoHTTPParseURL_skip E ret c s) (\<lambda>(ret', c', s'). rds s s' \<and> extra_c s' \<le> 0 \<and>
     (ret = 0 \<or> isblank c \<longrightarrow> ret' = ret \<and> c' = c \<and> s' = s) \<and>
     (ret = 1 \<and> \<not> isblank c \<longrightarrow> (case dropWhile (\<lambda>x. \<not> isblank x) (inp s) of
        [] \<Rightarrow> ret' = 0 \<and> inp s' = [] | b # r \<Rightarrow> ret' = 1 \<and> c' = b \<and> inp s' = r)))"
proof (induction "inp s" arbitrary: ret c s)
  case Nil
  obtain r d t where rd: "attoHTTPReadC E c s = returns (r, d, t)"
    and t: "rds s t" "extra_c t \<le> 0" "r = 0" "inp t = []"
    using ReadC_ensures [of c s] Nil(1) [symmetric] by (auto elim!: ensuresE)
  from Nil(1) [symmetric] Nil(2,3) t show ?case
    by (auto simp: attoHTTPParseURL_skip.simps [of E ret c s] rd attoHTTPParseURL_skip.simps [of E 0])
next
  case (Cons b bs)
  obtain r d t where rd: "attoHTTPReadC E c s = returns (r, d, t)"
    and t: "rds s t" "extra_c t \<le> 0" "r = 1" "d = b" "inp t = bs"
    using ReadC_ensures [of c s] Cons.hyps(2) [symmetric] by (auto elim!: ensuresE)
  have IH: "ensures (attoHTTPParseURL_skip E 1 b t) (\<lambda>(ret', c', s'). rds s s' \<and> extra_c s' \<le> 0 \<and>
     (case dropWhile (\<lambda>x. \<not> isblank x) (inp s) of
        [] \<Rightarrow> ret' = 0 \<and> inp s' = [] | b # r \<Rightarrow> ret' = 1 \<and> c' = b \<and> inp s' = r))"
    using Cons.hyps(1) [of t 1 b] t Cons.hyps(2) [symmetric]
    by (cases "isblank b") (auto elim!: ensures_mono intro: reads_trans)
  then show ?case
    using t Cons.prems
    by (auto simp: attoHTTPParseURL_skip.simps [of E ret c s] rd elim!: ensures_mono)
qed

text \<open>
  Whatever the client sends, the parser returns, writes inside the URL buffer, leaves it
  terminated at its last byte and keeps the two parameter variables in step.
\<close>

lemma ParseURL_total:
  assumes "length (url s) = 64" and "url s ! 63 = NUL" and "params_ok s"
  shows "ensures (attoHTTPParseURL E s) (\<lambda>(ret, s').
    (\<exists>t. url_frame s t \<and> rds t s') \<and> length (url s') = 64 \<and> url s' ! 63 = NUL \<and>
    (url_len s \<le> 63 \<longrightarrow> url_len s' \<le> 63) \<and> params_ok s' \<and> (ret = 1 \<or> ret = 0))"
proof -
  obtain r0 s0 where sp: "attoHTTPParseSpace E s = returns (r0, s0)"
    and s0: "rds s s0" "r0 = 1 \<or> r0 = 0"
    using ParseSpace_ensures [of s]
    by (cases "dropWhile isblank (inp s)") (auto elim!: ensuresE simp del: dropWhile_eq_Nil_conv)
  have f0: "url s0 = url s" "url_params s0 = url_params s" "url_params_start s0 = url_params_start s"
    by (simp_all add: reads_fields [OF s0(1)])
  show ?thesis
  proof (cases "r0 = 1")
    case True
    let ?s = "s\<lparr>url_len := 0\<rparr>" and ?u = "s0\<lparr>url_len := 0\<rparr>"
    have rs: "rds ?s ?u" by (rule reads_updates(6) [OF s0(1)])
    obtain ret s1 cs where loop: "attoHTTPParseURL_loop E ?u = returns (ret, s1)"
      and post: "url_loop_post ?u cs (ret, s1)"
      using ParseURL_loop_ensures [of ?u] assms(1) f0 by (fastforce elim!: ensuresE)
    have len: "length cs \<le> 63" and ret: "ret = 1 \<or> ret = 0" "extra_c s1 \<le> 0"
      using post by (auto simp: url_loop_post_def)
    obtain t where t: "t = fold url_put cs ?s \<or> (\<exists>b. t = url_stop b cs ?s \<and> length cs < 63)"
      and ts: "rds t s1"
      using url_loop_post_stored [OF post rs] by auto
    have fold: "url_len (fold url_put cs ?s) = length cs" "length (url (fold url_put cs ?s)) = 64"
      "url (fold url_put cs ?s) ! 63 = NUL"
      using fold_url_put [of ?s cs] len assms(1,2)
      by (auto simp: splice_def nth_append min_def)
    then have t1: "url t ! 63 = NUL" "length (url t) = 64" "url_len t \<le> 63"
      using t len by (auto simp: url_stop_def Let_def)
    have "params_ok (fold url_put cs ?s)"
      using len assms(3) by (simp add: params_ok_fold)
    then have t2: "params_ok t"
      using t by (auto simp: url_stop_def Let_def)
    have "url_frame s ?s" by (simp add: url_frame_def)
    then have "url_frame s (fold url_put cs ?s)" by (rule url_frame_trans [OF _ url_frame_fold])
    then have t3: "url_frame s t"
      using t by (auto simp: url_stop_def Let_def url_frame_buffer)
    have f1: "url s1 = url t" "url_len s1 = url_len t" by (simp_all add: reads_fields [OF ts])
    obtain ret' c s2 where skip: "attoHTTPParseURL_skip E ret (url s1 ! url_len s1) s1
        = returns (ret', c, s2)" and s2: "rds s1 s2" "ret' = 1 \<or> ret' = 0"
      using ParseURL_skip_ensures [OF ret, of "url s1 ! url_len s1"] ret(1)
      by (cases "isblank (url s1 ! url_len s1)";
          cases "dropWhile (\<lambda>x. \<not> isblank x) (inp s1)")
        (auto elim!: ensuresE simp del: dropWhile_eq_Nil_conv)
    let ?t = "t\<lparr>url := (url t)[url_len t := NUL]\<rparr>"
    have f2: "url s2 = url t" "url_len s2 = url_len t" by (simp_all add: reads_fields [OF s2(1)] f1)
    have "rds ?t (attoHTTPPushC c s2\<lparr>url := (url t)[url_len t := NUL]\<rparr>)" (is "rds _ ?s'")
      by (intro reads_updates reads_pushC_right reads_trans [OF ts s2(1)])
    then have "\<exists>t'. url_frame s t' \<and> rds t' ?s'"
      using url_frame_buffer [OF t3] by blast
    moreover have "attoHTTPParseURL E s = returns (ret', ?s')"
      using t1 by (simp add: attoHTTPParseURL_def sp True loop f1 f2 skip [unfolded f1] Let_def)
    moreover have "params_ok ?s'"
      using params_ok_reads [OF reads_pushC_right [OF reads_trans [OF ts s2(1)]], of c] t2 by simp
    ultimately show ?thesis
      using t1 s2(2) f2 by (auto simp: nth_list_update)
  next
    case False
    with s0 assms f0 show ?thesis
      by (auto simp: attoHTTPParseURL_def sp params_ok_reads [OF s0(1)] reads_fields(6) [OF s0(1)]
          intro!: exI [of _ s])
  qed
qed

text \<open>
  A URL token after any blanks and before a blank: its first 63 characters are stored, the
  rest is skipped, every question mark becomes the terminator of what precedes it, and the
  blank is pushed back.
\<close>

lemma ParseURL_token:
  assumes inp: "inp s = bl @ tok @ b # rest"
    and bl: "\<forall>c \<in> set bl. isblank c" and b: "isblank b"
    and tok: "\<forall>c \<in> set tok. \<not> isblank c" "NUL \<notin> set tok" "tok \<noteq> []"
    and url: "length (url s) = 64" "url s ! 63 = NUL" and q: "url_params s = None"
  shows "ensures (attoHTTPParseURL E s) (\<lambda>(ret, s'). ret = 1 \<and> inp s' = b # rest \<and>
    url s' = splice (url s) 0 (map url_byte (take 63 tok) @ [NUL]) \<and>
    url_len s' = min 63 (length tok) \<and> url_params s' = query_at 0 None (take 63 tok) \<and>
    (\<exists>t. url_frame s t \<and> rds t s'))"
proof -
  obtain c t where ct: "tok = c # t" using tok(3) by (cases tok) auto
  have dw: "dropWhile isblank (inp s) = c # (t @ b # rest)"
    using inp bl tok(1) ct by (simp add: dropWhile_append2)
  have "c \<noteq> NUL" using tok(2) ct by auto
  from ParseSpace_Cons [OF dw this] obtain s0 where sp: "attoHTTPParseSpace E s = returns (1, s0)"
    and s0: "rds s s0" "inp s0 = tok @ b # rest"
    by (auto elim!: ensuresE simp: ct)
  let ?s = "s\<lparr>url_len := 0\<rparr>" and ?u = "s0\<lparr>url_len := 0\<rparr>"
  have f0: "url s0 = url s" by (simp add: reads_fields [OF s0(1)])
  have rs: "rds ?s ?u" by (rule reads_updates(6) [OF s0(1)])
  obtain ret s1 cs where loop: "attoHTTPParseURL_loop E ?u = returns (ret, s1)"
    and post: "url_loop_post ?u cs (ret, s1)"
    using ParseURL_loop_ensures [of ?u] url(1) f0 by (fastforce elim!: ensuresE)
  let ?cs = "take 63 tok"
  have fold: "url_len (fold url_put ?cs ?s) = min 63 (length tok)"
    "url (fold url_put ?cs ?s) = splice (url s) 0 (map url_byte ?cs)"
    "url_params (fold url_put ?cs ?s) = query_at 0 None ?cs"
    using fold_url_put [of ?s ?cs] url q by (simp_all add: min.commute)
  have upd: "(url (fold url_put ?cs ?s))[min 63 (length tok) := x]
      = splice (url s) 0 (map url_byte ?cs @ [x])" for x
    using splice_snoc [of 0 "map url_byte ?cs" "url s" x] url by (simp add: fold min.commute)
  obtain t x where ts: "rds t s1" and t: "t = fold url_put ?cs ?s \<or> t = url_stop b ?cs ?s"
    and skip: "attoHTTPParseURL_skip E ret (url s1 ! url_len s1) s1 = returns (1, b, x)"
    and x: "rds s1 x" "extra_c x \<le> 0" "inp x = rest"
  proof -
    from post s0(2) b consider
      (blank) b' where "isblank b'" "tok @ b # rest = cs @ b' # inp s1" "\<forall>c \<in> set cs. \<not> isblank c"
        "rds (url_stop b' cs ?u) s1" "ret = 1" "length cs < 63" "extra_c s1 \<le> 0"
    | (full) "tok @ b # rest = cs @ inp s1" "\<forall>c \<in> set cs. \<not> isblank c" "length cs = 63"
        "rds (fold url_put cs ?u) s1" "ret = 1" "extra_c s1 \<le> 0"
      by (auto simp: url_loop_post_def)
    then show thesis
    proof cases
      case blank
      from token_end_unique [OF blank(2), of isblank] tok(1) b blank have e: "cs = tok" "b' = b" "inp s1 = rest"
        by auto
      have cs: "?cs = cs" using e blank by simp
      have rt: "rds (url_stop b ?cs ?s) s1"
        using reads_trans [OF reads_url_stop [OF rs]] blank(4) by (simp add: cs e)
      have "url s1 = url (url_stop b ?cs ?s)" "url_len s1 = url_len (url_stop b ?cs ?s)"
        by (simp_all add: reads_fields [OF rt])
      then have "url s1 ! url_len s1 = b"
        using fold(1) url blank e(1) by (simp add: url_stop_def Let_def fold(2) del: fold_simps)
      then show thesis
        using that [OF rt] blank e b by (simp add: attoHTTPParseURL_skip.simps [of E 1])
    next
      case full
      have cut: "cs = take 63 tok" "inp s1 = drop 63 tok @ b # rest"
        using token_cut_unique [OF full(1), of isblank] b full by auto
      have rt: "rds (fold url_put ?cs ?s) s1"
        using reads_trans [OF reads_fold_put [OF rs]] full(4) by (simp add: cut)
      have "url s1 = url (fold url_put ?cs ?s)" "url_len s1 = url_len (fold url_put ?cs ?s)"
        by (simp_all add: reads_fields [OF rt])
      moreover have "length ?cs = 63" using cut(1) full(3) by simp
      ultimately have "url s1 ! url_len s1 = NUL"
        using fold(1,2) url by (simp add: splice_def nth_append)
      moreover have "dropWhile (\<lambda>x. \<not> isblank x) (inp s1) = b # rest"
      proof -
        have "\<forall>c \<in> set (drop 63 tok). \<not> isblank c" using tok(1) by (auto dest: in_set_dropD)
        then show ?thesis using b by (simp add: cut(2) dropWhile_append2)
      qed
      ultimately have "ensures (attoHTTPParseURL_skip E ret (url s1 ! url_len s1) s1)
          (\<lambda>(ret', c', s'). ret' = 1 \<and> c' = b \<and> rds s1 s' \<and> extra_c s' \<le> 0 \<and> inp s' = rest)"
        using ParseURL_skip_ensures [of 1 s1 NUL] full by (auto elim!: ensures_mono)
      then show thesis
        using that [OF rt] by (auto elim!: ensuresE)
    qed
  qed
  have len: "url_len t = min 63 (length tok)" and qt: "url_params t = query_at 0 None ?cs"
    using t fold by (auto simp: url_stop_def Let_def)
  have "(url t)[url_len t := NUL] = (url (fold url_put ?cs ?s))[min 63 (length tok) := NUL]"
    using t fold(1) by (auto simp: url_stop_def Let_def)
  then have ub: "(url t)[url_len t := NUL] = splice (url s) 0 (map url_byte ?cs @ [NUL])"
    unfolding upd .
  have "url_frame s ?s" by (simp add: url_frame_def)
  then have "url_frame s (fold url_put ?cs ?s)" by (rule url_frame_trans [OF _ url_frame_fold])
  then have fr: "url_frame s (t\<lparr>url := (url t)[url_len t := NUL]\<rparr>)"
    using t by (auto simp: url_stop_def Let_def intro!: url_frame_buffer)
  have ut: "length (url t) = 64"
    using t fold(2) url by (auto simp: url_stop_def Let_def)
  have f: "url x = url t" "url_len x = url_len t" "url s1 = url t" "url_len s1 = url_len t"
    "url_params x = url_params t"
    by (simp_all add: reads_fields [OF x(1)] reads_fields [OF ts])
  have "rds (t\<lparr>url := (url t)[url_len t := NUL]\<rparr>) (attoHTTPPushC b x\<lparr>url := (url t)[url_len t := NUL]\<rparr>)"
    (is "rds _ ?r")
    by (intro reads_updates reads_pushC_right reads_trans [OF ts x(1)])
  moreover have "attoHTTPParseURL E s = returns (1, ?r)"
    using ut len by (simp add: attoHTTPParseURL_def sp loop f skip [unfolded f len] Let_def)
  moreover have "b \<noteq> NUL" using b by auto
  ultimately show ?thesis
    using fr x(2,3) by (auto simp: f len ub [unfolded len] qt input_of_pushC)
qed

end

section \<open>The version\<close>

sublocale byte_source \<subseteq> vtok: token_loop E pending sent "attoHTTPParseVersion_loop E" isspace
    "token_buffer_size - 1" "\<lambda>r. r \<noteq> 0" "\<lambda>ret b i s. (ret, b, i, s)"
  by unfold_locales (subst attoHTTPParseVersion_loop.simps, rule refl, simp_all)

text \<open>
  The version a token selects: the comparison is over the length of the token, so every
  prefix of the first version selects it.
\<close>

definition version_of_token :: "string \<Rightarrow> httpversion" where
  "version_of_token t =
     (if prefix t HTTP_VERSION_1_0 then V1_0
      else if prefix t HTTP_VERSION_1_1 then V1_1 else VUNKNOWN)"

lemma take_eq_prefix: "take (length t) x = t \<longleftrightarrow> prefix t x"
  by (metis append_eq_conv_conj prefix_def)

lemma version_of_buffer_spec:
  assumes "strz b = tok" and "terminated b"
  shows "version_of_buffer b (length tok) = returns (version_of_token tok)"
proof -
  have *: "rbind (strncmp (cstr x) b (length tok)) (\<lambda>r. if r = 0 then f else g)
      = (if prefix tok x then f else g)" if nn: "NUL \<notin> set x" for x and f g :: "httpversion run"
  proof -
    obtain r where "strncmp (cstr x) b (length tok) = returns r"
      "r = 0 \<longleftrightarrow> take (length tok) x = tok"
      using strncmp_spec [of "cstr x" "length tok" b] nn assms by (auto elim!: ensuresE)
    then show ?thesis by (simp add: take_eq_prefix)
  qed
  show ?thesis
    unfolding version_of_buffer_def version_of_token_def
    by (simp add: * HTTP_VERSION_1_0_def HTTP_VERSION_1_1_def)
qed

lemma version_of_buffer_total:
  "terminated b \<Longrightarrow> ensures (version_of_buffer b n) (\<lambda>v. True)"
  unfolding version_of_buffer_def ensures_simps
  by (intro ensures_mono [OF strncmp_spec]) (auto intro!: ensures_mono [OF strncmp_spec])

context byte_source
begin

lemma ParseVersion_total:
  "ensures (attoHTTPParseVersion E s) (\<lambda>(ret, s').
     rds (s\<lparr>version := version s', headersDone := headersDone s'\<rparr>) s' \<and> (ret = 1 \<or> ret = 0))"
proof -
  obtain ret s1 where sp: "attoHTTPParseSpace E s = returns (ret, s1)"
    and s1: "rds s s1" "ret = 1 \<or> ret = 0"
    using ParseSpace_ensures [of s]
    by (cases "dropWhile isblank (inp s)") (auto elim!: ensuresE simp del: dropWhile_eq_Nil_conv)
  have eol: "ensures (attoHTTPParseEOL E t) (\<lambda>(ret, s').
      rds (s\<lparr>version := version s', headersDone := headersDone s'\<rparr>) s' \<and> (ret = 1 \<or> ret = 0))"
    if "rds (s\<lparr>version := v\<rparr>) t" for t v
  proof (rule ensures_mono [OF ParseEOL_ensures], clarify)
    fix ret s'
    assume r: "rds (t\<lparr>headersDone := headersDone s'\<rparr>) s'"
      and c: "case eol_scan 0 (inp t) of None \<Rightarrow> ret = 0 \<and> unread pending s' = []
        | Some (c, n, r) \<Rightarrow> ret = 1 \<and> inp s' = (if c = NUL then r else c # r) \<and> left s' < left t \<and>
            headersDone s' = (headersDone t \<or> 1 < n)"
    have "rds (s\<lparr>version := v, headersDone := headersDone s'\<rparr>) s'"
      by (rule reads_trans [OF reads_updates(1) [OF that] r])
    moreover have "version s' = v"
      using reads_fields(2) [OF calculation] by simp
    ultimately show "rds (s\<lparr>version := version s', headersDone := headersDone s'\<rparr>) s' \<and> (ret = 1 \<or> ret = 0)"
      using c by (auto split: option.splits)
  qed
  from s1(2) show ?thesis
  proof
    assume r: "ret = 1"
    let ?b = "uninit E ParseVersion_buffer 10 s1"
    have "ensures (attoHTTPParseVersion_loop E ?b 0 s1) (vtok.token_post s1 ?b)"
      by (rule vtok.token_total) simp_all
    then obtain rt b i s2 where loop: "attoHTTPParseVersion_loop E ?b 0 s1 = returns (rt, b, i, s2)"
      and s2: "rds s1 s2" "length b = 10" "i \<le> 9"
      by (auto elim!: ensuresE simp: vtok.token_post_def [simplified])
    have "terminated (b[i := NUL])"
      using s2(2,3) by (auto simp: terminated_def intro: set_update_memI)
    from version_of_buffer_total [OF this] obtain v where
      v: "version_of_buffer (b[i := NUL]) i = returns v" by (rule ensuresE)
    have "rds (s\<lparr>version := v\<rparr>) (attoHTTPPushC (b ! i) s2\<lparr>version := v\<rparr>)"
      by (intro reads_updates reads_pushC_right reads_trans [OF s1(1) s2(1)])
    from eol [OF this] show ?thesis
      using s2 by (simp add: attoHTTPParseVersion_def sp r loop v Let_def)
  next
    assume "ret = 0"
    with eol [of "version s" s1] s1(1) show ?thesis
      by (simp add: attoHTTPParseVersion_def sp)
  qed
qed

text \<open>
  A version token of at most eight characters, and the rest of the line up to the first
  character of the next one.
\<close>

lemma ParseVersion_token:
  assumes inp: "inp s = bl @ tok @ b # rest"
    and bl: "\<forall>c \<in> set bl. isblank c" and b: "isspace b"
    and tok: "\<forall>c \<in> set tok. \<not> isspace c" "NUL \<notin> set tok" "tok \<noteq> []" "length tok \<le> 8"
    and eol: "eol_scan 0 (b # rest) = Some (c, n, r)" and c: "c \<noteq> NUL"
  shows "ensures (attoHTTPParseVersion E s) (\<lambda>(ret, s'). ret = 1 \<and> inp s' = c # r \<and>
    rds (s\<lparr>version := version_of_token tok, headersDone := headersDone s \<or> n > 1\<rparr>) s')"
proof -
  obtain d t where ct: "tok = d # t" using tok(3) by (cases tok) auto
  have "\<not> isblank d" using tok(1) ct isblank_isspace by auto
  then have dw: "dropWhile isblank (inp s) = d # (t @ b # rest)"
    using inp bl ct by (simp add: dropWhile_append2)
  have "d \<noteq> NUL" using tok(2) ct by auto
  from ParseSpace_Cons [OF dw this] obtain s1 where sp: "attoHTTPParseSpace E s = returns (1, s1)"
    and s1: "rds s s1" "inp s1 = tok @ b # rest"
    by (auto elim!: ensuresE simp: ct)
  let ?b = "uninit E ParseVersion_buffer 10 s1"
  from vtok.token_exact [OF s1(2) tok(1) b, of 0 ?b] tok(4)
  obtain s2 where loop: "attoHTTPParseVersion_loop E ?b 0 s1
      = returns (1, splice ?b 0 (tok @ [b]), length tok, s2)"
    and s2: "rds s1 s2" "extra_c s2 \<le> 0" "inp s2 = rest"
    by (auto elim!: ensuresE)
  let ?buf = "splice ?b 0 (tok @ [NUL])"
  have len: "length tok < length (splice ?b 0 (tok @ [b]))"
    using tok(4) by simp
  have st: "store (splice ?b 0 (tok @ [b])) (length tok) NUL = returns ?buf"
    using splice_update_end [of 0 tok ?b b NUL] tok(4) by simp
  have ld: "load (splice ?b 0 (tok @ [b])) (length tok) = returns b"
    using splice_nth_end [of 0 tok ?b b] tok(4) by simp
  have "strz ?buf = tok" "terminated ?buf"
    using tok(2,4) by (auto simp: splice_def)
  then have v: "version_of_buffer ?buf (length tok) = returns (version_of_token tok)"
    by (rule version_of_buffer_spec)
  let ?t = "attoHTTPPushC b s2\<lparr>version := version_of_token tok\<rparr>"
  have rt: "rds (s\<lparr>version := version_of_token tok\<rparr>) ?t"
    by (intro reads_updates reads_pushC_right reads_trans [OF s1(1) s2(1)])
  have "b \<noteq> NUL" using b by auto
  then have it: "inp ?t = b # rest" using s2 by (simp add: input_of_pushC)
  have hd: "headersDone ?t = headersDone s"
    using reads_fields(9) [OF rt] by simp
  have "ensures (attoHTTPParseEOL E ?t) (\<lambda>(ret, s'). ret = 1 \<and> inp s' = c # r \<and>
    rds (s\<lparr>version := version_of_token tok, headersDone := headersDone s \<or> n > 1\<rparr>) s')"
    using reads_trans [OF reads_updates(1) [OF rt]] c hd
    by (intro ensures_mono [OF ParseEOL_ensures [of ?t, unfolded it eol]]) auto
  then show ?thesis
    by (simp add: attoHTTPParseVersion_def sp loop ld st v Let_def)
qed

end

end
