(* ===== verification/Headers.thy ===== *)
theory Headers
  imports RequestLine
begin

text \<open>
  The header parser of \<^verbatim>\<open>src/src/attohttp.c\<close>: \<^verbatim>\<open>_attoHTTPParseHeader\<close>,
  \<^verbatim>\<open>_attoHTTPParseHeaders\<close> and the authorisation check \<^verbatim>\<open>_attoHTTPCheckAuth\<close> it calls.
\<close>

section \<open>Definitions\<close>

text \<open>
  The credential pointer points into the header value buffer, so the user's check gets the
  bytes from there to the end of that buffer.
\<close>

definition attoHTTPCheckAuth ::
    "'io env \<Rightarrow> authtype \<Rightarrow> string \<Rightarrow> 'io http \<Rightarrow> (int \<times> 'io http) run" where
  "attoHTTPCheckAuth E auth cred s =
     rbind (if authMode E \<noteq> NO_AUTH
            then rbind (checkAuth E auth cred (io s)) (\<lambda>(r, i). returns (int8 r, s\<lparr>io := i\<rparr>))
            else returns (0, s\<lparr>returnCode := STATUS_UNSUPPORTED\<rparr>)) (\<lambda>(ret, s).
     let s = (if ret = 0 \<and> returnCode s = STATUS_RUNKNOWN
              then s\<lparr>returnCode := STATUS_UNAUTHORIZED\<rparr> else s)
     in returns (ret, s))"

partial_function (option) attoHTTPParseHeader_name ::
    "'io env \<Rightarrow> string \<Rightarrow> nat \<Rightarrow> nat \<Rightarrow> 'io http \<Rightarrow> (int \<times> string \<times> nat \<times> 'io http) run" where
  [code]: "attoHTTPParseHeader_name E name i namesize s =
     rbind (readInto E name i s) (\<lambda>(ret, name, s).
       if name ! i = CHR '':'' then returns (ret, name, i, s)
       else if ret > 0 \<and> namesize - 1 > 0
            then attoHTTPParseHeader_name E name (i + 1) (namesize - 1) s
            else returns (ret, name, i + 1, s))"

partial_function (option) attoHTTPParseHeader_value ::
    "'io env \<Rightarrow> string \<Rightarrow> nat \<Rightarrow> nat \<Rightarrow> 'io http \<Rightarrow>
     (int \<times> string \<times> nat \<times> nat \<times> 'io http) run" where
  [code]: "attoHTTPParseHeader_value E val i valuesize s =
     rbind (readInto E val i s) (\<lambda>(ret, val, s).
       if val ! i = CR \<or> val ! i = LF then returns (ret, val, i, valuesize, s)
       else if ret > 0 \<and> valuesize - 1 > 0
            then attoHTTPParseHeader_value E val (i + 1) (valuesize - 1) s
            else returns (ret, val, i + 1, valuesize - 1, s))"

definition attoHTTPParseHeader ::
    "'io env \<Rightarrow> string \<Rightarrow> nat \<Rightarrow> string \<Rightarrow> nat \<Rightarrow> 'io http \<Rightarrow>
     (int \<times> string \<times> string \<times> 'io http) run" where
  "attoHTTPParseHeader E name namesize val valuesize s =
     rbind (attoHTTPParseHeader_name E name 0 (namesize - 1) s) (\<lambda>(ret, name, i, s).
     rbind (store name i NUL) (\<lambda>name.
     rbind (attoHTTPParseSpace E s) (\<lambda>(ret, s).
     rbind (attoHTTPParseHeader_value E val 0 (valuesize - 1) s) (\<lambda>(ret, val, j, vsize, s).
     rbind (if vsize > 0 then rbind (load val j) (\<lambda>c. returns (attoHTTPPushC c s))
            else returns s) (\<lambda>s.
     rbind (store val j NUL) (\<lambda>val.
     rbind (attoHTTPParseEOL E s) (\<lambda>(ret, s).
     returns (ret, name, val, s))))))))"

text \<open>The search loops over the mime types: over the enumeration values \<open>i < ATTOHTTP_MIME_TYPES\<close>.\<close>

fun accept_loop :: "nat list \<Rightarrow> string \<Rightarrow> 16 word \<Rightarrow> 16 word run" where
  "accept_loop [] val acc = returns acc"
| "accept_loop (i # is) val acc =
     rbind (strncasecmp val (cstr (mimetypes (mime_of ! i))) ATTOHTTP_HEADER_VALUE_SIZE) (\<lambda>r.
       accept_loop is val (if r = 0 then push_bit i 1 else acc))"

fun contenttype_loop :: "nat list \<Rightarrow> string \<Rightarrow> mimetype \<Rightarrow> mimetype run" where
  "contenttype_loop [] val ct = returns ct"
| "contenttype_loop (i # is) val ct =
     rbind (strstr val (cstr (mimetypes (mime_of ! i)))) (\<lambda>p.
       if p \<noteq> None then returns (mime_of ! i) else contenttype_loop is val ct)"

fun authorization_loop :: "'io env \<Rightarrow> nat list \<Rightarrow> string \<Rightarrow> 'io http \<Rightarrow> 'io http run" where
  "authorization_loop E [] val s = returns (s\<lparr>returnCode := STATUS_UNAUTHORIZED\<rparr>)"
| "authorization_loop E (i # is) val s =
     rbind (strstr val (cstr (authtypes (auth_of ! i)))) (\<lambda>p.
       case p of
         Some k \<Rightarrow>
           rbind (attoHTTPCheckAuth E (auth_of ! i)
                   (drop (k + length (authtypes (auth_of ! i)) + 1) val) s) (\<lambda>(r, s).
           returns (s\<lparr>authenticated := word_of_int r\<rparr>))
       | None \<Rightarrow> authorization_loop E is val s)"

definition header_action :: "'io env \<Rightarrow> string \<Rightarrow> string \<Rightarrow> 'io http \<Rightarrow> 'io http run" where
  "header_action E name val s =
     (let n = ATTOHTTP_HEADER_NAME_SIZE in
      rbind (strncasecmp name (cstr ''accept'') n) (\<lambda>r. if r = 0 then
        rbind (accept_loop [0..<ATTOHTTP_MIME_TYPES] val (accept s)) (\<lambda>a.
        returns (s\<lparr>accept := a\<rparr>))
      else
      rbind (strncasecmp name (cstr ''content-type'') n) (\<lambda>r. if r = 0 then
        rbind (contenttype_loop [0..<ATTOHTTP_MIME_TYPES] val (contenttype s)) (\<lambda>t.
        returns (s\<lparr>contenttype := t\<rparr>))
      else
      rbind (strncasecmp name (cstr ''authorization'') n) (\<lambda>r.
        if r = 0 \<and> authMode E \<noteq> NO_AUTH then
          authorization_loop E [0..<ATTOHTTP_AUTH_TYPES] val s
        else returns s))))"

partial_function (option) attoHTTPParseHeaders_loop ::
    "'io env \<Rightarrow> int \<Rightarrow> string \<Rightarrow> string \<Rightarrow> 'io http \<Rightarrow> (int \<times> 'io http) run" where
  [code]: "attoHTTPParseHeaders_loop E ret name val s =
     (if \<not> headersDone s \<and> ret > 0 then
        rbind (attoHTTPParseHeader E name ATTOHTTP_HEADER_NAME_SIZE
                 val ATTOHTTP_HEADER_VALUE_SIZE s) (\<lambda>(ret, name, val, s).
        rbind (header_action E name val s) (\<lambda>s.
        attoHTTPParseHeaders_loop E ret name val s))
      else returns (ret, s))"

definition attoHTTPParseHeaders :: "'io env \<Rightarrow> 'io http \<Rightarrow> (int \<times> 'io http) run" where
  "attoHTTPParseHeaders E s =
     attoHTTPParseHeaders_loop E 1
       (uninit E ParseHeaders_name ATTOHTTP_HEADER_NAME_SIZE s)
       (uninit E ParseHeaders_value ATTOHTTP_HEADER_VALUE_SIZE s) s"

section \<open>One header line\<close>

lemma ParseHeader_name_unfold:
  "i < 63 \<Longrightarrow> attoHTTPParseHeader_name E name i (63 - i) s =
     rbind (readInto E name i s) (\<lambda>(ret, name, s).
       if name ! i = CHR '':'' then returns (ret, name, i, s)
       else if ret > 0 \<and> i + 1 < 63 then attoHTTPParseHeader_name E name (i + 1) (63 - (i + 1)) s
       else returns (ret, name, i + 1, s))"
  unfolding diff_diff_left [symmetric]
  by (subst attoHTTPParseHeader_name.simps) (auto simp: split_def intro!: rbind_cong)

lemma ParseHeader_value_unfold:
  "i < 63 \<Longrightarrow> attoHTTPParseHeader_value E val i (63 - i) s =
     rbind (readInto E val i s) (\<lambda>(ret, val, s).
       if val ! i = CR \<or> val ! i = LF then returns (ret, val, i, 63 - i, s)
       else if ret > 0 \<and> i + 1 < 63 then attoHTTPParseHeader_value E val (i + 1) (63 - (i + 1)) s
       else returns (ret, val, i + 1, 63 - (i + 1), s))"
  unfolding diff_diff_left [symmetric]
  by (subst attoHTTPParseHeader_value.simps) (auto simp: split_def intro!: rbind_cong)

sublocale byte_source \<subseteq> ntok: token_loop E pending sent
    "\<lambda>b i s. attoHTTPParseHeader_name E b i (63 - i) s" "\<lambda>c. c = CHR '':''" 63
    "\<lambda>r. r > 0" "\<lambda>ret b i s. (ret, b, i, s)"
  by unfold_locales (simp_all add: ParseHeader_name_unfold)

sublocale byte_source \<subseteq> htok: token_loop E pending sent
    "\<lambda>b i s. attoHTTPParseHeader_value E b i (63 - i) s" "\<lambda>c. c = CR \<or> c = LF" 63
    "\<lambda>r. r > 0" "\<lambda>ret b i s. (ret, b, i, 63 - i, s)"
  by unfold_locales (simp_all add: ParseHeader_value_unfold)

lemma terminated_update: "i < length b \<Longrightarrow> terminated (b[i := NUL])"
  by (simp add: terminated_def set_update_memI)

context byte_source
begin

text \<open>
  A call returns with both buffers terminated; when it reports that there is more to read, the
  transport has delivered at least one byte.
\<close>

lemma ParseHeader_total:
  assumes "length name = 64" and "length val = 64"
  shows "ensures (attoHTTPParseHeader E name 64 val 64 s) (\<lambda>(ret, name', val', s').
    rds (s\<lparr>headersDone := headersDone s'\<rparr>) s' \<and> length name' = 64 \<and> length val' = 64 \<and>
    terminated name' \<and> terminated val' \<and> (ret = 1 \<and> left s' < left s \<or> ret = 0))"
proof -
  have "ensures (attoHTTPParseHeader_name E name 0 (63 - 0) s) (ntok.token_post s name)"
    by (rule ntok.token_total) (simp_all add: assms)
  then obtain r1 n1 i s1 where nm: "attoHTTPParseHeader_name E name 0 63 s = returns (r1, n1, i, s1)"
    and s1: "rds s s1" "length n1 = 64" "i \<le> 63"
    using assms by (auto elim!: ensuresE simp: ntok.token_post_def)
  obtain r2 s2 where sp: "attoHTTPParseSpace E s1 = returns (r2, s2)" and s2: "rds s1 s2"
    using ParseSpace_ensures [of s1] by (auto elim!: ensuresE)
  have "ensures (attoHTTPParseHeader_value E val 0 (63 - 0) s2) (htok.token_post s2 val)"
    by (rule htok.token_total) (simp_all add: assms)
  then obtain r3 v1 j s3 where vl: "attoHTTPParseHeader_value E val 0 63 s2 = returns (r3, v1, j, 63 - j, s3)"
    and s3: "rds s2 s3" "length v1 = 64" "j \<le> 63"
    using assms by (auto elim!: ensuresE simp: htok.token_post_def)
  have rd: "rds s s3" by (rule reads_trans [OF s1(1) reads_trans [OF s2 s3(1)]])
  have eol: "ensures (attoHTTPParseEOL E t) (\<lambda>(ret, s').
      rds (s\<lparr>headersDone := headersDone s'\<rparr>) s' \<and> (ret = 1 \<and> left s' < left s \<or> ret = 0))"
    if t: "rds s t" for t
  proof -
    have upd: "rds (s\<lparr>headersDone := h\<rparr>) s'" if "rds (t\<lparr>headersDone := h\<rparr>) s'" for h s'
      by (rule reads_trans [OF reads_updates(1) [OF t] that])
    have "ensures (attoHTTPParseEOL E t) (\<lambda>(ret, s').
        rds (t\<lparr>headersDone := headersDone s'\<rparr>) s' \<and> (ret = 1 \<and> left s' < left t \<or> ret = 0))"
      by (rule ensures_mono [OF ParseEOL_ensures]) (auto split: option.splits)
    then show ?thesis
      by (rule ensures_mono) (use reads_unread [OF t] upd in auto)
  qed
  obtain t where t: "(if 63 - j > 0 then rbind (load v1 j) (\<lambda>c. returns (attoHTTPPushC c s3))
      else returns s3) = returns t" and rt: "rds s t"
    using rd reads_pushC_right [OF rd] s3(2) by (cases "j < 63") auto
  obtain r4 s4 where eol': "attoHTTPParseEOL E t = returns (r4, s4)"
    and s4: "rds (s\<lparr>headersDone := headersDone s4\<rparr>) s4" "r4 = 1 \<and> left s4 < left s \<or> r4 = 0"
    using eol [OF rt] by (auto elim!: ensuresE)
  have "attoHTTPParseHeader E name 64 val 64 s = returns (r4, n1[i := NUL], v1[j := NUL], s4)"
    using s1(2,3) s3(2,3) t by (simp add: attoHTTPParseHeader_def nm sp vl eol')
  then show ?thesis
    using s1(2,3) s3(2,3) s4 by (simp add: terminated_update)
qed

text \<open>A header line that fits the buffers is split at the colon and at the end of the line.\<close>

lemma ParseHeader_line:
  assumes inp: "inp s = nm @ CHR '':'' # bl @ vl @ e # rest"
    and nm: "CHR '':'' \<notin> set nm" "length nm \<le> 62"
    and bl: "\<forall>c \<in> set bl. isblank c" and vl: "\<not> isblank (hd (vl @ [e]))" "hd (vl @ [e]) \<noteq> NUL"
    and vl2: "CR \<notin> set vl" "LF \<notin> set vl" "length vl \<le> 62" and e: "e = CR \<or> e = LF"
    and eol: "eol_scan 0 (e # rest) = Some (c, n, r)" and c: "c \<noteq> NUL"
    and buf: "length name = 64" "length val = 64"
  shows "ensures (attoHTTPParseHeader E name 64 val 64 s) (\<lambda>(ret, name', val', s').
    ret = 1 \<and> name' = splice name 0 (nm @ [NUL]) \<and> val' = splice val 0 (vl @ [NUL]) \<and>
    inp s' = c # r \<and> rds (s\<lparr>headersDone := headersDone s \<or> n > 1\<rparr>) s')"
proof -
  have nm': "\<forall>c \<in> set nm. \<not> c = CHR '':''" using nm(1) by auto
  obtain s1 where s1: "attoHTTPParseHeader_name E name 0 63 s
      = returns (1, splice name 0 (nm @ [CHR '':'']), length nm, s1)"
    "rds s s1" "inp s1 = bl @ vl @ e # rest"
    using ntok.token_exact [OF inp nm' refl, of 0 name] nm(2) buf by (auto elim!: ensuresE)
  obtain d t where dt: "vl @ e # rest = d # t" "d = hd (vl @ [e])" by (cases vl) auto
  have "dropWhile isblank (inp s1) = d # t"
    using s1(3) bl vl(1) dt by (simp add: dropWhile_append2)
  from ParseSpace_Cons [OF this] vl(2) dt obtain s2 where
    s2: "attoHTTPParseSpace E s1 = returns (1, s2)" "rds s1 s2" "inp s2 = vl @ e # rest"
    by (auto elim!: ensuresE)
  have vl': "\<forall>c \<in> set vl. \<not> (c = CR \<or> c = LF)" using vl2 by auto
  obtain s3 where s3: "attoHTTPParseHeader_value E val 0 63 s2
      = returns (1, splice val 0 (vl @ [e]), length vl, 63 - length vl, s3)"
    "rds s2 s3" "extra_c s3 \<le> 0" "inp s3 = rest"
    using htok.token_exact [OF s2(3) vl' e, of 0 val] vl2(3) buf by (auto elim!: ensuresE)
  let ?t = "attoHTTPPushC e s3"
  have rt: "rds s ?t"
    by (intro reads_pushC_right reads_trans [OF s1(2) reads_trans [OF s2(2) s3(2)]])
  have it: "inp ?t = e # rest" using s3 e by (auto simp: input_of_pushC)
  have "ensures (attoHTTPParseEOL E ?t) (\<lambda>(ret, s'). ret = 1 \<and> inp s' = c # r \<and>
      rds (s\<lparr>headersDone := headersDone s \<or> n > 1\<rparr>) s')"
    using reads_trans [OF reads_updates(1) [OF rt]] c reads_fields(9) [OF rt]
    by (intro ensures_mono [OF ParseEOL_ensures [of ?t, unfolded it eol]]) auto
  moreover have "store (splice name 0 (nm @ [CHR '':''])) (length nm) NUL
      = returns (splice name 0 (nm @ [NUL]))"
    using splice_update_end [of 0 nm name "CHR '':''" NUL] nm(2) buf by simp
  moreover have "store (splice val 0 (vl @ [e])) (length vl) NUL = returns (splice val 0 (vl @ [NUL]))"
    "load (splice val 0 (vl @ [e])) (length vl) = returns e"
    using splice_update_end [of 0 vl val e NUL] splice_nth_end [of 0 vl val e] vl2(3) buf by simp_all
  ultimately show ?thesis
    using vl2(3) by (auto simp: attoHTTPParseHeader_def s1(1) s2(1) s3(1) elim!: ensures_mono)
qed

end

section \<open>All headers\<close>

text \<open>
  The part of the state the header parser may change, besides reading: what the headers say
  about the request. \<open>denies\<close> says that the build has authorisation and the user's check
  accepts nothing.
\<close>

definition header_set :: "'io http \<Rightarrow> 'io http \<Rightarrow> 'io http" where
  "header_set s' s = s\<lparr>headersDone := headersDone s', accept := accept s',
     contenttype := contenttype s', returnCode := returnCode s', authenticated := authenticated s'\<rparr>"

definition denies :: "'io env \<Rightarrow> bool" where
  "denies E \<longleftrightarrow> authMode E \<noteq> NO_AUTH \<and>
     (\<forall>a cred i r i'. checkAuth E a cred i = returns (r, i') \<longrightarrow> int8 r = 0)"

definition header_rel ::
    "'io env \<Rightarrow> (handle \<Rightarrow> 'io \<Rightarrow> string) \<Rightarrow> (handle \<Rightarrow> 'io \<Rightarrow> string) \<Rightarrow> 'io http \<Rightarrow> 'io http \<Rightarrow> bool" where
  "header_rel E p w s s' \<longleftrightarrow> reads p w (header_set s' s) s' \<and>
     (authMode E = NO_AUTH \<longrightarrow> authenticated s' = authenticated s \<and> returnCode s' = returnCode s) \<and>
     (denies E \<and> authenticated s = 0 \<longrightarrow> authenticated s' = 0) \<and>
     (returnCode s' = returnCode s \<or> returnCode s' = STATUS_UNAUTHORIZED)"

lemma header_set_self [simp]: "header_set s s = s"
  by (simp add: header_set_def)

lemma header_set_fields [simp]:
  "headersDone (header_set t s) = headersDone t" "accept (header_set t s) = accept t"
  "contenttype (header_set t s) = contenttype t" "returnCode (header_set t s) = returnCode t"
  "authenticated (header_set t s) = authenticated t" "unread p (header_set t s) = unread p s"
  by (simp_all add: header_set_def unread_def)

lemma reads_header_set: "reads p w s s' \<Longrightarrow> reads p w (header_set t s) (header_set t s')"
  unfolding header_set_def by (intro reads_updates)

lemma header_set_set [simp]: "header_set t (header_set u s) = header_set t s"
  by (simp add: header_set_def)

lemma header_rel_refl [simp]: "header_rel E p w s s"
  by (simp add: header_rel_def)

lemma header_rel_trans: "header_rel E p w s t \<Longrightarrow> header_rel E p w t u \<Longrightarrow> header_rel E p w s u"
  unfolding header_rel_def
  using reads_trans [OF reads_header_set, of p w "header_set t s" t u u] by auto

lemma header_set_other [simp]:
  "http_method (header_set t s) = http_method s" "url (header_set t s) = url s"
  "url_len (header_set t s) = url_len s" "url_params (header_set t s) = url_params s"
  "version (header_set t s) = version s" "url_params_start (header_set t s) = url_params_start s"
  "params_ok (header_set t s) = params_ok s"
  by (simp_all add: header_set_def) (simp add: params_ok_def split: option.split)

lemma header_rel_fields:
  assumes "header_rel E p w s s'"
  shows "http_method s' = http_method s" "url s' = url s" "url_len s' = url_len s"
    "url_params s' = url_params s" "version s' = version s"
proof -
  have r: "reads p w (header_set s' s) s'" using assms by (simp add: header_rel_def)
  show "http_method s' = http_method s" "url s' = url s" "url_len s' = url_len s"
    "url_params s' = url_params s" "version s' = version s"
    using reads_fields(1-6) [OF r] by simp_all
qed

lemma header_rel_params_ok:
  assumes "header_rel E p w s s'"
  shows "params_ok s' = params_ok s"
proof -
  have "reads p w (header_set s' s) s'" using assms by (simp add: header_rel_def)
  from params_ok_reads [OF this] show ?thesis by simp
qed

lemma header_rel_reads:
  assumes "reads p w (s\<lparr>headersDone := headersDone s'\<rparr>) s'"
  shows "header_rel E p w s s'"
proof -
  have "header_set s' s = s\<lparr>headersDone := headersDone s'\<rparr>"
    using reads_fields [OF assms] by (simp add: header_set_def)
  then show ?thesis
    using assms reads_fields [OF assms] by (simp add: header_rel_def)
qed

lemma header_rel_unread:
  "header_rel E p w s s' \<Longrightarrow> length (unread p s') \<le> length (unread p s)"
  unfolding header_rel_def by (metis header_set_fields(6) reads_unread)

lemma accept_loop_total:
  "terminated val \<Longrightarrow> ensures (accept_loop is val acc) (\<lambda>a. True)"
  by (induction "is" arbitrary: acc) (auto intro!: ensures_mono [OF strncasecmp_spec])

lemma contenttype_loop_total:
  "terminated val \<Longrightarrow> ensures (contenttype_loop is val ct) (\<lambda>a. True)"
  by (induction "is") (auto simp: strstr_terminated)

context byte_channel
begin

lemma CheckAuth_total:
  assumes "authMode E \<noteq> NO_AUTH"
  shows "ensures (attoHTTPCheckAuth E a cred s) (\<lambda>(r, s'). rds (s\<lparr>returnCode := returnCode s'\<rparr>) s' \<and>
    (returnCode s' = returnCode s \<or> returnCode s' = STATUS_UNAUTHORIZED) \<and>
    (denies E \<longrightarrow> r = 0))"
proof -
  obtain r i where r: "checkAuth E a cred (io s) = returns (r, i)"
    "\<forall>g. pending g i = pending g (io s)" "\<forall>g. sent g i = sent g (io s)"
    using checkAuth_channel [of a cred "io s"] by (auto elim!: ensuresE)
  then have rd: "rds s (s\<lparr>io := i\<rparr>)" by (simp add: reads_def unread_def)
  have "denies E \<longrightarrow> int8 r = 0"
    using r(1) unfolding denies_def by blast
  then show ?thesis
    using assms r(1) rd reads_updates(4) [OF rd]
    by (auto simp: attoHTTPCheckAuth_def Let_def)
qed

lemma authorization_loop_total:
  assumes "authMode E \<noteq> NO_AUTH" and "terminated val"
  shows "ensures (authorization_loop E is val s) (header_rel E pending sent s)"
proof (induction "is")
  case Nil
  have "header_set (s\<lparr>returnCode := STATUS_UNAUTHORIZED\<rparr>) s = s\<lparr>returnCode := STATUS_UNAUTHORIZED\<rparr>"
    by (simp add: header_set_def)
  then show ?case using assms by (simp add: header_rel_def)
next
  case (Cons i "is")
  show ?case
  proof (cases "find_sub (strz val) (authtypes (auth_of ! i))")
    case None
    then show ?thesis using Cons assms(2) by (simp add: strstr_terminated)
  next
    case (Some k)
    let ?cred = "drop (k + length (authtypes (auth_of ! i)) + 1) val"
    obtain r s1 where ca: "attoHTTPCheckAuth E (auth_of ! i) ?cred s = returns (r, s1)"
      and s1: "rds (s\<lparr>returnCode := returnCode s1\<rparr>) s1" "denies E \<longrightarrow> r = 0"
        "returnCode s1 = returnCode s \<or> returnCode s1 = STATUS_UNAUTHORIZED"
      using CheckAuth_total [OF assms(1), of "auth_of ! i" ?cred s] by (auto elim!: ensuresE)
    let ?t = "s1\<lparr>authenticated := word_of_int r\<rparr>"
    have "header_set ?t s = s\<lparr>returnCode := returnCode s1\<rparr>\<lparr>authenticated := word_of_int r\<rparr>"
      using reads_fields [OF s1(1)] by (simp add: header_set_def)
    then have "header_rel E pending sent s ?t"
      using reads_updates(11) [OF s1(1)] s1(2,3) assms(1) by (simp add: header_rel_def)
    then show ?thesis
      using Some assms(2) ca by (simp add: strstr_terminated)
  qed
qed

lemma header_action_total:
  assumes "terminated name" and "terminated val"
  shows "ensures (header_action E name val s) (header_rel E pending sent s)"
proof -
  have cmp: "ensures (strncasecmp name (cstr x) 64) (\<lambda>r. True)" for x
    by (rule ensures_mono [OF strncasecmp_spec]) (use assms in auto)
  then obtain f where f: "strncasecmp name (cstr x) 64 = returns (f x)" for x
    unfolding ensures_def by metis
  obtain a where a: "accept_loop [0..<ATTOHTTP_MIME_TYPES] val (accept s) = returns a"
    by (rule ensuresE [OF accept_loop_total [OF assms(2)]])
  obtain t where t: "contenttype_loop [0..<ATTOHTTP_MIME_TYPES] val (contenttype s) = returns t"
    by (rule ensuresE [OF contenttype_loop_total [OF assms(2)]])
  have "header_set (s\<lparr>accept := a\<rparr>) s = s\<lparr>accept := a\<rparr>"
    "header_set (s\<lparr>contenttype := t\<rparr>) s = s\<lparr>contenttype := t\<rparr>"
    by (simp_all add: header_set_def)
  then have "header_rel E pending sent s (s\<lparr>accept := a\<rparr>)"
    "header_rel E pending sent s (s\<lparr>contenttype := t\<rparr>)"
    by (simp_all add: header_rel_def)
  then show ?thesis
    using authorization_loop_total [OF _ assms(2), of "[0..<ATTOHTTP_AUTH_TYPES]" s] a t
    by (simp add: header_action_def f del: ATTOHTTP_MIME_TYPES_def ATTOHTTP_AUTH_TYPES_def
        upt_rec_numeral upt_conv_Cons upt_0 upt_Suc)
qed

text \<open>
  The header loop ends: each turn that goes on has made the transport deliver a byte. It works
  with any contents of the two buffers.
\<close>

lemma ParseHeaders_loop_total:
  assumes "length name = 64" and "length val = 64" and "ret = 1 \<or> ret = 0"
  shows "ensures (attoHTTPParseHeaders_loop E ret name val s) (\<lambda>(ret', s').
    header_rel E pending sent s s' \<and> (ret' = 1 \<or> ret' = 0))"
  using assms
proof (induction "2 * left s + nat ret" arbitrary: ret name val s rule: less_induct)
  case less
  show ?case
  proof (cases "\<not> headersDone s \<and> ret = 1")
    case True
    obtain r1 n1 v1 s1 where ph: "attoHTTPParseHeader E name 64 val 64 s = returns (r1, n1, v1, s1)"
      and s1: "rds (s\<lparr>headersDone := headersDone s1\<rparr>) s1" "length n1 = 64" "length v1 = 64"
        "terminated n1" "terminated v1" "r1 = 1 \<and> left s1 < left s \<or> r1 = 0"
      using ParseHeader_total [OF less.prems(1,2), of s] by (auto elim!: ensuresE)
    obtain s2 where ha: "header_action E n1 v1 s1 = returns s2" and s2: "header_rel E pending sent s1 s2"
      using header_action_total [OF s1(4,5)] by (auto elim: ensuresE)
    have r: "header_rel E pending sent s s2"
      by (rule header_rel_trans [OF header_rel_reads [OF s1(1)] s2])
    have "left s2 \<le> left s" "left s2 \<le> left s1"
      using header_rel_unread [OF s2] reads_unread [OF s1(1)] by simp_all
    then have "2 * left s2 + nat r1 < 2 * left s + nat ret"
      using s1(6) True by auto
    from less.hyps [OF this s1(2,3)] s1(6)
    have "ensures (attoHTTPParseHeaders_loop E r1 n1 v1 s2) (\<lambda>(ret', s').
        header_rel E pending sent s2 s' \<and> (ret' = 1 \<or> ret' = 0))" by blast
    then have "ensures (attoHTTPParseHeaders_loop E r1 n1 v1 s2) (\<lambda>(ret', s').
        header_rel E pending sent s s' \<and> (ret' = 1 \<or> ret' = 0))"
      by (rule ensures_mono) (auto intro: header_rel_trans [OF r])
    then show ?thesis
      using True by (simp add: attoHTTPParseHeaders_loop.simps [of E 1 name] ph ha)
  next
    case False
    with less.prems(3) show ?thesis
      by (auto simp: attoHTTPParseHeaders_loop.simps [of E ret])
  qed
qed

lemma ParseHeaders_total:
  "ensures (attoHTTPParseHeaders E s) (\<lambda>(ret, s').
     header_rel E pending sent s s' \<and> (ret = 1 \<or> ret = 0))"
  unfolding attoHTTPParseHeaders_def by (rule ParseHeaders_loop_total) simp_all

end

end
