(* ===== verification/Output.thy ===== *)
theory Output
  imports ByteChannel
begin

text \<open>
  The functions of \<^verbatim>\<open>src/src/attohttp.c\<close> that write to the client: \<^verbatim>\<open>attoHTTPwrite\<close>,
  \<^verbatim>\<open>attoHTTPprint\<close>, \<^verbatim>\<open>attoHTTPvprintf\<close>, the status line, the three kinds of headers, the
  401 message and \<^verbatim>\<open>attoHTTPSendEvent\<close>.
\<close>

section \<open>Definitions\<close>

fun attoHTTPwrite_loop ::
    "'io env \<Rightarrow> string \<Rightarrow> nat \<Rightarrow> 32 word \<Rightarrow> 'io http \<Rightarrow> (32 word \<times> 'io http) run" where
  "attoHTTPwrite_loop E buffer 0 ret s = returns (ret, s)"
| "attoHTTPwrite_loop E [] (Suc len) ret s = faults OutOfBounds"
| "attoHTTPwrite_loop E (c # buffer) (Suc len) ret s =
     rbind (attoHTTPWriteC E c s) (\<lambda>(r, s).
       attoHTTPwrite_loop E buffer len (ret + word_of_int r) s)"

definition attoHTTPwrite ::
    "'io env \<Rightarrow> string \<Rightarrow> 32 word \<Rightarrow> 'io http \<Rightarrow> (32 word \<times> 'io http) run" where
  "attoHTTPwrite E buffer len s = attoHTTPwrite_loop E buffer (unat len) 0 s"

text \<open>
  \<^verbatim>\<open>vsnprintf\<close> writes at most \<^verbatim>\<open>sizeof(buffer) - 1\<close> bytes and a terminator and returns the
  length of the whole text; the rest of the buffer keeps its indeterminate bytes.
\<close>

definition attoHTTPvprintf ::
    "'io env \<Rightarrow> string \<Rightarrow> fmtarg list \<Rightarrow> 'io http \<Rightarrow> (16 word \<times> 'io http) run" where
  "attoHTTPvprintf E fmt ap s =
     (let n = ATTOHTTP_PRINTF_BUFFER_SIZE; t = format fmt ap in
      rbind (snprintf (uninit E vprintf_buffer n s) n t) (\<lambda>buffer.
      let count = of_nat (length t) :: 16 word in
      rbind (if count = of_nat n
             then rbind (store buffer (n - 1) NUL) (\<lambda>buffer. returns (count - 1, buffer))
             else returns (count, buffer)) (\<lambda>(count, buffer).
      rbind (attoHTTPwrite E buffer (ucast count) s) (\<lambda>(r, s). returns (ucast r, s)))))"

definition attoHTTPprintf ::
    "'io env \<Rightarrow> string \<Rightarrow> fmtarg list \<Rightarrow> 'io http \<Rightarrow> (16 word \<times> 'io http) run" where
  "attoHTTPprintf E fmt ap s =
     rbind (attoHTTPvprintf E fmt ap s) (\<lambda>(count, s). returns (count, s))"

definition attoHTTPprint ::
    "'io env \<Rightarrow> string \<Rightarrow> 'io http \<Rightarrow> (32 word \<times> 'io http) run" where
  "attoHTTPprint E buffer s =
     rbind (strlen buffer) (\<lambda>n. attoHTTPwrite E buffer (of_nat n) s)"

definition status_text :: "16 word \<Rightarrow> string option" where
  "status_text code =
     (if code = 200 then Some ''OK''
      else if code = 202 then Some ''Accepted''
      else if code = 400 then Some ''Bad Request''
      else if code = 401 then Some ''Unauthorized''
      else if code = 404 then Some ''Not Found''
      else if code = 501 then Some ''Not Implemented''
      else None)"

definition attoHTTPFirstLine ::
    "'io env \<Rightarrow> 16 word \<Rightarrow> 'io http \<Rightarrow> (16 word \<times> 'io http) run" where
  "attoHTTPFirstLine E code s =
     (if \<not> firstlineSent s then
        let s = s\<lparr>firstlineSent := True\<rparr>;
            (code, str, s) =
              (case status_text code of
                 Some t \<Rightarrow> (code, t, s)
               | None \<Rightarrow> (500, ''Internal Error'', s\<lparr>returnCode := STATUS_INTERNAL_ERROR\<rparr>))
        in attoHTTPprintf E (HTTP_VERSION @ '' %d %s'' @ HTTPEOL)
             [ArgD (uint code), ArgS (cstr str)] s
      else returns (0, s))"

definition attoHTTPSendHeaders :: "'io env \<Rightarrow> 'io http \<Rightarrow> (16 word \<times> 'io http) run" where
  "attoHTTPSendHeaders E s =
     rbind (if \<not> firstlineSent s
            then rbind (attoHTTPFirstLine E (returncode_value (returnCode s)) s)
                   (\<lambda>(_, s). returns s)
            else returns s) (\<lambda>s.
     if \<not> headersSent s then
       rbind (attoHTTPprintf E (''Content-Type: %s; charset=utf-8'' @ HTTPEOL)
                [ArgS (cstr (mimetypes (contenttype s)))] s) (\<lambda>(n1, s).
       rbind (if contentlength s > 0
              then attoHTTPprintf E (''Content-Length: %d'' @ HTTPEOL)
                     [ArgD (sint (contentlength s))] s
              else returns (0, s)) (\<lambda>(n2, s).
       rbind (if gzipPages E then attoHTTPprint E (cstr (''Content-Encoding: gzip'' @ HTTPEOL)) s
              else returns (0, s)) (\<lambda>(n3, s).
       rbind (attoHTTPprint E (cstr HTTPEOL) s) (\<lambda>(n4, s).
       returns (n1 + n2 + ucast n3 + ucast n4, s\<lparr>headersSent := True\<rparr>)))))
     else returns (0, s))"

text \<open>The \<^verbatim>\<open>type\<close> and \<^verbatim>\<open>headers\<close> arguments are the caller's buffers.\<close>

definition attoHTTPRESTSendHeaders ::
    "'io env \<Rightarrow> 16 word \<Rightarrow> string \<Rightarrow> string option \<Rightarrow> 'io http \<Rightarrow> (16 word \<times> 'io http) run" where
  "attoHTTPRESTSendHeaders E code type headers s =
     rbind (if \<not> firstlineSent s
            then rbind (attoHTTPFirstLine E code s) (\<lambda>(_, s). returns s)
            else returns s) (\<lambda>s.
     if \<not> headersSent s then
       rbind (attoHTTPprintf E (''Content-Type: %s; charset=utf-8'' @ HTTPEOL) [ArgS type] s)
         (\<lambda>(n1, s).
       rbind (case headers of Some h \<Rightarrow> attoHTTPprint E h s | None \<Rightarrow> returns (0, s)) (\<lambda>(n2, s).
       rbind (attoHTTPprint E (cstr HTTPEOL) s) (\<lambda>(n3, s).
       returns (n1 + ucast n2 + ucast n3, s\<lparr>headersSent := True\<rparr>))))
     else returns (0, s))"

definition attoHTTPSendServerSentEventHeaders ::
    "'io env \<Rightarrow> 'io http \<Rightarrow> (16 word \<times> 'io http) run" where
  "attoHTTPSendServerSentEventHeaders E s =
     rbind (attoHTTPFirstLine E (returncode_value STATUS_OK) s) (\<lambda>(_, s).
     rbind (attoHTTPprintf E (''Content-Type: %s'' @ HTTPEOL)
              [ArgS (cstr (mimetypes TEXT_EVENTSTREAM))] s) (\<lambda>(n1, s).
     rbind (attoHTTPprint E (cstr (''Cache-Control: no-cache'' @ HTTPEOL)) s) (\<lambda>(n2, s).
     rbind (attoHTTPprint E (cstr HTTPEOL) s) (\<lambda>(n3, s).
     returns (n1 + ucast n2 + ucast n3,
       s\<lparr>returnCode := STATUS_SERVERSENTEVENTS, headersSent := True\<rparr>)))))"

definition attoHTTPSendAuthMessage ::
    "'io env \<Rightarrow> string option \<Rightarrow> 'io http \<Rightarrow> (32 word \<times> 'io http) run" where
  "attoHTTPSendAuthMessage E headers s =
     rbind (if \<not> firstlineSent s
            then rbind (attoHTTPFirstLine E (returncode_value STATUS_UNAUTHORIZED) s)
                   (\<lambda>(_, s). returns s)
            else returns s) (\<lambda>s.
     if \<not> headersSent s then
       let realm = ArgS (cstr ATTOHTTP_AUTH_REALM) in
       rbind (case authMode E of
                NO_AUTH \<Rightarrow> returns (0, s)
              | BASIC_BUILD \<Rightarrow>
                  rbind (attoHTTPprintf E (''WWW-Authenticate: Basic realm=\"%s\"'' @ HTTPEOL)
                    [realm] s) (\<lambda>(n, s). returns (ucast n, s))
              | DIGEST_BUILD \<Rightarrow>
                  rbind (attoHTTPprintf E ''WWW-Authenticate: Digest realm=\"%s\",'' [realm] s)
                    (\<lambda>(n1, s).
                  rbind (attoHTTPprintf E ''qop=\"auth,auth-int\",'' [] s) (\<lambda>(n2, s).
                  rbind (attoHTTPprintf E ''nonce=\"%s\",'' [realm] s) (\<lambda>(n3, s).
                  rbind (attoHTTPprintf E (''opaque=\"%s\"'' @ HTTPEOL) [realm] s) (\<lambda>(n4, s).
                  returns (ucast n1 + ucast n2 + ucast n3 + ucast n4, s)))))) (\<lambda>(n1, s).
       rbind (case headers of Some h \<Rightarrow> attoHTTPprint E h s | None \<Rightarrow> returns (0, s)) (\<lambda>(n2, s).
       rbind (attoHTTPprint E (cstr HTTPEOL) s) (\<lambda>(n3, s).
       let s = s\<lparr>headersSent := True\<rparr> in
       rbind (attoHTTPprint E (cstr ATTOHTTP_AUTH_ERROR_MSG) s) (\<lambda>(n4, s).
       returns (n1 + n2 + n3 + n4, s)))))
     else returns (0, s))"

text \<open>
  \<^verbatim>\<open>attoHTTPSendEvent\<close> writes to the handle it is given, not to the connection's, and adds the
  return values of \<^verbatim>\<open>attoHTTPSetByte\<close> as they are.
\<close>

fun send_bytes :: "'io env \<Rightarrow> handle \<Rightarrow> string \<Rightarrow> nat \<Rightarrow> 16 word \<Rightarrow> 'io \<Rightarrow> (16 word \<times> 'io) run" where
  "send_bytes E h buffer 0 ret i = returns (ret, i)"
| "send_bytes E h [] (Suc n) ret i = faults OutOfBounds"
| "send_bytes E h (c # buffer) (Suc n) ret i =
     rbind (setByte E h c i) (\<lambda>(r, i). send_bytes E h buffer n (ret + word_of_int r) i)"

definition attoHTTPSendEvent ::
    "'io env \<Rightarrow> handle \<Rightarrow> string \<Rightarrow> 16 word \<Rightarrow> string \<Rightarrow> 16 word \<Rightarrow> 'io \<Rightarrow> (16 word \<times> 'io) run" where
  "attoHTTPSendEvent E h event elen data dlen i =
     rbind (if elen > 0 then
              rbind (send_bytes E h ''event:'' 6 0 i) (\<lambda>(ret, i).
              rbind (send_bytes E h event (unat elen) ret i) (\<lambda>(ret, i).
              send_bytes E h [LF] 1 ret i))
            else returns (0, i)) (\<lambda>(ret, i).
     rbind (if dlen > 0 then
              rbind (send_bytes E h ''data:'' 5 ret i) (\<lambda>(ret, i).
              rbind (send_bytes E h data (unat dlen) ret i) (\<lambda>(ret, i).
              send_bytes E h [LF] 1 ret i))
            else returns (ret, i)) (\<lambda>(ret, i).
     send_bytes E h [LF] 1 ret i))"

section \<open>What is sent\<close>

text \<open>\<open>sends p w x s s'\<close>: the bytes \<open>x\<close> go to the client and nothing else happens.\<close>

definition sends ::
    "(handle \<Rightarrow> 'io \<Rightarrow> string) \<Rightarrow> (handle \<Rightarrow> 'io \<Rightarrow> string) \<Rightarrow> string \<Rightarrow> 'io http \<Rightarrow> 'io http \<Rightarrow> bool" where
  "sends p w x s s' \<longleftrightarrow> s' = s\<lparr>io := io s'\<rparr> \<and> (\<forall>g. p g (io s') = p g (io s)) \<and>
     w (write_h s) (io s') = w (write_h s) (io s) @ x"

lemma sends_Nil [simp]: "sends p w [] s s"
  by (simp add: sends_def)

lemma sends_trans: "sends p w x s t \<Longrightarrow> sends p w y t u \<Longrightarrow> sends p w (x @ y) s u"
  unfolding sends_def by (cases s; cases t; cases u) auto

lemma sends_fields:
  assumes "sends p w x s s'"
  shows "firstlineSent s' = firstlineSent s" "headersSent s' = headersSent s"
    "returnCode s' = returnCode s" "contenttype s' = contenttype s"
    "contentlength s' = contentlength s" "write_h s' = write_h s" "read_h s' = read_h s"
    "http_method s' = http_method s" "url s' = url s" "url_len s' = url_len s" "pages s' = pages s"
    "defaultPage s' = defaultPage s" "ssePage s' = ssePage s" "extra_c s' = extra_c s"
    "defaultCallback s' = defaultCallback s" "url_params s' = url_params s"
    "url_params_start s' = url_params_start s" "authenticated s' = authenticated s"
  using assms unfolding sends_def by (cases s; cases s'; simp)+

lemma sends_updates:
  assumes "sends p w x s s'"
  shows "sends p w x (s\<lparr>firstlineSent := a\<rparr>) (s'\<lparr>firstlineSent := a\<rparr>)"
    and "sends p w x (s\<lparr>headersSent := a\<rparr>) (s'\<lparr>headersSent := a\<rparr>)"
    and "sends p w x (s\<lparr>returnCode := c\<rparr>) (s'\<lparr>returnCode := c\<rparr>)"
    and "sends p w x (s\<lparr>contenttype := m\<rparr>) (s'\<lparr>contenttype := m\<rparr>)"
    and "sends p w x (s\<lparr>contentlength := n\<rparr>) (s'\<lparr>contentlength := n\<rparr>)"
  using assms unfolding sends_def by (cases s; cases s'; simp)+

lemma show_nat_length: "0 < k \<Longrightarrow> n < 10 ^ k \<Longrightarrow> length (show_nat n) \<le> k"
proof (induction n arbitrary: k rule: show_nat.induct)
  case (1 n)
  show ?case
  proof (cases "n < 10")
    case False
    then obtain j where k: "k = Suc j" "0 < j"
      using 1(2,3) by (cases k; cases "k - 1") auto
    then have "length (show_nat (n div 10)) \<le> j"
      using 1(1) [OF False, of j] 1(3) by (simp add: less_mult_imp_div_less mult.commute)
    with False k show ?thesis by (simp add: show_nat.simps [of n])
  qed (use 1 in \<open>simp add: show_nat.simps [of n]\<close>)
qed

lemma show_int_length: "\<bar>i\<bar> < 10 ^ k \<Longrightarrow> 0 < k \<Longrightarrow> length (show_int i) \<le> k + 1"
  using show_nat_length [of k "nat \<bar>i\<bar>"] by (auto simp: show_int_def nat_less_iff)

context byte_channel
begin

abbreviation snds :: "string \<Rightarrow> 'io http \<Rightarrow> 'io http \<Rightarrow> bool" where "snds \<equiv> sends pending sent"

lemma WriteC_sends:
  obtains s' where "attoHTTPWriteC E c s = returns (1, s')" and "snds [c] s s'"
  using setByte_sends [of "write_h s" c "io s"]
  by (auto simp: attoHTTPWriteC_def sends_def)

lemma write_loop_sends:
  "n \<le> length buffer \<Longrightarrow> \<exists>s'. attoHTTPwrite_loop E buffer n ret s = returns (ret + of_nat n, s') \<and>
     snds (take n buffer) s s'"
proof (induction n arbitrary: buffer ret s)
  case (Suc n)
  then obtain c cs where b: "buffer = c # cs" "n \<le> length cs" by (cases buffer) auto
  obtain s1 where s1: "attoHTTPWriteC E c s = returns (1, s1)" "snds [c] s s1"
    by (rule WriteC_sends)
  obtain s2 where s2: "attoHTTPwrite_loop E cs n (ret + 1) s1 = returns (ret + 1 + of_nat n, s2)"
    "snds (take n cs) s1 s2"
    using Suc.IH [OF b(2)] by blast
  have "snds (take (Suc n) buffer) s s2"
    using sends_trans [OF s1(2) s2(2)] b by simp
  with s1 s2 b show ?case by (simp add: algebra_simps)
qed simp

text \<open>Writing sends exactly the bytes it is given, and reports how many.\<close>

lemma write_sends:
  assumes "unat len \<le> length buffer"
  shows "\<exists>s'. attoHTTPwrite E buffer len s = returns (len, s') \<and> snds (take (unat len) buffer) s s'"
  using write_loop_sends [OF assms, of 0 s] by (auto simp: attoHTTPwrite_def)

text \<open>Writing more than the object holds reads past its end.\<close>

lemma write_overread:
  assumes "length buffer < unat len"
  shows "attoHTTPwrite E buffer len s = faults OutOfBounds"
proof -
  have "attoHTTPwrite_loop E buffer n ret s = faults OutOfBounds" if "length buffer < n" for n ret
    using that
  proof (induction n arbitrary: buffer ret s)
    case (Suc n)
    show ?case
    proof (cases buffer)
      case (Cons c cs)
      obtain s1 where "attoHTTPWriteC E c s = returns (1, s1)" by (rule WriteC_sends)
      with Cons Suc show ?thesis by simp
    qed simp
  qed simp
  with assms show ?thesis by (simp add: attoHTTPwrite_def)
qed

lemma print_sends:
  assumes "terminated b" and "length (strz b) < 2 ^ 32"
  shows "\<exists>s'. attoHTTPprint E b s = returns (of_nat (length (strz b)), s') \<and> snds (strz b) s s'"
proof -
  have u: "unat (of_nat (length (strz b)) :: 32 word) = length (strz b)"
    using assms(2) by (simp add: unat_of_nat_small)
  have "take (length (strz b)) b = strz b"
    by (simp add: strz_def takeWhile_eq_take [symmetric])
  moreover have "length (strz b) \<le> length b" by (rule length_strz_le)
  ultimately show ?thesis
    using write_sends [of "of_nat (length (strz b))" b s]
    by (auto simp: attoHTTPprint_def strlen_terminated assms(1) u)
qed

text \<open>
  Formatted output up to 127 bytes is sent as it is; a text of 128 bytes loses its last byte;
  a longer one makes the function read past the end of its buffer.
\<close>

lemma vprintf_sends:
  assumes "length (format fmt ap) \<le> 128"
  obtains s' where "attoHTTPvprintf E fmt ap s = returns (of_nat (min 127 (length (format fmt ap))), s')"
    and "snds (take 127 (format fmt ap)) s s'"
proof -
  let ?t = "format fmt ap" and ?b = "uninit E vprintf_buffer 128 s"
  let ?n = "min (length ?t) 127"
  have sn: "snprintf ?b 128 ?t = returns (take 127 ?t @ NUL # drop (Suc ?n) ?b)"
    by (simp add: snprintf_def min_def)
  have u: "unat (of_nat n :: 16 word) = n" if "n \<le> 128" for n
    using that by (simp add: unat_of_nat_small)
  have c: "(of_nat (length ?t) :: 16 word) = 128 \<longleftrightarrow> length ?t = 128"
    using u [OF assms] by (simp add: word_unat_eq_iff)
  let ?buf = "take 127 ?t @ NUL # drop (Suc ?n) ?b"
  have c1: "(of_nat 128 :: 16 word) - 1 = of_nat 127" by simp
  show ?thesis
  proof (cases "length ?t = 128")
    case True
    obtain s' where "attoHTTPwrite E (?buf[127 := NUL]) (ucast (of_nat 127 :: 16 word)) s
        = returns (ucast (of_nat 127 :: 16 word), s')"
      and "snds (take 127 (?buf[127 := NUL])) s s'"
      using write_sends [of "ucast (of_nat 127 :: 16 word)" "?buf[127 := NUL]" s] u [of 127] True
      by auto
    with True show ?thesis
      by (intro that [of s']) (simp_all add: attoHTTPvprintf_def sn list_update_append)
  next
    case False
    with assms have le: "length ?t \<le> 127" by simp
    obtain s' where "attoHTTPwrite E ?buf (ucast (of_nat (length ?t) :: 16 word)) s
        = returns (ucast (of_nat (length ?t) :: 16 word), s')"
      and "snds (take (length ?t) ?buf) s s'"
      using write_sends [of "ucast (of_nat (length ?t) :: 16 word)" ?buf s] u [of "length ?t"] le
      by auto
    then show ?thesis
      using le False c by (intro that [of s']) (simp_all add: attoHTTPvprintf_def sn Let_def)
  qed
qed

lemma vprintf_overread:
  assumes "128 < length (format fmt ap)" and "length (format fmt ap) < 2 ^ 16"
  shows "attoHTTPvprintf E fmt ap s = faults OutOfBounds"
proof -
  let ?t = "format fmt ap" and ?b = "uninit E vprintf_buffer 128 s"
  have sn: "snprintf ?b 128 ?t = returns (take 127 ?t @ NUL # drop (Suc 127) ?b)"
    using assms by (simp add: snprintf_def min_def)
  have u: "unat (of_nat (length ?t) :: 16 word) = length ?t"
    using assms by (simp add: unat_of_nat_small)
  then have c: "(of_nat (length ?t) :: 16 word) \<noteq> 128"
    using assms(1) by (auto simp: word_unat_eq_iff)
  from u assms have "attoHTTPwrite E (take 127 ?t @ NUL # drop (Suc 127) ?b)
      (ucast (of_nat (length ?t) :: 16 word)) s = faults OutOfBounds"
    by (intro write_overread) simp
  with c show ?thesis by (simp add: attoHTTPvprintf_def sn Let_def)
qed

lemma printf_sends:
  assumes "format fmt ap = t" and "length t \<le> 127"
  shows "\<exists>s'. attoHTTPprintf E fmt ap s = returns (of_nat (length t), s') \<and> snds t s s'"
proof -
  have "length (format fmt ap) \<le> 128" using assms by simp
  from vprintf_sends [OF this, of s] show ?thesis
    using assms by (auto simp: attoHTTPprintf_def min_def)
qed

end

section \<open>The text of a response\<close>

definition line :: "string \<Rightarrow> string" where
  "line x = x @ HTTPEOL"

text \<open>The code that is sent for a code, and its reason.\<close>

definition sent_status :: "16 word \<Rightarrow> 16 word \<times> string" where
  "sent_status code =
     (case status_text code of Some t \<Rightarrow> (code, t) | None \<Rightarrow> (500, ''Internal Error''))"

definition status_line :: "16 word \<Rightarrow> string" where
  "status_line code =
     (case sent_status code of (c, t) \<Rightarrow>
        line (''HTTP/1.0 '' @ show_int (uint c) @ '' '' @ t))"

definition content_type_line :: "string \<Rightarrow> string" where
  "content_type_line t = line (''Content-Type: '' @ t @ ''; charset=utf-8'')"

definition page_headers :: "mimetype \<Rightarrow> 32 word \<Rightarrow> bool \<Rightarrow> string" where
  "page_headers t len gz =
     content_type_line (mimetypes t) @
     (if len > 0 then line (''Content-Length: '' @ show_int (sint len)) else []) @
     (if gz then line ''Content-Encoding: gzip'' else []) @ HTTPEOL"

definition event_stream_headers :: string where
  "event_stream_headers =
     line ''Content-Type: text/event-stream'' @ line ''Cache-Control: no-cache'' @ HTTPEOL"

definition auth_headers :: "authmode \<Rightarrow> string" where
  "auth_headers m =
     (case m of
        NO_AUTH \<Rightarrow> []
      | BASIC_BUILD \<Rightarrow> line (''WWW-Authenticate: Basic realm=\"attoHTTP Server\"'')
      | DIGEST_BUILD \<Rightarrow> line (''WWW-Authenticate: Digest realm=\"attoHTTP Server\",'' @
          ''qop=\"auth,auth-int\",nonce=\"attoHTTP Server\",opaque=\"attoHTTP Server\"''))"

lemma sent_status_length: "length (snd (sent_status code)) \<le> 15"
  by (auto simp: sent_status_def status_text_def)

lemma uint_word_length: "length (show_int (uint (w :: 16 word))) \<le> 6"
  using uint_lt2p [of w] by (intro show_int_length [of _ 5, simplified]) auto

lemma sint_word_length: "length (show_int (sint (w :: 32 word))) \<le> 11"
  using sint_range_size [of w] by (intro show_int_length [of _ 10, simplified]) (auto simp: word_size)

lemma format_status_line:
  assumes "NUL \<notin> set t"
  shows "format (HTTP_VERSION @ '' %d %s'' @ HTTPEOL) [ArgD (uint c), ArgS (cstr t)] =
    line (''HTTP/1.0 '' @ show_int (uint c) @ '' '' @ t)"
  using assms by (simp add: HTTP_VERSION_def HTTP_VERSION_1_0_def HTTPEOL_def format_conv_def line_def)

lemma format_content_type:
  "format (''Content-Type: %s; charset=utf-8'' @ HTTPEOL) [ArgS t] = content_type_line (strz t)"
  by (simp add: HTTPEOL_def format_conv_def line_def content_type_line_def)

lemma format_content_length:
  "format (''Content-Length: %d'' @ HTTPEOL) [ArgD i] = line (''Content-Length: '' @ show_int i)"
  by (simp add: HTTPEOL_def format_conv_def line_def)

lemma mimetypes_length: "length (mimetypes m) \<le> 33"
  by (simp add: mimetypes_short)

text \<open>The flags and the code after the first line was sent.\<close>

definition after_first_line :: "16 word \<Rightarrow> 'io http \<Rightarrow> 'io http" where
  "after_first_line code s = s\<lparr>firstlineSent := True,
     returnCode := (if status_text code = None then STATUS_INTERNAL_ERROR else returnCode s)\<rparr>"

text \<open>The status line is sent once: what a caller sends depends on whether it has been.\<close>

definition first_line_part :: "16 word \<Rightarrow> 'io http \<Rightarrow> string" where
  "first_line_part code s = (if firstlineSent s then [] else status_line code)"

definition first_line_state :: "16 word \<Rightarrow> 'io http \<Rightarrow> 'io http" where
  "first_line_state code s = (if firstlineSent s then s else after_first_line code s)"

definition auth_message :: "authmode \<Rightarrow> string option \<Rightarrow> string" where
  "auth_message m headers =
     auth_headers m @ (case headers of Some h \<Rightarrow> strz h | None \<Rightarrow> []) @ HTTPEOL @ ATTOHTTP_AUTH_ERROR_MSG"

text \<open>The text of an event: an optional \<^verbatim>\<open>event:\<close> line, an optional \<^verbatim>\<open>data:\<close> line, an empty line.\<close>

definition event_text :: "string \<Rightarrow> string \<Rightarrow> string" where
  "event_text e d =
     (if e = [] then [] else ''event:'' @ e @ [LF]) @
     (if d = [] then [] else ''data:'' @ d @ [LF]) @ [LF]"

context byte_channel
begin

lemma FirstLine_sends:
  assumes "\<not> firstlineSent s"
  obtains n s' where "attoHTTPFirstLine E code s = returns (n, s')"
    and "snds (status_line code) (after_first_line code s) s'"
proof -
  obtain c t where ct: "sent_status code = (c, t)" by (cases "sent_status code")
  have nn: "NUL \<notin> set t" and len: "length t \<le> 15"
    using ct sent_status_length [of code] by (auto simp: sent_status_def status_text_def split: if_splits)
  have "length (line (''HTTP/1.0 '' @ show_int (uint c) @ '' '' @ t)) \<le> 127"
    using len uint_word_length [of c] by (simp add: line_def HTTPEOL_def)
  from printf_sends [OF format_status_line [OF nn] this, of "after_first_line code s"]
  obtain n s' where s': "attoHTTPprintf E (HTTP_VERSION @ '' %d %s'' @ HTTPEOL)
      [ArgD (uint c), ArgS (cstr t)] (after_first_line code s) = returns (n, s')"
    "snds (status_line code) (after_first_line code s) s'"
    unfolding status_line_def ct prod.case by blast
  show ?thesis
  proof (cases "status_text code")
    case None
    with ct have [simp]: "c = 500" "t = ''Internal Error''" by (simp_all add: sent_status_def)
    have "attoHTTPFirstLine E code s = attoHTTPprintf E (HTTP_VERSION @ '' %d %s'' @ HTTPEOL)
      [ArgD (uint c), ArgS (cstr t)] (after_first_line code s)"
      using assms None by (simp add: attoHTTPFirstLine_def after_first_line_def Let_def)
    with s' show ?thesis by (intro that) simp_all
  next
    case (Some x)
    with ct have [simp]: "c = code" "t = x" by (simp_all add: sent_status_def)
    have "attoHTTPFirstLine E code s = attoHTTPprintf E (HTTP_VERSION @ '' %d %s'' @ HTTPEOL)
      [ArgD (uint c), ArgS (cstr t)] (after_first_line code s)"
      using assms Some by (simp add: attoHTTPFirstLine_def after_first_line_def Let_def)
    with s' show ?thesis by (intro that) simp_all
  qed
qed

lemma FirstLine_again:
  "firstlineSent s \<Longrightarrow> attoHTTPFirstLine E code s = returns (0, s)"
  by (simp add: attoHTTPFirstLine_def)

lemma print_literal:
  "NUL \<notin> set x \<Longrightarrow> length x < 2 ^ 32 \<Longrightarrow>
   \<exists>n s'. attoHTTPprint E (cstr x) s = returns (n, s') \<and> snds x s s'"
  using print_sends [of "cstr x" s] by auto

lemma print_optional:
  assumes "\<And>h. headers = Some h \<Longrightarrow> terminated h \<and> length (strz h) < 2 ^ 32"
  shows "\<exists>n s'. (case headers of Some h \<Rightarrow> attoHTTPprint E h s | None \<Rightarrow> returns (0, s)) = returns (n, s') \<and>
    snds (case headers of Some h \<Rightarrow> strz h | None \<Rightarrow> []) s s'"
proof (cases headers)
  case None
  show ?thesis by (rule exI [of _ 0], rule exI [of _ s]) (simp add: None)
next
  case (Some h)
  with assms [OF Some] print_sends [of h s] show ?thesis by auto
qed

lemma first_line_once:
  "\<exists>s'. (if \<not> firstlineSent s then rbind (attoHTTPFirstLine E code s) (\<lambda>(_, s). returns s)
        else returns s) = returns s' \<and>
     snds (first_line_part code s) (first_line_state code s) s'"
proof (cases "firstlineSent s")
  case False
  then obtain n s' where "attoHTTPFirstLine E code s = returns (n, s')"
    "snds (status_line code) (after_first_line code s) s'"
    by (rule FirstLine_sends)
  with False show ?thesis by (simp add: first_line_part_def first_line_state_def)
qed (simp add: first_line_part_def first_line_state_def)

lemma SendHeaders_sends:
  fixes s :: "'io http"
  defines "v \<equiv> returncode_value (returnCode s)"
  shows "\<exists>n s'. attoHTTPSendHeaders E s = returns (n, s') \<and>
    snds (first_line_part v s @ (if headersSent s then []
        else page_headers (contenttype s) (contentlength s) (gzipPages E)))
      (first_line_state v s\<lparr>headersSent := True\<rparr>) s'"
proof -
  obtain s1 where s1: "(if \<not> firstlineSent s then rbind (attoHTTPFirstLine E v s) (\<lambda>(_, s). returns s)
      else returns s) = returns s1" "snds (first_line_part v s) (first_line_state v s) s1"
    using first_line_once [of s v] by blast
  have f: "headersSent s1 = headersSent s" "contenttype s1 = contenttype s"
    "contentlength s1 = contentlength s"
    using sends_fields [OF s1(2)] by (auto simp: first_line_state_def after_first_line_def)
  show ?thesis
  proof (cases "headersSent s")
    case True
    then have "headersSent (first_line_state v s)"
      by (simp add: first_line_state_def after_first_line_def)
    then have "(first_line_state v s)\<lparr>headersSent := True\<rparr> = first_line_state v s"
      by (cases "first_line_state v s") simp
    with True f s1(2) show ?thesis
      unfolding attoHTTPSendHeaders_def v_def [symmetric] s1(1) rbind_simps by simp
  next
    case False
    have mt: "length (content_type_line (strz (cstr (mimetypes m)))) \<le> 127" for m
      using mimetypes_length [of m] by (simp add: content_type_line_def line_def HTTPEOL_def)
    have cl: "length (line (''Content-Length: '' @ show_int (sint w))) \<le> 127" for w :: "32 word"
      using sint_word_length [of w] by (simp add: line_def HTTPEOL_def)
    obtain n2 s2 where s2: "attoHTTPprintf E (''Content-Type: %s; charset=utf-8'' @ HTTPEOL)
        [ArgS (cstr (mimetypes (contenttype s)))] s1 = returns (n2, s2)"
      "snds (content_type_line (mimetypes (contenttype s))) s1 s2"
      using printf_sends [OF format_content_type mt, of "contenttype s" s1] by auto
    obtain n3 s3 where s3: "(if contentlength s > 0
        then attoHTTPprintf E (''Content-Length: %d'' @ HTTPEOL) [ArgD (sint (contentlength s))] s2
        else returns (0, s2)) = returns (n3, s3)"
      "snds (if contentlength s > 0 then line (''Content-Length: '' @ show_int (sint (contentlength s)))
        else []) s2 s3"
    proof (cases "contentlength s > 0")
      case True
      show thesis
        by (rule exE [OF printf_sends [OF format_content_length cl, of "contentlength s" s2]],
            erule conjE, rule that) (simp_all only: True if_True)
    qed (use that in simp)
    obtain n4 s4 where s4: "(if gzipPages E
        then attoHTTPprint E (cstr (''Content-Encoding: gzip'' @ HTTPEOL)) s3
        else returns (0, s3)) = returns (n4, s4)"
      "snds (if gzipPages E then line ''Content-Encoding: gzip'' else []) s3 s4"
      using print_literal [of "line ''Content-Encoding: gzip''" s3] that
      by (cases "gzipPages E") (auto simp: line_def HTTPEOL_def)
    obtain n5 s5 where s5: "attoHTTPprint E (cstr HTTPEOL) s4 = returns (n5, s5)" "snds HTTPEOL s4 s5"
      using print_literal [of HTTPEOL s4] by (auto simp: HTTPEOL_def)
    have c2: "contentlength s2 = contentlength s" using sends_fields(5) [OF s2(2)] f by simp
    have "attoHTTPSendHeaders E s = returns (n2 + n3 + ucast n4 + ucast n5, s5\<lparr>headersSent := True\<rparr>)"
      unfolding attoHTTPSendHeaders_def v_def [symmetric] s1(1) rbind_simps prod.case f False
        simp_thms if_True s2(1) c2 s3(1) s4(1) s5(1) by (simp add: False)
    moreover have "snds (first_line_part v s @ page_headers (contenttype s) (contentlength s) (gzipPages E))
        (first_line_state v s) s5"
      unfolding page_headers_def
      by (rule sends_trans [OF s1(2) sends_trans [OF s2(2) sends_trans [OF s3(2)
            sends_trans [OF s4(2) s5(2)]]]])
    ultimately show ?thesis
      using False by (auto intro: sends_updates)
  qed
qed

lemma RESTSendHeaders_sends:
  assumes "\<not> headersSent s" and "terminated type" and "length (strz type) \<le> 94"
    and "\<And>h. headers = Some h \<Longrightarrow> terminated h \<and> length (strz h) < 2 ^ 32"
  shows "\<exists>n s'. attoHTTPRESTSendHeaders E code type headers s = returns (n, s') \<and>
    snds (first_line_part code s @ content_type_line (strz type) @
        (case headers of Some h \<Rightarrow> strz h | None \<Rightarrow> []) @ HTTPEOL)
      (first_line_state code s\<lparr>headersSent := True\<rparr>) s'"
proof -
  obtain s1 where s1: "(if \<not> firstlineSent s then rbind (attoHTTPFirstLine E code s) (\<lambda>(_, s). returns s)
      else returns s) = returns s1" "snds (first_line_part code s) (first_line_state code s) s1"
    using first_line_once [of s code] by blast
  have f: "headersSent s1 = False"
    using sends_fields(2) [OF s1(2)] assms(1) by (auto simp: first_line_state_def after_first_line_def)
  have "length (content_type_line (strz type)) \<le> 127"
    using assms(3) by (simp add: content_type_line_def line_def HTTPEOL_def)
  from printf_sends [OF format_content_type this, of s1] obtain n2 s2 where
    s2: "attoHTTPprintf E (''Content-Type: %s; charset=utf-8'' @ HTTPEOL) [ArgS type] s1 = returns (n2, s2)"
      "snds (content_type_line (strz type)) s1 s2" by blast
  obtain n3 s3 where s3: "(case headers of Some h \<Rightarrow> attoHTTPprint E h s2 | None \<Rightarrow> returns (0, s2)) = returns (n3, s3)"
    "snds (case headers of Some h \<Rightarrow> strz h | None \<Rightarrow> []) s2 s3"
    using print_optional [OF assms(4), of headers s2] by blast
  obtain n4 s4 where s4: "attoHTTPprint E (cstr HTTPEOL) s3 = returns (n4, s4)" "snds HTTPEOL s3 s4"
    using print_literal [of HTTPEOL s3] by (auto simp: HTTPEOL_def)
  have "attoHTTPRESTSendHeaders E code type headers s
      = returns (n2 + ucast n3 + ucast n4, s4\<lparr>headersSent := True\<rparr>)"
    unfolding attoHTTPRESTSendHeaders_def s1(1) rbind_simps prod.case f not_False_eq_True if_True
      s2(1) s3(1) s4(1) ..
  with sends_updates(2) [OF sends_trans [OF s1(2) sends_trans [OF s2(2) sends_trans [OF s3(2) s4(2)]]],
      of True]
  show ?thesis by blast
qed

lemma SendServerSentEventHeaders_sends:
  "\<exists>n s'. attoHTTPSendServerSentEventHeaders E s = returns (n, s') \<and>
    snds (first_line_part 200 s @ event_stream_headers)
      (first_line_state 200 s\<lparr>returnCode := STATUS_SERVERSENTEVENTS, headersSent := True\<rparr>) s'"
proof -
  obtain n1 s1 where s1: "attoHTTPFirstLine E 200 s = returns (n1, s1)"
    "snds (first_line_part 200 s) (first_line_state 200 s) s1"
  proof (cases "firstlineSent s")
    case True
    then show thesis
      by (intro that [OF FirstLine_again]) (simp_all add: first_line_part_def first_line_state_def)
  next
    case False
    then show thesis
      by (rule FirstLine_sends [of s 200])
        (rule that, simp_all add: first_line_part_def first_line_state_def False)
  qed
  have fmt: "format (''Content-Type: %s'' @ HTTPEOL) [ArgS (cstr (mimetypes TEXT_EVENTSTREAM))]
      = line ''Content-Type: text/event-stream''"
    by (simp add: HTTPEOL_def format_conv_def line_def)
  have "length (line ''Content-Type: text/event-stream'') \<le> 127" by (simp add: line_def HTTPEOL_def)
  from printf_sends [OF fmt this, of s1] obtain n2 s2 where
    s2: "attoHTTPprintf E (''Content-Type: %s'' @ HTTPEOL) [ArgS (cstr (mimetypes TEXT_EVENTSTREAM))] s1
        = returns (n2, s2)" "snds (line ''Content-Type: text/event-stream'') s1 s2" by blast
  obtain n3 s3 where s3: "attoHTTPprint E (cstr (''Cache-Control: no-cache'' @ HTTPEOL)) s2 = returns (n3, s3)"
    "snds (line ''Cache-Control: no-cache'') s2 s3"
    using print_literal [of "line ''Cache-Control: no-cache''" s2] by (auto simp: line_def HTTPEOL_def)
  obtain n4 s4 where s4: "attoHTTPprint E (cstr HTTPEOL) s3 = returns (n4, s4)" "snds HTTPEOL s3 s4"
    using print_literal [of HTTPEOL s3] by (auto simp: HTTPEOL_def)
  have "attoHTTPSendServerSentEventHeaders E s = returns (n2 + ucast n3 + ucast n4,
      s4\<lparr>returnCode := STATUS_SERVERSENTEVENTS, headersSent := True\<rparr>)"
    unfolding attoHTTPSendServerSentEventHeaders_def returncode_value.simps s1(1) rbind_simps prod.case
      s2(1) s3(1) s4(1) ..
  moreover have "snds (first_line_part 200 s @ event_stream_headers) (first_line_state 200 s) s4"
    unfolding event_stream_headers_def
    by (rule sends_trans [OF s1(2) sends_trans [OF s2(2) sends_trans [OF s3(2) s4(2)]]])
  ultimately show ?thesis by (auto intro: sends_updates)
qed

lemma auth_part_sends:
  "\<exists>n s'. (case authMode E of
      NO_AUTH \<Rightarrow> returns (0, s)
    | BASIC_BUILD \<Rightarrow>
        rbind (attoHTTPprintf E (''WWW-Authenticate: Basic realm=\"%s\"'' @ HTTPEOL)
          [ArgS (cstr ATTOHTTP_AUTH_REALM)] s) (\<lambda>(n, s). returns (ucast n, s))
    | DIGEST_BUILD \<Rightarrow>
        rbind (attoHTTPprintf E ''WWW-Authenticate: Digest realm=\"%s\",'' [ArgS (cstr ATTOHTTP_AUTH_REALM)] s)
          (\<lambda>(n1, s).
        rbind (attoHTTPprintf E ''qop=\"auth,auth-int\",'' [] s) (\<lambda>(n2, s).
        rbind (attoHTTPprintf E ''nonce=\"%s\",'' [ArgS (cstr ATTOHTTP_AUTH_REALM)] s) (\<lambda>(n3, s).
        rbind (attoHTTPprintf E (''opaque=\"%s\"'' @ HTTPEOL) [ArgS (cstr ATTOHTTP_AUTH_REALM)] s) (\<lambda>(n4, s).
        returns (ucast n1 + ucast n2 + ucast n3 + ucast n4, s)))))) = returns (n :: 32 word, s') \<and>
    snds (auth_headers (authMode E)) s s'"
proof (cases "authMode E")
  case NO_AUTH
  show ?thesis by (rule exI [of _ 0], rule exI [of _ s]) (simp add: NO_AUTH auth_headers_def)
next
  case BASIC_BUILD
  have "format (''WWW-Authenticate: Basic realm=\"%s\"'' @ HTTPEOL) [ArgS (cstr ATTOHTTP_AUTH_REALM)]
      = auth_headers BASIC_BUILD"
    by (simp add: HTTPEOL_def format_conv_def line_def auth_headers_def ATTOHTTP_AUTH_REALM_def)
  from printf_sends [OF this, of s] show ?thesis
    by (auto simp: BASIC_BUILD auth_headers_def line_def HTTPEOL_def)
next
  case DIGEST_BUILD
  let ?r = "[ArgS (cstr ATTOHTTP_AUTH_REALM)]"
  have f1: "format ''WWW-Authenticate: Digest realm=\"%s\",'' ?r
      = ''WWW-Authenticate: Digest realm=\"attoHTTP Server\",''"
    and f2: "format ''qop=\"auth,auth-int\",'' [] = ''qop=\"auth,auth-int\",''"
    and f3: "format ''nonce=\"%s\",'' ?r = ''nonce=\"attoHTTP Server\",''"
    and f4: "format (''opaque=\"%s\"'' @ HTTPEOL) ?r = line ''opaque=\"attoHTTP Server\"''"
    by (simp_all add: HTTPEOL_def format_conv_def line_def ATTOHTTP_AUTH_REALM_def)
  obtain n1 s1 where 1: "attoHTTPprintf E ''WWW-Authenticate: Digest realm=\"%s\",'' ?r s = returns (n1, s1)"
    "snds ''WWW-Authenticate: Digest realm=\"attoHTTP Server\",'' s s1"
    using printf_sends [OF f1, of s] by auto
  obtain n2 s2 where 2: "attoHTTPprintf E ''qop=\"auth,auth-int\",'' [] s1 = returns (n2, s2)"
    "snds ''qop=\"auth,auth-int\",'' s1 s2"
    using printf_sends [OF f2, of s1] by auto
  obtain n3 s3 where 3: "attoHTTPprintf E ''nonce=\"%s\",'' ?r s2 = returns (n3, s3)"
    "snds ''nonce=\"attoHTTP Server\",'' s2 s3"
    using printf_sends [OF f3, of s2] by auto
  obtain n4 s4 where 4: "attoHTTPprintf E (''opaque=\"%s\"'' @ HTTPEOL) ?r s3 = returns (n4, s4)"
    "snds (line ''opaque=\"attoHTTP Server\"'') s3 s4"
    using printf_sends [OF f4, of s3] by (auto simp: line_def HTTPEOL_def)
  have "snds (auth_headers DIGEST_BUILD) s s4"
    using sends_trans [OF 1(2) sends_trans [OF 2(2) sends_trans [OF 3(2) 4(2)]]]
    by (simp add: auth_headers_def line_def)
  then show ?thesis
    by (simp add: DIGEST_BUILD 1(1) 2(1) 3(1) 4(1) [simplified])
qed

lemma SendAuthMessage_sends:
  assumes "\<And>h. headers = Some h \<Longrightarrow> terminated h \<and> length (strz h) < 2 ^ 32"
  shows "\<exists>n s'. attoHTTPSendAuthMessage E headers s = returns (n, s') \<and>
    snds (first_line_part 401 s @ (if headersSent s then [] else auth_message (authMode E) headers))
      (first_line_state 401 s\<lparr>headersSent := True\<rparr>) s'"
proof -
  obtain s1 where s1: "(if \<not> firstlineSent s then rbind (attoHTTPFirstLine E 401 s) (\<lambda>(_, s). returns s)
      else returns s) = returns s1" "snds (first_line_part 401 s) (first_line_state 401 s) s1"
    using first_line_once [of s 401] by blast
  have f: "headersSent s1 = headersSent s"
    using sends_fields(2) [OF s1(2)] by (auto simp: first_line_state_def after_first_line_def)
  show ?thesis
  proof (cases "headersSent s")
    case True
    then have "headersSent (first_line_state 401 s)"
      by (simp add: first_line_state_def after_first_line_def)
    then have "(first_line_state 401 s)\<lparr>headersSent := True\<rparr> = first_line_state 401 s"
      by (cases "first_line_state 401 s") simp
    with True f s1(2) show ?thesis
      unfolding attoHTTPSendAuthMessage_def returncode_value.simps s1(1) rbind_simps by simp
  next
    case False
    with f have hs: "headersSent s1 = False" by simp
    note ex = auth_part_sends [of s1]
    from ex obtain n2 s2 where s2: "attoHTTPSendAuthMessage E headers s =
        rbind (case headers of Some h \<Rightarrow> attoHTTPprint E h s2 | None \<Rightarrow> returns (0, s2)) (\<lambda>(n, s).
        rbind (attoHTTPprint E (cstr HTTPEOL) s) (\<lambda>(n3, s).
        let s = s\<lparr>headersSent := True\<rparr> in
        rbind (attoHTTPprint E (cstr ATTOHTTP_AUTH_ERROR_MSG) s) (\<lambda>(n4, s).
        returns (n2 + n + n3 + n4, s))))" "snds (auth_headers (authMode E)) s1 s2"
      unfolding attoHTTPSendAuthMessage_def returncode_value.simps s1(1) rbind_simps prod.case hs
        not_False_eq_True if_True Let_def
      by auto
    obtain n3 s3 where s3: "(case headers of Some h \<Rightarrow> attoHTTPprint E h s2 | None \<Rightarrow> returns (0, s2)) = returns (n3, s3)"
      "snds (case headers of Some h \<Rightarrow> strz h | None \<Rightarrow> []) s2 s3"
      using print_optional [OF assms, of headers s2] by blast
    obtain n4 s4 where s4: "attoHTTPprint E (cstr HTTPEOL) s3 = returns (n4, s4)" "snds HTTPEOL s3 s4"
      using print_literal [of HTTPEOL s3] by (auto simp: HTTPEOL_def)
    have "NUL \<notin> set ATTOHTTP_AUTH_ERROR_MSG" "length ATTOHTTP_AUTH_ERROR_MSG < 2 ^ 32"
      by (simp_all add: ATTOHTTP_AUTH_ERROR_MSG_def)
    from print_literal [OF this, of "s4\<lparr>headersSent := True\<rparr>"]
    obtain n5 s5 where s5: "attoHTTPprint E (cstr ATTOHTTP_AUTH_ERROR_MSG) (s4\<lparr>headersSent := True\<rparr>) = returns (n5, s5)"
      "snds ATTOHTTP_AUTH_ERROR_MSG (s4\<lparr>headersSent := True\<rparr>) s5" by blast
    note a = sends_updates(2) [OF sends_trans [OF s1(2) sends_trans [OF s2(2) sends_trans [OF s3(2) s4(2)]]],
      of True]
    have "attoHTTPSendAuthMessage E headers s = returns (n2 + n3 + n4 + n5, s5)"
      unfolding s2(1) s3(1) rbind_simps prod.case s4(1) Let_def s5(1) ..
    with sends_trans [OF a s5(2)] False show ?thesis
      by (simp add: auth_message_def)
  qed
qed

section \<open>Server-sent events\<close>

lemma send_bytes_sends:
  "n \<le> length buffer \<Longrightarrow> \<exists>i'. send_bytes E h buffer n ret i = returns (ret + of_nat n, i') \<and>
     (\<forall>g. pending g i' = pending g i) \<and> sent h i' = sent h i @ take n buffer"
proof (induction n arbitrary: buffer ret i)
  case (Suc n)
  then obtain c cs where b: "buffer = c # cs" "n \<le> length cs" by (cases buffer) auto
  obtain j where j: "setByte E h c i = returns (1, j)" "sent h j = sent h i @ [c]"
    "\<forall>g. pending g j = pending g i"
    using setByte_sends by blast
  with Suc.IH [OF b(2), of "ret + 1" j] b show ?case
    by (auto simp: algebra_simps)
qed simp

lemma SendEvent_sends:
  assumes "unat elen \<le> length event" and "unat dlen \<le> length data"
  shows "\<exists>i'. attoHTTPSendEvent E h event elen data dlen i =
      returns (of_nat (length (event_text (take (unat elen) event) (take (unat dlen) data))), i') \<and>
    (\<forall>g. pending g i' = pending g i) \<and>
    sent h i' = sent h i @ event_text (take (unat elen) event) (take (unat dlen) data)"
proof -
  have field: "\<exists>r' i'. (if b then rbind (send_bytes E h key m ret i) (\<lambda>(ret, i).
        rbind (send_bytes E h x n ret i) (\<lambda>(ret, i). send_bytes E h [LF] 1 ret i))
      else returns (ret, i)) = returns (r', i') \<and> (\<forall>g. pending g i' = pending g i) \<and>
      sent h i' = sent h i @ (if b then key @ take n x @ [LF] else []) \<and>
      r' = ret + of_nat (if b then m + n + 1 else 0)"
    if n: "n \<le> length x" and m: "m = length key" for key m x n ret i b
  proof (cases b)
    case True
    obtain i1 where 1: "send_bytes E h key m ret i = returns (ret + of_nat m, i1)"
      "\<forall>g. pending g i1 = pending g i" "sent h i1 = sent h i @ key"
      using send_bytes_sends [of m key h ret i] m by auto
    obtain i2 where 2: "send_bytes E h x n (ret + of_nat m) i1 = returns (ret + of_nat m + of_nat n, i2)"
      "\<forall>g. pending g i2 = pending g i1" "sent h i2 = sent h i1 @ take n x"
      using send_bytes_sends [OF n] by blast
    obtain i3 where 3: "send_bytes E h [LF] 1 (ret + of_nat m + of_nat n) i2
        = returns (ret + of_nat m + of_nat n + of_nat 1, i3)"
      "\<forall>g. pending g i3 = pending g i2" "sent h i3 = sent h i2 @ [LF]"
      using send_bytes_sends [of 1 "[LF]" h "ret + of_nat m + of_nat n" i2]
      unfolding take_Suc_Cons One_nat_def by auto
    show ?thesis
      unfolding 1(1) rbind_simps prod.case 2(1) 3(1)
      using 1(2,3) 2(2,3) 3(2,3) True by (simp add: algebra_simps)
  qed simp
  obtain r1 i1 where 1: "(if elen > 0 then rbind (send_bytes E h ''event:'' 6 0 i) (\<lambda>(ret, i).
        rbind (send_bytes E h event (unat elen) ret i) (\<lambda>(ret, i). send_bytes E h [LF] 1 ret i))
      else returns (0, i)) = returns (r1, i1)" "\<forall>g. pending g i1 = pending g i"
    "sent h i1 = sent h i @ (if elen > 0 then ''event:'' @ take (unat elen) event @ [LF] else [])"
    "r1 = 0 + of_nat (if elen > 0 then 6 + unat elen + 1 else 0)"
    using field [OF assms(1), of 6 "''event:''" "elen > 0" 0 i] by force
  obtain r2 i2 where 2: "(if dlen > 0 then rbind (send_bytes E h ''data:'' 5 r1 i1) (\<lambda>(ret, i).
        rbind (send_bytes E h data (unat dlen) ret i) (\<lambda>(ret, i). send_bytes E h [LF] 1 ret i))
      else returns (r1, i1)) = returns (r2, i2)" "\<forall>g. pending g i2 = pending g i1"
    "sent h i2 = sent h i1 @ (if dlen > 0 then ''data:'' @ take (unat dlen) data @ [LF] else [])"
    "r2 = r1 + of_nat (if dlen > 0 then 5 + unat dlen + 1 else 0)"
    using field [OF assms(2), of 5 "''data:''" "dlen > 0" r1 i1] by force
  obtain i3 where 3: "send_bytes E h [LF] 1 r2 i2 = returns (r2 + of_nat 1, i3)"
    "\<forall>g. pending g i3 = pending g i2" "sent h i3 = sent h i2 @ [LF]"
    using send_bytes_sends [of 1 "[LF]" h r2 i2] by auto
  have z: "(take (unat elen) event = []) = (\<not> elen > 0)" "(take (unat dlen) data = []) = (\<not> dlen > 0)"
    using assms by (auto simp: word_neq_0_conv [symmetric] unat_eq_0)
  have "attoHTTPSendEvent E h event elen data dlen i = returns (r2 + of_nat 1, i3)"
    unfolding attoHTTPSendEvent_def 1(1) rbind_simps prod.case 2(1) 3(1) ..
  moreover have "sent h i3 = sent h i @ event_text (take (unat elen) event) (take (unat dlen) data)"
    using 1(3) 2(3) 3(3) unfolding event_text_def z by simp
  moreover have "r2 + of_nat 1 = of_nat (length (event_text (take (unat elen) event) (take (unat dlen) data)))"
    using assms unfolding event_text_def z by (simp add: 1(4) 2(4))
  ultimately show ?thesis using 1(2) 2(2) 3(2) by auto
qed

end

end
