(* ===== verification/Pages.thy ===== *)
theory Pages
  imports Output
begin

text \<open>
  The page table, the registration functions and the dispatch of \<^verbatim>\<open>src/src/attohttp.c\<close>:
  \<^verbatim>\<open>attoHTTPAddPage\<close>, \<^verbatim>\<open>attoHTTPDefaultPage\<close>, \<^verbatim>\<open>attoHTTPServerSetEventsURL\<close>,
  \<^verbatim>\<open>attoHTTPDefaultREST\<close>, \<^verbatim>\<open>attoHTTPInit\<close>, \<^verbatim>\<open>_attoHTTPFindPage\<close> and
  \<^verbatim>\<open>_attoHTTPFindAPICallback\<close>.
\<close>

section \<open>Definitions\<close>

definition attoHTTPPageEmpty :: "page \<Rightarrow> bool" where
  "attoHTTPPageEmpty p \<longleftrightarrow> page_content p = None"

text \<open>A \<^verbatim>\<open>const uint8_t *page\<close> argument may be \<^verbatim>\<open>NULL\<close>, so it is an option here.\<close>

definition set_page ::
    "page \<Rightarrow> string \<Rightarrow> string option \<Rightarrow> 32 word \<Rightarrow> mimetype \<Rightarrow> page run" where
  "set_page p u content len type =
     rbind (strncpy (page_url p) u ATTOHTTP_PAGE_URL_SIZE) (\<lambda>b.
       returns (p\<lparr>page_content := content, page_size := len, page_type := type, page_url := b\<rparr>))"

fun add_page_loop ::
    "string \<Rightarrow> string option \<Rightarrow> 32 word \<Rightarrow> mimetype \<Rightarrow> page list \<Rightarrow> (bool \<times> page list) run" where
  "add_page_loop u content len type [] = returns (False, [])"
| "add_page_loop u content len type (p # ps) =
     (if attoHTTPPageEmpty p
      then rbind (set_page p u content len type) (\<lambda>p. returns (True, p # ps))
      else rbind (add_page_loop u content len type ps) (\<lambda>(ret, ps). returns (ret, p # ps)))"

definition attoHTTPAddPage ::
    "string \<Rightarrow> string option \<Rightarrow> 32 word \<Rightarrow> mimetype \<Rightarrow> 'io http \<Rightarrow> (bool \<times> 'io http) run" where
  "attoHTTPAddPage u content len type s =
     rbind (add_page_loop u content len type (pages s)) (\<lambda>(ret, ps).
       returns (ret, s\<lparr>pages := ps\<rparr>))"

definition attoHTTPDefaultPage ::
    "string \<Rightarrow> string option \<Rightarrow> 32 word \<Rightarrow> mimetype \<Rightarrow> 'io http \<Rightarrow> (bool \<times> 'io http) run" where
  "attoHTTPDefaultPage u content len type s =
     (if attoHTTPPageEmpty (defaultPage s)
      then rbind (set_page (defaultPage s) u content len type) (\<lambda>p.
             returns (True, s\<lparr>defaultPage := p\<rparr>))
      else returns (False, s))"

definition attoHTTPServerSetEventsURL :: "string \<Rightarrow> 'io http \<Rightarrow> (bool \<times> 'io http) run" where
  "attoHTTPServerSetEventsURL u s =
     rbind (strlen (ssePage s)) (\<lambda>n.
       if n = 0 then rbind (strncpy (ssePage s) u ATTOHTTP_PAGE_URL_SIZE) (\<lambda>b.
                       returns (True, s\<lparr>ssePage := b\<rparr>))
       else returns (False, s))"

definition attoHTTPDefaultREST :: "nat option \<Rightarrow> 'io http \<Rightarrow> bool \<times> 'io http" where
  "attoHTTPDefaultREST Callback s =
     (if defaultCallback s = None then (True, s\<lparr>defaultCallback := Callback\<rparr>) else (False, s))"

definition clear_page :: "page \<Rightarrow> page run" where
  "clear_page p =
     rbind (store (page_url p) 0 NUL) (\<lambda>u.
       returns (p\<lparr>page_url := u, page_content := None, page_size := 0, page_type := TEXT_HTML\<rparr>))"

fun clear_pages :: "page list \<Rightarrow> page list run" where
  "clear_pages [] = returns []"
| "clear_pages (p # ps) =
     rbind (clear_page p) (\<lambda>p. rbind (clear_pages ps) (\<lambda>ps. returns (p # ps)))"

definition attoHTTPInit :: "'io env \<Rightarrow> 'io http \<Rightarrow> 'io http run" where
  "attoHTTPInit E s =
     (let s = attoHTTPInitRun E s in
      rbind (store (ssePage s) 0 NUL) (\<lambda>sse.
      rbind (clear_page (defaultPage s)) (\<lambda>d.
      rbind (clear_pages (pages s)) (\<lambda>ps.
      let s = s\<lparr>ssePage := sse, defaultPage := d, defaultCallback := None, pages := ps\<rparr> in
      rbind (attoHTTPAddPage (cstr ''/favicon.ico'') (Some favicon_ico) favicon_ico_len IMAGE_PNG s)
        (\<lambda>(_, s). returns s)))))"

subsection \<open>Dispatch\<close>

definition attoHTTPCheckPage :: "'io http \<Rightarrow> page \<Rightarrow> bool run" where
  "attoHTTPCheckPage s p =
     (if attoHTTPPageEmpty p then returns False
      else rbind (strncmp (url s) (page_url p) ATTOHTTP_PAGE_URL_SIZE) (\<lambda>r. returns (r = 0)))"

definition is_default_page :: "'io http \<Rightarrow> bool run" where
  "is_default_page s =
     (if attoHTTPPageEmpty (defaultPage s) then returns False
      else rbind (strncmp (url s) (cstr ''/'') ATTOHTTP_URL_BUFFER_SIZE) (\<lambda>r.
             returns (r = 0 \<and> url_len s = 1)))"

definition is_server_sent_events :: "'io http \<Rightarrow> bool run" where
  "is_server_sent_events s =
     rbind (strlen (ssePage s)) (\<lambda>n.
       if n = 0 then returns False
       else rbind (strncmp (url s) (ssePage s) ATTOHTTP_URL_BUFFER_SIZE) (\<lambda>r. returns (r = 0)))"

fun find_page_loop :: "'io http \<Rightarrow> page list \<Rightarrow> page option run" where
  "find_page_loop s [] = returns None"
| "find_page_loop s (p # ps) =
     rbind (attoHTTPCheckPage s p) (\<lambda>b. if b then returns (Some p) else find_page_loop s ps)"

definition select_page :: "'io http \<Rightarrow> page option run" where
  "select_page s =
     rbind (is_default_page s) (\<lambda>b. if b then returns (Some (defaultPage s)) else
     rbind (attoHTTPCheckPage s (defaultPage s)) (\<lambda>b.
       if b then returns (Some (defaultPage s)) else find_page_loop s (pages s)))"

text \<open>
  The loop of \<^verbatim>\<open>_attoHTTPFindAPICallback\<close>: \<open>p\<close> is the offset of \<^verbatim>\<open>url_ptr\<close>, \<open>ctr\<close> counts down
  from \<^verbatim>\<open>_attoHTTP_url_len\<close>; the arrays hold offsets into the URL buffer.
\<close>

fun api_levels_loop ::
    "string \<Rightarrow> nat \<Rightarrow> nat \<Rightarrow> nat option list \<Rightarrow> nat option list \<Rightarrow> nat \<Rightarrow> nat \<Rightarrow>
     (string \<times> nat option list \<times> nat option list \<times> nat \<times> nat) run" where
  "api_levels_loop u p 0 command ids cmdlvl idlvl =
     rbind (load u p) (\<lambda>_. returns (u, command, ids, cmdlvl, idlvl))"
| "api_levels_loop u p (Suc c) command ids cmdlvl idlvl =
     rbind (load u p) (\<lambda>ch.
     if ch = NUL then returns (u, command, ids, cmdlvl, idlvl)
     else if ch = CHR ''/'' then
       rbind (if cmdlvl = idlvl \<and> cmdlvl < ATTOHTTP_API_LEVELS then
                (if Suc c > 1 then rbind (store command cmdlvl (Some (p + 1)))
                                     (\<lambda>command. returns (command, ids, cmdlvl + 1, idlvl))
                 else returns (command, ids, cmdlvl, idlvl))
              else if cmdlvl > idlvl \<and> idlvl < ATTOHTTP_API_LEVELS then
                (if Suc c > 1 then rbind (store ids idlvl (Some (p + 1)))
                                     (\<lambda>ids. returns (command, ids, cmdlvl, idlvl + 1))
                 else returns (command, ids, cmdlvl, idlvl))
              else returns (command, ids, cmdlvl, idlvl)) (\<lambda>(command, ids, cmdlvl, idlvl).
       rbind (store u p NUL) (\<lambda>u. api_levels_loop u (p + 1) c command ids cmdlvl idlvl))
     else api_levels_loop u (p + 1) c command ids cmdlvl idlvl)"

definition attoHTTPFindAPICallback :: "'io env \<Rightarrow> 'io http \<Rightarrow> (int \<times> 'io http) run" where
  "attoHTTPFindAPICallback E s =
     (case defaultCallback s of
        None \<Rightarrow> returns (0, s)
      | Some cb \<Rightarrow>
          (let none = replicate ATTOHTTP_API_LEVELS None in
           rbind (api_levels_loop (url s) 0 (url_len s) none none 0 0)
             (\<lambda>(u, command, ids, cmdlvl, idlvl).
           let s = s\<lparr>url := u\<rparr> in
           if cmdlvl > 0 then
             rbind (callback E cb (http_method s) (accept s) command ids cmdlvl idlvl s) (\<lambda>(rc, s).
             returns (1, s\<lparr>returnCode := rc\<rparr>))
           else returns (1, s\<lparr>returnCode := STATUS_INTERNAL_ERROR\<rparr>))))"

definition attoHTTPFindPage :: "'io env \<Rightarrow> 'io http \<Rightarrow> (int \<times> 'io http) run" where
  "attoHTTPFindPage E s =
     rbind (select_page s) (\<lambda>page.
     rbind (case page of
              Some p \<Rightarrow>
                (if http_method s = METHOD_GET then
                   let s = s\<lparr>returnCode := STATUS_OK, contenttype := page_type p,
                             contentlength := page_size p\<rparr> in
                   rbind (attoHTTPSendHeaders E s) (\<lambda>(_, s).
                   case page_content p of
                     None \<Rightarrow> faults NullPointer
                   | Some b \<Rightarrow> rbind (attoHTTPwrite E b (page_size p) s) (\<lambda>(_, s). returns (1, s)))
                 else returns (-1, s\<lparr>returnCode := STATUS_UNSUPPORTED\<rparr>))
            | None \<Rightarrow> returns (0, s)) (\<lambda>(ret, s).
     if ret = 0 then
       rbind (is_server_sent_events s) (\<lambda>b.
         if b then rbind (attoHTTPSendServerSentEventHeaders E s) (\<lambda>(_, s). returns (1, s))
         else attoHTTPFindAPICallback E s)
     else returns (ret, s)))"

section \<open>The page table\<close>

text \<open>
  A page entry is well formed when its URL array has the declared size and its content object
  holds at least the bytes the registration said.
\<close>

definition page_ok :: "page \<Rightarrow> bool" where
  "page_ok p \<longleftrightarrow> length (page_url p) = 32 \<and>
     (case page_content p of None \<Rightarrow> True | Some b \<Rightarrow> unat (page_size p) \<le> length b)"

definition page_key :: "string \<Rightarrow> string" where
  "page_key u = take 32 (strz u)"

text \<open>The entry that registering a page leaves in a slot.\<close>

definition new_page :: "string \<Rightarrow> string option \<Rightarrow> 32 word \<Rightarrow> mimetype \<Rightarrow> page \<Rightarrow> page" where
  "new_page u content len type p = p\<lparr>
     page_url := page_key u @ replicate (32 - length (page_key u)) NUL,
     page_content := content, page_size := len, page_type := type\<rparr>"

lemma page_key_padded [simp]: "page_key (page_key u @ replicate n NUL) = page_key u"
proof -
  have nn: "NUL \<notin> set (page_key u)"
    unfolding page_key_def by (meson NUL_notin_strz in_set_takeD)
  then have "strz (page_key u @ replicate n NUL) = page_key u"
    by (cases n) (simp_all add: strz_no_NUL)
  then show ?thesis by (simp add: page_key_def)
qed

lemma new_page_fields [simp]:
  "page_content (new_page u c l t p) = c" "page_size (new_page u c l t p) = l"
  "page_type (new_page u c l t p) = t" "page_key (page_url (new_page u c l t p)) = page_key u"
  "length (page_url (new_page u c l t p)) = 32"
  by (simp_all add: new_page_def) (simp add: page_key_def)

lemma page_ok_new:
  "(\<And>b. c = Some b \<Longrightarrow> unat l \<le> length b) \<Longrightarrow> page_ok (new_page u c l t p)"
  by (auto simp: page_ok_def split: option.splits)

lemma set_page_eq:
  assumes "length (page_url p) = 32" and "readable u 32"
  shows "set_page p u content len type = returns (new_page u content len type p)"
  using assms by (cases p) (simp add: set_page_def strncpy_def new_page_def page_key_def Let_def)

text \<open>
  Registration takes the first empty slot, whatever comes after it, and fails when there is
  none. A page without content leaves its slot empty.
\<close>

fun add_first_empty ::
    "string \<Rightarrow> string option \<Rightarrow> 32 word \<Rightarrow> mimetype \<Rightarrow> page list \<Rightarrow> page list" where
  "add_first_empty u c l t [] = []"
| "add_first_empty u c l t (p # ps) =
     (if page_content p = None then new_page u c l t p # ps else p # add_first_empty u c l t ps)"

lemma add_page_loop_eq:
  assumes "\<forall>p \<in> set ps. length (page_url p) = 32" and "readable u 32"
  shows "add_page_loop u c l t ps =
    returns (\<exists>p \<in> set ps. page_content p = None, add_first_empty u c l t ps)"
  using assms by (induction ps) (auto simp: attoHTTPPageEmpty_def set_page_eq)

lemma AddPage_eq:
  assumes "\<forall>p \<in> set (pages s). length (page_url p) = 32" and "readable u 32"
  shows "attoHTTPAddPage u c l t s = returns
    (\<exists>p \<in> set (pages s). page_content p = None, s\<lparr>pages := add_first_empty u c l t (pages s)\<rparr>)"
  using assms by (simp add: attoHTTPAddPage_def add_page_loop_eq)

lemma length_add_first_empty [simp]: "length (add_first_empty u c l t ps) = length ps"
  by (induction ps) auto

lemma add_first_empty_ok:
  "\<forall>p \<in> set ps. page_ok p \<Longrightarrow> (\<And>b. c = Some b \<Longrightarrow> unat l \<le> length b) \<Longrightarrow>
   \<forall>p \<in> set (add_first_empty u c l t ps). page_ok p"
  by (induction ps) (auto intro: page_ok_new)

subsection \<open>The table as a map\<close>

text \<open>
  What the table promises: it is a map from the first 32 characters of a URL to a page, in
  which the page registered first wins.
\<close>

definition page_matches :: "string \<Rightarrow> page \<Rightarrow> bool" where
  "page_matches k p \<longleftrightarrow> page_content p \<noteq> None \<and> page_key (page_url p) = k"

type_synonym entry = "string \<times> 32 word \<times> mimetype"

definition page_entry :: "page \<Rightarrow> entry" where
  "page_entry p = (the (page_content p), page_size p, page_type p)"

definition page_table :: "page list \<Rightarrow> string \<Rightarrow> entry option" where
  "page_table ps k = map_option page_entry (find (page_matches k) ps)"

lemma page_table_simps [simp]:
  "page_table [] k = None"
  "page_table (p # ps) k = (if page_matches k p then Some (page_entry p) else page_table ps k)"
  by (simp_all add: page_table_def)

text \<open>The slots are filled from the front: there is no content behind an empty slot.\<close>

fun front_filled :: "page list \<Rightarrow> bool" where
  "front_filled [] = True"
| "front_filled (p # ps) =
     ((page_content p = None \<longrightarrow> (\<forall>q \<in> set ps. page_content q = None)) \<and> front_filled ps)"

lemma page_table_empty: "\<forall>p \<in> set ps. page_content p = None \<Longrightarrow> page_table ps = Map.empty"
  by (induction ps) (auto simp: page_matches_def fun_eq_iff)

lemma front_filled_add: "front_filled ps \<Longrightarrow> front_filled (add_first_empty u c l t ps)"
  by (induction ps) auto

text \<open>The abstract operation: a key that is bound keeps its page.\<close>

definition table_add :: "string \<Rightarrow> entry \<Rightarrow> (string \<Rightarrow> entry option) \<Rightarrow> (string \<Rightarrow> entry option)" where
  "table_add k e m = (if m k = None then m(k \<mapsto> e) else m)"

lemma page_table_add:
  assumes "front_filled ps" and "\<exists>p \<in> set ps. page_content p = None"
  shows "page_table (add_first_empty u (Some b) l t ps) = table_add (page_key u) (b, l, t) (page_table ps)"
  using assms
proof (induction ps)
  case (Cons p ps)
  show ?case
  proof (cases "page_content p")
    case None
    with Cons.prems have "page_table ps = Map.empty" by (simp add: page_table_empty)
    with None show ?thesis
      by (auto simp: fun_eq_iff table_add_def page_matches_def page_entry_def)
  next
    case (Some a)
    with Cons have "page_table (add_first_empty u (Some b) l t ps)
        = table_add (page_key u) (b, l, t) (page_table ps)" by simp
    with Some show ?thesis
      by (auto simp: fun_eq_iff table_add_def page_matches_def)
  qed
qed simp

lemma add_first_empty_full:
  "\<forall>p \<in> set ps. page_content p \<noteq> None \<Longrightarrow> add_first_empty u c l t ps = ps"
  by (induction ps) auto

subsection \<open>Lookup\<close>

lemma CheckPage_eq:
  assumes "terminated (url s)" and "length (page_url p) = 32"
  shows "attoHTTPCheckPage s p = returns (page_matches (page_key (url s)) p)"
proof (cases "page_content p")
  case None
  then show ?thesis by (simp add: attoHTTPCheckPage_def attoHTTPPageEmpty_def page_matches_def)
next
  case (Some b)
  have "ensures (strncmp (url s) (page_url p) 32) (\<lambda>r. r = 0 \<longleftrightarrow> page_key (url s) = page_key (page_url p))"
    unfolding page_key_def by (rule strncmp_spec) (use assms in simp_all)
  with Some show ?thesis
    by (auto simp: attoHTTPCheckPage_def attoHTTPPageEmpty_def page_matches_def elim!: ensuresE)
qed

lemma find_page_loop_eq:
  assumes "terminated (url s)" and "\<forall>p \<in> set ps. length (page_url p) = 32"
  shows "find_page_loop s ps = returns (find (page_matches (page_key (url s))) ps)"
  using assms(2) by (induction ps) (simp_all add: CheckPage_eq [OF assms(1)])

lemma take_eq_shorter: "length y < n \<Longrightarrow> take n x = y \<longleftrightarrow> x = y"
  by (cases "n \<le> length x") auto

lemma is_default_page_eq:
  assumes "terminated (url s)"
  shows "is_default_page s =
    returns (page_content (defaultPage s) \<noteq> None \<and> strz (url s) = ''/'' \<and> url_len s = 1)"
proof -
  have "ensures (strncmp (url s) (cstr ''/'') 64) (\<lambda>r. r = 0 \<longleftrightarrow> take 64 (strz (url s)) = take 64 ''/'')"
    using strncmp_spec [of "url s" 64 "cstr ''/''"] assms by simp
  then obtain r where "strncmp (url s) (cstr ''/'') 64 = returns r" "r = 0 \<longleftrightarrow> strz (url s) = ''/''"
    by (auto elim!: ensuresE simp: take_eq_shorter)
  then show ?thesis
    by (simp add: is_default_page_def attoHTTPPageEmpty_def)
qed

text \<open>The page of a request: the default page for the root, otherwise the table.\<close>

definition page_of :: "'io http \<Rightarrow> page option" where
  "page_of s =
     (let d = defaultPage s in
      if page_content d \<noteq> None \<and> (strz (url s) = ''/'' \<and> url_len s = 1 \<or> page_key (page_url d) = page_key (url s))
      then Some d else find (page_matches (page_key (url s))) (pages s))"

lemma select_page_eq:
  assumes "terminated (url s)" and "length (page_url (defaultPage s)) = 32"
    and "\<forall>p \<in> set (pages s). length (page_url p) = 32"
  shows "select_page s = returns (page_of s)"
  using assms
  by (auto simp: select_page_def is_default_page_eq CheckPage_eq find_page_loop_eq page_of_def
      page_matches_def Let_def)

lemma page_of_content: "page_of s = Some p \<Longrightarrow> page_content p \<noteq> None"
  by (auto simp: page_of_def Let_def page_matches_def find_Some_iff split: if_splits)

lemma page_of_mem: "page_of s = Some p \<Longrightarrow> p = defaultPage s \<or> p \<in> set (pages s)"
  by (auto simp: page_of_def Let_def find_Some_iff split: if_splits)

subsection \<open>The interface of the registry\<close>

text \<open>
  What a client that registers pages relies on, for any table: a free slot takes the page, a
  full table is left alone, and a bound key keeps its entry. The facts about sequences of
  registrations are proved from these laws alone.
\<close>

locale page_registry =
  fixes inv :: "'t \<Rightarrow> bool"
    and slots :: "'t \<Rightarrow> nat"
    and lookup :: "'t \<Rightarrow> string \<Rightarrow> entry option"
    and key :: "'u \<Rightarrow> string"
    and add :: "'u \<Rightarrow> entry \<Rightarrow> 't \<Rightarrow> 't"
  assumes add_inv: "inv t \<Longrightarrow> inv (add u e t)"
    and add_slots: "inv t \<Longrightarrow> slots (add u e t) = slots t - 1"
    and add_free: "inv t \<Longrightarrow> 0 < slots t \<Longrightarrow> lookup (add u e t) = table_add (key u) e (lookup t)"
    and add_full: "inv t \<Longrightarrow> slots t = 0 \<Longrightarrow> add u e t = t"
begin

definition add_all :: "('u \<times> entry) list \<Rightarrow> 't \<Rightarrow> 't" where
  "add_all es = fold (\<lambda>(u, e). add u e) es"

lemma add_all_simps [simp]:
  "add_all [] t = t" "add_all ((u, e) # es) t = add_all es (add u e t)"
  by (simp_all add: add_all_def)

lemma add_all_slots: "inv t \<Longrightarrow> slots (add_all es t) = slots t - length es \<and> inv (add_all es t)"
  by (induction es arbitrary: t) (auto simp: add_inv add_slots)

text \<open>A registered page is never displaced.\<close>

lemma add_keeps: "inv t \<Longrightarrow> lookup t k = Some e \<Longrightarrow> lookup (add u e' t) k = Some e"
  by (cases "slots t = 0") (auto simp: add_full add_free table_add_def)

lemma add_all_keeps: "inv t \<Longrightarrow> lookup t k = Some e \<Longrightarrow> lookup (add_all es t) k = Some e"
  by (induction es arbitrary: t) (auto simp: add_inv add_keeps)

text \<open>With enough slots the first registration of a key is the one that is found.\<close>

lemma add_all_lookup:
  "inv t \<Longrightarrow> length es \<le> slots t \<Longrightarrow>
   lookup (add_all es t) k =
     (case lookup t k of Some e \<Rightarrow> Some e | None \<Rightarrow> map_of (map (\<lambda>(u, e). (key u, e)) es) k)"
proof (induction es arbitrary: t)
  case (Cons a es)
  obtain u e where a: "a = (u, e)" by (cases a)
  have "inv (add u e t)" "length es \<le> slots (add u e t)" "0 < slots t"
    using Cons.prems by (auto simp: add_inv add_slots)
  with Cons show ?case
    by (auto simp: a add_free table_add_def split: option.splits)
qed (auto split: option.splits)

end

definition table_inv :: "page list \<Rightarrow> bool" where
  "table_inv ps \<longleftrightarrow> front_filled ps \<and> (\<forall>p \<in> set ps. length (page_url p) = 32)"

definition free_slots :: "page list \<Rightarrow> nat" where
  "free_slots ps = length (filter (\<lambda>p. page_content p = None) ps)"

definition add_entry :: "string \<Rightarrow> entry \<Rightarrow> page list \<Rightarrow> page list" where
  "add_entry u e ps = (case e of (b, l, t) \<Rightarrow> add_first_empty u (Some b) l t ps)"

lemma add_first_empty_urls:
  "\<forall>p \<in> set ps. length (page_url p) = 32 \<Longrightarrow>
   \<forall>p \<in> set (add_first_empty u c l t ps). length (page_url p) = 32"
  by (induction ps) auto

lemma free_slots_add: "free_slots (add_first_empty u (Some b) l t ps) = free_slots ps - 1"
proof (induction ps)
  case (Cons p ps)
  have "filter (\<lambda>p. page_content p = None) ps = [] \<Longrightarrow> add_first_empty u (Some b) l t ps = ps"
    by (rule add_first_empty_full) (simp add: filter_empty_conv)
  with Cons show ?case by (auto simp: free_slots_def)
qed (simp add: free_slots_def)

lemma free_slots_pos: "0 < free_slots ps \<longleftrightarrow> (\<exists>p \<in> set ps. page_content p = None)"
  by (auto simp: free_slots_def filter_empty_conv)

lemma add_first_empty_unchanged:
  "free_slots ps = 0 \<Longrightarrow> add_first_empty u c l t ps = ps"
  "free_slots (add_first_empty u None l t ps) = free_slots ps"
  "page_table (add_first_empty u None l t ps) k = page_table ps k"
  by (induction ps) (auto simp: free_slots_def page_matches_def split: if_splits)

interpretation pt: page_registry table_inv free_slots page_table page_key add_entry
proof unfold_locales
  fix ps :: "page list" and u :: string and e :: entry
  assume inv: "table_inv ps"
  show "table_inv (add_entry u e ps)"
    using inv by (cases e)
      (auto simp: table_inv_def add_entry_def intro!: front_filled_add
        intro: add_first_empty_urls [THEN bspec])
  show "free_slots (add_entry u e ps) = free_slots ps - 1"
    by (cases e) (simp add: add_entry_def free_slots_add)
  show "page_table (add_entry u e ps) = table_add (page_key u) e (page_table ps)" if "0 < free_slots ps"
    using inv that by (cases e) (simp add: table_inv_def add_entry_def page_table_add free_slots_pos)
  show "add_entry u e ps = ps" if "free_slots ps = 0"
    using that by (cases e) (simp add: add_entry_def add_first_empty_full free_slots_def filter_empty_conv)
qed

text \<open>\<^verbatim>\<open>attoHTTPAddPage\<close> called for each of a list of pages with content.\<close>

fun register_pages :: "(string \<times> entry) list \<Rightarrow> 'io http \<Rightarrow> 'io http run" where
  "register_pages [] s = returns s"
| "register_pages ((u, b, l, t) # es) s =
     rbind (attoHTTPAddPage u (Some b) l t s) (\<lambda>(_, s). register_pages es s)"

lemma register_pages_eq:
  "table_inv (pages s) \<Longrightarrow> \<forall>(u, e) \<in> set es. readable u 32 \<Longrightarrow>
   register_pages es s = returns (s\<lparr>pages := pt.add_all es (pages s)\<rparr>)"
proof (induction es arbitrary: s)
  case (Cons a es)
  obtain u b l t where a: "a = (u, b, l, t)" by (cases a)
  from Cons.prems have "attoHTTPAddPage u (Some b) l t s
      = returns (\<exists>p \<in> set (pages s). page_content p = None, s\<lparr>pages := add_entry u (b, l, t) (pages s)\<rparr>)"
    by (subst AddPage_eq) (auto simp: a table_inv_def add_entry_def)
  then show ?case
    using Cons.IH [of "s\<lparr>pages := add_entry u (b, l, t) (pages s)\<rparr>"] Cons.prems
    by (simp add: a pt.add_inv)
qed simp

end
