(* ===== verification/Dispatch.thy ===== *)
theory Dispatch
  imports Pages
begin

text \<open>
  Facts about the dispatch of a request to a page, to the event stream or to the REST callback
  (\<^verbatim>\<open>_attoHTTPFindPage\<close> and \<^verbatim>\<open>_attoHTTPFindAPICallback\<close>), and the invariant of the server's
  buffers that all entry points keep.
\<close>

section \<open>The invariant of the buffers\<close>

definition server_ok :: "'io http \<Rightarrow> bool" where
  "server_ok s \<longleftrightarrow> length (url s) = 64 \<and> url s ! 63 = NUL \<and> url_len s \<le> 63 \<and>
     length (pages s) = 8 \<and> (\<forall>p \<in> set (pages s). page_ok p) \<and> page_ok (defaultPage s) \<and>
     length (ssePage s) = 32 \<and> terminated (ssePage s)"

lemma server_ok_url: "server_ok s \<Longrightarrow> terminated (url s)"
  using nth_mem [of 63 "url s"] by (simp add: server_ok_def terminated_def)

lemma server_ok_updates [simp]:
  "server_ok (s\<lparr>firstlineSent := a\<rparr>) = server_ok s"
  "server_ok (s\<lparr>headersSent := a\<rparr>) = server_ok s"
  "server_ok (s\<lparr>headersDone := a\<rparr>) = server_ok s"
  "server_ok (s\<lparr>returnCode := c\<rparr>) = server_ok s"
  "server_ok (s\<lparr>contenttype := m\<rparr>) = server_ok s"
  "server_ok (s\<lparr>contentlength := n\<rparr>) = server_ok s"
  "server_ok (s\<lparr>accept := k\<rparr>) = server_ok s"
  "server_ok (s\<lparr>authenticated := k'\<rparr>) = server_ok s"
  "server_ok (s\<lparr>http_method := h\<rparr>) = server_ok s"
  "server_ok (s\<lparr>version := v\<rparr>) = server_ok s"
  "server_ok (s\<lparr>io := i\<rparr>) = server_ok s"
  "server_ok (s\<lparr>extra_c := x\<rparr>) = server_ok s"
  "server_ok (s\<lparr>defaultCallback := cb\<rparr>) = server_ok s"
  "server_ok (s\<lparr>read_h := rd\<rparr>) = server_ok s"
  "server_ok (s\<lparr>write_h := wr\<rparr>) = server_ok s"
  by (simp_all add: server_ok_def)

lemma server_ok_sends: "sends p w x s s' \<Longrightarrow> server_ok s' = server_ok s"
  by (metis sends_def server_ok_updates(11))

lemma server_ok_reads: "reads p w s s' \<Longrightarrow> server_ok s' = server_ok s"
  by (metis reads_io_frame io_frame_iff server_ok_updates(11,12))

lemma server_ok_after_first_line [simp]: "server_ok (after_first_line c s) = server_ok s"
  by (simp add: after_first_line_def)

lemma server_ok_first_line_state [simp]: "server_ok (first_line_state c s) = server_ok s"
  by (simp add: first_line_state_def)

lemma server_ok_InitRun: "server_ok s \<Longrightarrow> server_ok (attoHTTPInitRun E s)"
  by (simp add: server_ok_def attoHTTPInitRun_def)

lemma server_ok_lengths:
  "server_ok s \<Longrightarrow> \<forall>p \<in> set (pages s). length (page_url p) = 32"
  "server_ok s \<Longrightarrow> length (page_url (defaultPage s)) = 32"
  by (simp_all add: server_ok_def page_ok_def)

text \<open>The registration operations keep the invariant.\<close>

lemma AddPage_ok:
  assumes "server_ok s" and "readable u 32" and "\<And>b. c = Some b \<Longrightarrow> unat l \<le> length b"
  shows "ensures (attoHTTPAddPage u c l t s) (\<lambda>(ret, s'). server_ok s' \<and>
    ret = (\<exists>p \<in> set (pages s). page_content p = None) \<and>
    s' = s\<lparr>pages := add_first_empty u c l t (pages s)\<rparr>)"
proof -
  have "\<forall>p \<in> set (add_first_empty u c l t (pages s)). page_ok p"
    using assms(1,3) by (intro add_first_empty_ok) (auto simp: server_ok_def)
  then have "server_ok (s\<lparr>pages := add_first_empty u c l t (pages s)\<rparr>)"
    using assms(1) by (simp add: server_ok_def)
  then show ?thesis
    unfolding AddPage_eq [OF server_ok_lengths(1) [OF assms(1)] assms(2)] by simp
qed

lemma DefaultPage_ok:
  assumes "server_ok s" and "readable u 32" and "\<And>b. c = Some b \<Longrightarrow> unat l \<le> length b"
  shows "ensures (attoHTTPDefaultPage u c l t s) (\<lambda>(ret, s'). server_ok s' \<and>
    ret = (page_content (defaultPage s) = None) \<and>
    s' = (if ret then s\<lparr>defaultPage := new_page u c l t (defaultPage s)\<rparr> else s))"
proof -
  have "server_ok (s\<lparr>defaultPage := new_page u c l t (defaultPage s)\<rparr>)"
    using assms(1) page_ok_new [OF assms(3)] by (simp add: server_ok_def)
  then show ?thesis
    using assms(1,2) by (simp add: attoHTTPDefaultPage_def attoHTTPPageEmpty_def set_page_eq server_ok_lengths)
qed

lemma ServerSetEventsURL_ok:
  assumes "server_ok s" and "terminated u" and "length (strz u) < 32"
  shows "ensures (attoHTTPServerSetEventsURL u s) (\<lambda>(ret, s'). server_ok s' \<and>
    ret = (strz (ssePage s) = []) \<and> strz (ssePage s') = (if ret then strz u else strz (ssePage s)))"
proof -
  from assms have sse: "length (ssePage s) = 32" "terminated (ssePage s)"
    by (simp_all add: server_ok_def)
  from strncpy_full [OF sse(1), of u] assms(2,3) obtain b where
    b: "strncpy (ssePage s) u 32 = returns b" "length b = 32" "strz b = strz u" "terminated b"
    by (auto elim!: ensuresE)
  have "server_ok (s\<lparr>ssePage := b\<rparr>)"
    using assms(1) b by (simp add: server_ok_def)
  with b assms(1) show ?thesis
    by (simp add: attoHTTPServerSetEventsURL_def strlen_terminated sse(2))
qed

text \<open>
  The buffers have their declared sizes; initialisation establishes the invariant from that
  alone, whatever the bytes in them are, but for the last byte of the URL buffer.
\<close>

definition sized :: "'io http \<Rightarrow> bool" where
  "sized s \<longleftrightarrow> length (url s) = 64 \<and> url s ! 63 = NUL \<and> length (pages s) = 8 \<and>
     (\<forall>p \<in> set (pages s). length (page_url p) = 32) \<and>
     length (page_url (defaultPage s)) = 32 \<and> length (ssePage s) = 32"

lemma clear_page_eq:
  "length (page_url p) = 32 \<Longrightarrow> clear_page p = returns (p\<lparr>page_url := (page_url p)[0 := NUL],
     page_content := None, page_size := 0, page_type := TEXT_HTML\<rparr>)"
  by (simp add: clear_page_def)

lemma clear_pages_eq:
  "\<forall>p \<in> set ps. length (page_url p) = 32 \<Longrightarrow> clear_pages ps = returns (map (\<lambda>p. p\<lparr>
     page_url := (page_url p)[0 := NUL], page_content := None, page_size := 0,
     page_type := TEXT_HTML\<rparr>) ps)"
  by (induction ps) (simp_all add: clear_page_eq)

lemma favicon_length: "length favicon_ico = 325"
  by (simp add: favicon_ico_def)

lemma Init_io: "attoHTTPInit E s = returns s' \<Longrightarrow> io s' = io s"
  unfolding attoHTTPInit_def attoHTTPAddPage_def Let_def
  by (auto simp: rbind_eq_returns attoHTTPInitRun_def split: if_splits option.splits)

lemma Init_ok:
  assumes "sized s"
  shows "ensures (attoHTTPInit E s) (\<lambda>s'. server_ok s' \<and> table_inv (pages s') \<and>
    free_slots (pages s') = 7 \<and>
    page_table (pages s') = [''/favicon.ico'' \<mapsto> (favicon_ico, favicon_ico_len, IMAGE_PNG)] \<and>
    page_content (defaultPage s') = None \<and> defaultCallback s' = None \<and> strz (ssePage s') = [])"
proof -
  let ?i = "attoHTTPInitRun E s"
  let ?clear = "\<lambda>p. p\<lparr>page_url := (page_url p)[0 := NUL], page_content := None, page_size := 0,
     page_type := TEXT_HTML\<rparr>"
  have i: "url ?i = url s" "pages ?i = pages s" "defaultPage ?i = defaultPage s"
    "ssePage ?i = ssePage s" "url_len ?i = 0" by (simp_all add: attoHTTPInitRun_def)
  let ?t = "?i\<lparr>ssePage := (ssePage s)[0 := NUL], defaultPage := ?clear (defaultPage s),
     defaultCallback := None, pages := map ?clear (pages s)\<rparr>"
  have z: "strz ((ssePage s)[0 := NUL]) = []" "terminated ((ssePage s)[0 := NUL])"
    using assms by (cases "ssePage s"; simp add: sized_def)+
  have empty: "\<forall>p \<in> set (map ?clear (pages s)). page_content p = None \<and> length (page_url p) = 32"
    using assms by (auto simp: sized_def)
  have ok: "server_ok ?t"
    using assms z i by (auto simp: server_ok_def sized_def page_ok_def)
  have ps: "table_inv (map ?clear (pages s))" "free_slots (map ?clear (pages s)) = 8"
    "page_table (map ?clear (pages s)) = Map.empty"
  proof -
    have "front_filled qs" if "\<forall>p \<in> set qs. page_content p = None" for qs
      using that by (induction qs) auto
    then show "table_inv (map ?clear (pages s))" using empty by (simp add: table_inv_def)
    have "filter (\<lambda>p. page_content p = None) (map ?clear (pages s)) = map ?clear (pages s)"
      using empty by (simp add: filter_id_conv)
    then show "free_slots (map ?clear (pages s)) = 8"
      using assms by (simp add: free_slots_def sized_def)
    show "page_table (map ?clear (pages s)) = Map.empty"
      using empty by (intro page_table_empty) blast
  qed
  let ?ps = "add_entry (cstr ''/favicon.ico'') (favicon_ico, favicon_ico_len, IMAGE_PNG) (map ?clear (pages s))"
  have add: "ensures (attoHTTPAddPage (cstr ''/favicon.ico'') (Some favicon_ico) favicon_ico_len IMAGE_PNG ?t)
      (\<lambda>(ret, s'). server_ok s' \<and> s' = ?t\<lparr>pages := ?ps\<rparr>)"
    by (rule ensures_mono [OF AddPage_ok [OF ok]])
      (auto simp: favicon_length favicon_ico_len_def add_entry_def)
  have k: "page_key (cstr ''/favicon.ico'') = ''/favicon.ico''"
    by (simp add: page_key_def)
  have "page_table ?ps = [''/favicon.ico'' \<mapsto> (favicon_ico, favicon_ico_len, IMAGE_PNG)]"
    using pt.add_free [OF ps(1)] ps(2,3) by (simp add: table_add_def k)
  moreover have "table_inv ?ps" "free_slots ?ps = 7"
    using ps by (simp_all add: pt.add_inv pt.add_slots)
  ultimately have "ensures (attoHTTPAddPage (cstr ''/favicon.ico'') (Some favicon_ico) favicon_ico_len IMAGE_PNG ?t)
      (\<lambda>(ret, s'). server_ok s' \<and> table_inv (pages s') \<and> free_slots (pages s') = 7 \<and>
       page_table (pages s') = [''/favicon.ico'' \<mapsto> (favicon_ico, favicon_ico_len, IMAGE_PNG)] \<and>
       page_content (defaultPage s') = None \<and> defaultCallback s' = None \<and> strz (ssePage s') = [])"
    by (intro ensures_mono [OF add]) (auto simp: z(1))
  then show ?thesis
    using assms unfolding attoHTTPInit_def Let_def
    by (auto simp: sized_def i clear_page_eq clear_pages_eq elim!: ensures_mono)
qed

section \<open>The levels of a REST URL\<close>

text \<open>Whatever the URL is, the splitter stays inside the buffer and the two arrays.\<close>

lemma api_levels_total:
  "p + c \<le> 63 \<Longrightarrow> length u = 64 \<Longrightarrow> u ! 63 = NUL \<Longrightarrow> length cmd = 3 \<Longrightarrow> length ids = 3 \<Longrightarrow>
   il \<le> cl \<Longrightarrow> cl \<le> 3 \<Longrightarrow>
   ensures (api_levels_loop u p c cmd ids cl il) (\<lambda>(u', cmd', ids', cl', il').
     length u' = 64 \<and> u' ! 63 = NUL \<and> length cmd' = 3 \<and> length ids' = 3 \<and> il' \<le> cl' \<and> cl' \<le> 3)"
proof (induction c arbitrary: u p cmd ids cl il)
  case (Suc c)
  have nul: "(u[p := NUL]) ! 63 = NUL"
    using Suc.prems(2,3) by (cases "p = 63") auto
  show ?case
  proof (cases "u ! p = CHR ''/''")
    case True
    have "\<exists>cmd' ids' cl' il'. (if cl = il \<and> cl < ATTOHTTP_API_LEVELS then
            (if Suc c > 1 then rbind (store cmd cl (Some (p + 1))) (\<lambda>command. returns (command, ids, cl + 1, il))
             else returns (cmd, ids, cl, il))
          else if cl > il \<and> il < ATTOHTTP_API_LEVELS then
            (if Suc c > 1 then rbind (store ids il (Some (p + 1))) (\<lambda>ids. returns (cmd, ids, cl, il + 1))
             else returns (cmd, ids, cl, il))
          else returns (cmd, ids, cl, il)) = returns (cmd', ids', cl', il') \<and>
        length cmd' = 3 \<and> length ids' = 3 \<and> il' \<le> cl' \<and> cl' \<le> 3"
      using Suc.prems by auto
    then obtain cmd' ids' cl' il' where
      st: "(if cl = il \<and> cl < ATTOHTTP_API_LEVELS then
            (if Suc c > 1 then rbind (store cmd cl (Some (p + 1))) (\<lambda>command. returns (command, ids, cl + 1, il))
             else returns (cmd, ids, cl, il))
          else if cl > il \<and> il < ATTOHTTP_API_LEVELS then
            (if Suc c > 1 then rbind (store ids il (Some (p + 1))) (\<lambda>ids. returns (cmd, ids, cl, il + 1))
             else returns (cmd, ids, cl, il))
          else returns (cmd, ids, cl, il)) = returns (cmd', ids', cl', il')"
      and le: "length cmd' = 3" "length ids' = 3" "il' \<le> cl'" "cl' \<le> 3"
      by blast
    have "api_levels_loop u p (Suc c) cmd ids cl il = api_levels_loop (u[p := NUL]) (p + 1) c cmd' ids' cl' il'"
      using Suc.prems(1,2) True unfolding api_levels_loop.simps st by simp
    then show ?thesis
      using Suc.IH [of "p + 1" "u[p := NUL]" cmd' ids' il' cl'] Suc.prems(1,2) nul le by simp
  next
    case False
    with Suc show ?thesis by simp
  qed
qed simp

text \<open>
  What the splitter does with a path of segments: they are the commands and the ids in turn,
  three of each at most. The offset of each is handed to the callback.
\<close>

fun alternate :: "'a list \<Rightarrow> 'a list \<times> 'a list" where
  "alternate [] = ([], [])"
| "alternate [x] = ([x], [])"
| "alternate (x # y # r) = (case alternate r of (a, b) \<Rightarrow> (x # a, y # b))"

fun seg_offsets :: "nat \<Rightarrow> string list \<Rightarrow> nat list" where
  "seg_offsets p [] = []"
| "seg_offsets p (x # xs) = (p + 1) # seg_offsets (p + 1 + length x) xs"

type_synonym levels = "nat option list \<times> nat option list \<times> nat \<times> nat"

fun assign_level :: "nat \<Rightarrow> levels \<Rightarrow> levels" where
  "assign_level x (cmd, ids, cl, il) =
     (if cl = il \<and> cl < 3 then (cmd[cl := Some x], ids, cl + 1, il)
      else if cl > il \<and> il < 3 then (cmd, ids[il := Some x], cl, il + 1)
      else (cmd, ids, cl, il))"

abbreviation assign_levels :: "nat list \<Rightarrow> levels \<Rightarrow> levels" where
  "assign_levels xs l \<equiv> fold assign_level xs l"

lemma assign_levels_full: "assign_levels xs (cmd, ids, 3, 3) = (cmd, ids, 3, 3)"
  by (induction xs) auto

lemma assign_levels_alternate:
  "length cmd = 3 \<Longrightarrow> length ids = 3 \<Longrightarrow> n \<le> 3 \<Longrightarrow>
   assign_levels xs (cmd, ids, n, n) =
     (splice cmd n (map Some (take (3 - n) (fst (alternate xs)))),
      splice ids n (map Some (take (3 - n) (snd (alternate xs)))),
      min 3 (n + length (fst (alternate xs))), min 3 (n + length (snd (alternate xs))))"
proof (induction xs arbitrary: cmd ids n rule: alternate.induct)
  case (2 x)
  show ?case
  proof (cases "n = 3")
    case False
    with 2 have "take (3 - n) [x] = [x]" by simp
    with 2 False show ?thesis by (simp add: splice_single)
  qed simp
next
  case (3 x y r)
  show ?case
  proof (cases "n = 3")
    case True
    then show ?thesis by (simp add: assign_levels_full split: prod.split)
  next
    case False
    obtain a b where ab: "alternate r = (a, b)" by (cases "alternate r")
    from 3 False have "3 - n = Suc (3 - (n + 1))" by simp
    with 3 False ab show ?thesis by (simp add: splice_update)
  qed
qed simp

definition segment :: "string \<Rightarrow> bool" where
  "segment x \<longleftrightarrow> x \<noteq> [] \<and> CHR ''/'' \<notin> set x \<and> NUL \<notin> set x"

definition path_of :: "string list \<Rightarrow> string" where
  "path_of segs = concat (map (\<lambda>x. CHR ''/'' # x) segs)"

definition split_of :: "string list \<Rightarrow> string" where
  "split_of segs = concat (map (\<lambda>x. NUL # x) segs)"

lemma length_split_of: "length (split_of segs) = length (path_of segs)"
  by (induction segs) (simp_all add: split_of_def path_of_def)

definition levels_loop :: "string \<Rightarrow> nat \<Rightarrow> nat \<Rightarrow> levels \<Rightarrow> (string \<times> levels) run" where
  "levels_loop u p c l = (case l of (cmd, ids, cl, il) \<Rightarrow> api_levels_loop u p c cmd ids cl il)"

definition levels_ok :: "levels \<Rightarrow> bool" where
  "levels_ok l \<longleftrightarrow> (case l of (cmd, ids, cl, il) \<Rightarrow>
     length cmd = 3 \<and> length ids = 3 \<and> il \<le> cl \<and> cl \<le> 3)"

lemma levels_ok_assign: "levels_ok l \<Longrightarrow> levels_ok (assign_level x l)"
  by (cases l) (auto simp: levels_ok_def)

lemma levels_loop_end: "levels_loop (pre @ NUL # rest) (length pre) c l = returns (pre @ NUL # rest, l)"
  by (cases l; cases c) (simp_all add: levels_loop_def)

lemma levels_loop_char:
  "x \<noteq> CHR ''/'' \<Longrightarrow> x \<noteq> NUL \<Longrightarrow>
   levels_loop (pre @ x # post) (length pre) (Suc c) l = levels_loop (pre @ x # post) (Suc (length pre)) c l"
  by (cases l) (simp add: levels_loop_def)

lemma levels_loop_slash:
  assumes "0 < c" and "levels_ok l"
  shows "levels_loop (pre @ CHR ''/'' # post) (length pre) (Suc c) l =
     levels_loop (pre @ NUL # post) (Suc (length pre)) c (assign_level (length pre + 1) l)"
  using assms by (cases l) (auto simp: levels_loop_def levels_ok_def)

lemma levels_loop_skip:
  "CHR ''/'' \<notin> set x \<Longrightarrow> NUL \<notin> set x \<Longrightarrow>
   levels_loop (pre @ x @ post) (length pre) (length x + c) l =
   levels_loop (pre @ x @ post) (length pre + length x) c l"
proof (induction x arbitrary: pre)
  case (Cons a x)
  have "a \<noteq> CHR ''/''" "a \<noteq> NUL" using Cons.prems by auto
  then have "levels_loop (pre @ (a # x) @ post) (length pre) (length (a # x) + c) l
      = levels_loop (pre @ a # x @ post) (Suc (length pre)) (length x + c) l"
    by (simp add: levels_loop_char)
  also have "\<dots> = levels_loop ((pre @ [a]) @ x @ post) (length (pre @ [a])) (length x + c) l" by simp
  also have "\<dots> = levels_loop ((pre @ [a]) @ x @ post) (length (pre @ [a]) + length x) c l"
    by (rule Cons.IH) (use Cons.prems in auto)
  finally show ?case by simp
qed simp

lemma levels_loop_segments:
  "\<forall>x \<in> set segs. segment x \<Longrightarrow> levels_ok l \<Longrightarrow>
   levels_loop (pre @ path_of segs @ NUL # rest) (length pre) (length (path_of segs) + c) l =
   returns (pre @ split_of segs @ NUL # rest, assign_levels (seg_offsets (length pre) segs) l)"
proof (induction segs arbitrary: pre l)
  case Nil
  show ?case by (simp add: path_of_def split_of_def levels_loop_end)
next
  case (Cons x segs)
  have x: "CHR ''/'' \<notin> set x" "NUL \<notin> set x" "length x > 0" using Cons.prems(1) by (auto simp: segment_def)
  have path: "path_of (x # segs) = CHR ''/'' # x @ path_of segs" "split_of (x # segs) = NUL # x @ split_of segs"
    by (simp_all add: path_of_def split_of_def)
  let ?n = "length (path_of segs) + c" and ?l = "assign_level (length pre + 1) l"
  have "levels_loop (pre @ path_of (x # segs) @ NUL # rest) (length pre) (length (path_of (x # segs)) + c) l
      = levels_loop (pre @ CHR ''/'' # x @ path_of segs @ NUL # rest) (length pre) (Suc (length x + ?n)) l"
    by (simp add: path add.assoc)
  also have "\<dots> = levels_loop (pre @ NUL # x @ path_of segs @ NUL # rest) (Suc (length pre)) (length x + ?n) ?l"
    by (rule levels_loop_slash) (use x Cons.prems in auto)
  also have "\<dots> = levels_loop ((pre @ [NUL]) @ x @ path_of segs @ NUL # rest) (length (pre @ [NUL])) (length x + ?n) ?l"
    by simp
  also have "\<dots> = levels_loop ((pre @ [NUL]) @ x @ path_of segs @ NUL # rest) (length (pre @ [NUL]) + length x) ?n ?l"
    by (rule levels_loop_skip [OF x(1,2)])
  also have "\<dots> = levels_loop ((pre @ NUL # x) @ path_of segs @ NUL # rest) (length (pre @ NUL # x)) ?n ?l"
    by simp
  also have "\<dots> = returns ((pre @ NUL # x) @ split_of segs @ NUL # rest,
      assign_levels (seg_offsets (length (pre @ NUL # x)) segs) ?l)"
    by (rule Cons.IH) (use Cons.prems levels_ok_assign in auto)
  finally show ?case by (simp add: path)
qed

text \<open>At the offset of a segment the split buffer holds the segment as a C string.\<close>

lemma seg_offsets_strings:
  "\<forall>x \<in> set segs. segment x \<Longrightarrow> length pre = p \<Longrightarrow>
   map (\<lambda>k. strz (drop k (pre @ split_of segs @ NUL # rest))) (seg_offsets p segs) = segs"
proof (induction segs arbitrary: pre p)
  case (Cons x segs)
  have x: "NUL \<notin> set x" using Cons.prems(1) by (auto simp: segment_def)
  have split: "split_of (x # segs) = NUL # x @ split_of segs" by (simp add: split_of_def)
  obtain r where r: "split_of segs @ NUL # rest = NUL # r"
    by (cases segs) (auto simp: split_of_def)
  have "strz (x @ split_of segs @ NUL # rest) = x"
    using x by (simp add: r)
  moreover have "map (\<lambda>k. strz (drop k ((pre @ NUL # x) @ split_of segs @ NUL # rest)))
      (seg_offsets (p + 1 + length x) segs) = segs"
    by (rule Cons.IH) (use Cons.prems in auto)
  ultimately show ?case using Cons.prems(2) by (simp add: split)
qed simp

lemma alternate_map: "alternate (map f xs) = (map f (fst (alternate xs)), map f (snd (alternate xs)))"
  by (induction xs rule: alternate.induct) (auto split: prod.split)

section \<open>Finding the page\<close>

lemma is_server_sent_events_eq:
  assumes "server_ok s"
  shows "is_server_sent_events s = returns (strz (ssePage s) \<noteq> [] \<and> strz (url s) = strz (ssePage s))"
proof -
  have t: "terminated (url s)" "terminated (ssePage s)"
    and l: "length (strz (url s)) < 64" "length (strz (ssePage s)) < 32"
    using server_ok_url [OF assms] assms length_strz_terminated
    by (fastforce simp: server_ok_def)+
  have "ensures (strncmp (url s) (ssePage s) 64) (\<lambda>r. r = 0 \<longleftrightarrow> strz (url s) = strz (ssePage s))"
    using strncmp_spec [of "url s" 64 "ssePage s"] t l by simp
  then show ?thesis
    using t by (auto simp: is_server_sent_events_def strlen_terminated elim!: ensuresE)
qed

lemma select_page_ok: "server_ok s \<Longrightarrow> select_page s = returns (page_of s)"
  by (simp add: select_page_eq server_ok_url server_ok_lengths)

lemma page_of_ok:
  assumes "server_ok s" and "page_of s = Some p"
  obtains b where "page_content p = Some b" and "unat (page_size p) \<le> length b"
proof -
  obtain b where b: "page_content p = Some b"
    using page_of_content [OF assms(2)] by auto
  moreover have "page_ok p"
    using page_of_mem [OF assms(2)] assms(1) by (auto simp: server_ok_def)
  ultimately show ?thesis using that by (simp add: page_ok_def)
qed

text \<open>
  The user's callback returns, and keeps the buffers of the server, in the states it is called in: the
  position of the parameters is the one the parser has left (\<open>params_ok\<close>).
\<close>

definition callback_ok :: "'io env \<Rightarrow> bool" where
  "callback_ok E \<longleftrightarrow> (\<forall>cb m a cmd ids cl il s. server_ok s \<longrightarrow> params_ok s \<longrightarrow>
     ensures (callback E cb m a cmd ids cl il s) (\<lambda>(rc, s'). server_ok s'))"

lemma FindAPICallback_total:
  assumes "server_ok s" and "callback_ok E" and "params_ok s"
  shows "ensures (attoHTTPFindAPICallback E s) (\<lambda>(ret, s'). server_ok s' \<and> (ret = 1 \<or> ret = 0))"
proof (cases "defaultCallback s")
  case (Some cb)
  have "ensures (api_levels_loop (url s) 0 (url_len s) (replicate 3 None) (replicate 3 None) 0 0)
      (\<lambda>(u', cmd', ids', cl', il'). length u' = 64 \<and> u' ! 63 = NUL \<and> length cmd' = 3 \<and> length ids' = 3 \<and>
        il' \<le> cl' \<and> cl' \<le> 3)"
    by (rule api_levels_total) (use assms(1) in \<open>simp_all add: server_ok_def\<close>)
  then obtain u cmd ids cl il where l: "api_levels_loop (url s) 0 (url_len s) (replicate 3 None)
      (replicate 3 None) 0 0 = returns (u, cmd, ids, cl, il)" "length u = 64" "u ! 63 = NUL"
    by (auto elim!: ensuresE)
  have ok: "server_ok (s\<lparr>url := u\<rparr>)"
    using assms(1) l by (simp add: server_ok_def)
  then have "ensures (callback E cb (http_method s) (accept s) cmd ids cl il (s\<lparr>url := u\<rparr>)) (\<lambda>(rc, s'). server_ok s')"
    using assms(2,3) unfolding callback_ok_def by simp
  with Some l ok show ?thesis
    by (auto simp: attoHTTPFindAPICallback_def Let_def elim!: ensures_mono)
qed (use assms in \<open>simp add: attoHTTPFindAPICallback_def\<close>)

context byte_channel
begin

text \<open>A GET for a page sends the status line, the headers and the content.\<close>

lemma FindPage_page:
  assumes ok: "server_ok s" and p: "page_of s = Some p" and b: "page_content p = Some b"
    and get: "http_method s = METHOD_GET"
  defines "t \<equiv> s\<lparr>returnCode := STATUS_OK, contenttype := page_type p, contentlength := page_size p\<rparr>"
  shows "\<exists>s'. attoHTTPFindPage E s = returns (1, s') \<and>
    snds (first_line_part 200 s @
        (if headersSent s then [] else page_headers (page_type p) (page_size p) (gzipPages E)) @
        take (unat (page_size p)) b)
      (first_line_state 200 t\<lparr>headersSent := True\<rparr>) s'"
proof -
  obtain n s1 where s1: "attoHTTPSendHeaders E t = returns (n, s1)"
    "snds (first_line_part 200 t @ (if headersSent t then []
        else page_headers (contenttype t) (contentlength t) (gzipPages E)))
      (first_line_state 200 t\<lparr>headersSent := True\<rparr>) s1"
    using SendHeaders_sends [of t] by (auto simp: t_def)
  have "unat (page_size p) \<le> length b"
    using page_of_ok [OF ok p] b by auto
  then obtain s2 where s2: "attoHTTPwrite E b (page_size p) s1 = returns (page_size p, s2)"
    "snds (take (unat (page_size p)) b) s1 s2"
    using write_sends by blast
  have "attoHTTPFindPage E s = returns (1, s2)"
    using s1(1) s2(1) p b get ok unfolding t_def
    by (simp add: attoHTTPFindPage_def select_page_ok)
  moreover have "first_line_part 200 t = first_line_part 200 s" "headersSent t = headersSent s"
    "contenttype t = page_type p" "contentlength t = page_size p"
    by (simp_all add: t_def first_line_part_def)
  ultimately show ?thesis
    using sends_trans [OF s1(2) s2(2)] by auto
qed

lemma FindPage_wrong_method:
  "server_ok s \<Longrightarrow> page_of s = Some p \<Longrightarrow> http_method s \<noteq> METHOD_GET \<Longrightarrow>
   attoHTTPFindPage E s = returns (-1, s\<lparr>returnCode := STATUS_UNSUPPORTED\<rparr>)"
  by (simp add: attoHTTPFindPage_def select_page_ok)

lemma FindPage_events:
  assumes "server_ok s" and "page_of s = None" and "strz (url s) = strz (ssePage s)" "strz (ssePage s) \<noteq> []"
  shows "\<exists>s'. attoHTTPFindPage E s = returns (1, s') \<and>
    snds (first_line_part 200 s @ event_stream_headers)
      (first_line_state 200 s\<lparr>returnCode := STATUS_SERVERSENTEVENTS, headersSent := True\<rparr>) s'"
  using SendServerSentEventHeaders_sends [of s] assms
  by (auto simp: attoHTTPFindPage_def select_page_ok is_server_sent_events_eq)

lemma FindPage_api:
  "server_ok s \<Longrightarrow> page_of s = None \<Longrightarrow> strz (ssePage s) = [] \<or> strz (url s) \<noteq> strz (ssePage s) \<Longrightarrow>
   attoHTTPFindPage E s = attoHTTPFindAPICallback E s"
  by (auto simp: attoHTTPFindPage_def select_page_ok is_server_sent_events_eq)

lemma FindPage_total:
  assumes "server_ok s" and "callback_ok E" and "params_ok s"
  shows "ensures (attoHTTPFindPage E s) (\<lambda>(ret, s'). server_ok s')"
proof (cases "page_of s")
  case (Some p)
  obtain b where b: "page_content p = Some b"
    using page_of_ok [OF assms(1) Some] by blast
  show ?thesis
  proof (cases "http_method s = METHOD_GET")
    case True
    from FindPage_page [OF assms(1) Some b True] show ?thesis
      using assms(1) by (auto dest!: server_ok_sends)
  qed (simp add: FindPage_wrong_method [OF assms(1) Some] assms(1))
next
  case None
  show ?thesis
  proof (cases "strz (url s) = strz (ssePage s) \<and> strz (ssePage s) \<noteq> []")
    case True
    with FindPage_events [OF assms(1) None] show ?thesis
      using assms(1) by (auto dest!: server_ok_sends)
  next
    case False
    then have "attoHTTPFindPage E s = attoHTTPFindAPICallback E s"
      using FindPage_api [OF assms(1) None] by blast
    with FindAPICallback_total [OF assms] show ?thesis by (auto elim!: ensures_mono)
  qed
qed

end

end
