(* ===== verification/Server.thy ===== *)
theory Server
  imports Headers Dispatch
begin

text \<open>\<^verbatim>\<open>attoHTTPExecute\<close> of \<^verbatim>\<open>src/src/attohttp.c\<close>, which serves one connection.\<close>

section \<open>Definitions\<close>

definition serve_request :: "'io env \<Rightarrow> 'io http \<Rightarrow> 'io http run" where
  "serve_request E s =
     rbind (if returnCode s = STATUS_RUNKNOWN then
              rbind (attoHTTPParseURL E s) (\<lambda>(_, s).
              rbind (attoHTTPParseVersion E s) (\<lambda>(_, s). returns s))
            else returns s) (\<lambda>s.
     rbind (if returnCode s = STATUS_RUNKNOWN
            then rbind (attoHTTPParseHeaders E s) (\<lambda>(_, s). returns s)
            else returns s) (\<lambda>s.
     let s = (if authenticated s = 0 then s\<lparr>returnCode := STATUS_UNAUTHORIZED\<rparr> else s) in
     rbind (if returnCode s = STATUS_RUNKNOWN then
              let s = s\<lparr>returnCode := STATUS_NOT_FOUND\<rparr> in
              rbind (attoHTTPFindPage E s) (\<lambda>(ret, s).
              returns (if ret > 0 \<and> returnCode s = STATUS_RUNKNOWN
                       then s\<lparr>returnCode := STATUS_OK\<rparr> else s))
            else returns s) (\<lambda>s.
     returns (if returnCode s = STATUS_RUNKNOWN
              then s\<lparr>returnCode := STATUS_INTERNAL_ERROR\<rparr> else s))))"

definition finish_response :: "'io env \<Rightarrow> 'io http \<Rightarrow> 'io http run" where
  "finish_response E s =
     (if returnCode s = STATUS_UNAUTHORIZED
      then rbind (attoHTTPSendAuthMessage E None s) (\<lambda>(_, s). returns s)
      else if returnCode s = STATUS_SERVERSENTEVENTS
      then rbind (attoHTTPFirstLine E (returncode_value STATUS_OK) s) (\<lambda>(_, s). returns s)
      else rbind (attoHTTPFirstLine E (returncode_value (returnCode s)) s) (\<lambda>(_, s). returns s))"

definition attoHTTPExecute ::
    "'io env \<Rightarrow> handle \<Rightarrow> handle \<Rightarrow> 'io http \<Rightarrow> (returncode \<times> 'io http) run" where
  "attoHTTPExecute E rd wr s =
     (let s = attoHTTPInitRun E (s\<lparr>read_h := rd, write_h := wr\<rparr>) in
      rbind (attoHTTPParseMethod E s) (\<lambda>(_, s).
      rbind (serve_request E s) (\<lambda>s.
      rbind (finish_response E s) (\<lambda>s.
      returns (returnCode s, s)))))"

section \<open>What parsing leaves alone\<close>

text \<open>
  Parsing a request sends nothing, keeps the registered pages and the flags of the response,
  and keeps the invariant of the buffers.
\<close>

definition request_rel :: "(handle \<Rightarrow> 'io \<Rightarrow> string) \<Rightarrow> 'io http \<Rightarrow> 'io http \<Rightarrow> bool" where
  "request_rel w s s' \<longleftrightarrow> (\<forall>g. w g (io s') = w g (io s)) \<and> write_h s' = write_h s \<and>
     firstlineSent s' = firstlineSent s \<and> headersSent s' = headersSent s \<and> pages s' = pages s \<and>
     defaultPage s' = defaultPage s \<and> ssePage s' = ssePage s \<and>
     defaultCallback s' = defaultCallback s \<and> (server_ok s \<longrightarrow> server_ok s')"

lemma request_rel_refl [simp]: "request_rel w s s"
  by (simp add: request_rel_def)

lemma request_rel_trans: "request_rel w s t \<Longrightarrow> request_rel w t u \<Longrightarrow> request_rel w s u"
  by (simp add: request_rel_def)

lemma request_rel_reads: "reads p w s s' \<Longrightarrow> request_rel w s s'"
  by (simp add: request_rel_def reads_fields reads_sent server_ok_reads)

lemma request_rel_updates [simp]:
  "request_rel w (s\<lparr>http_method := m\<rparr>) s' = request_rel w s s'"
  "request_rel w (s\<lparr>version := v\<rparr>) s' = request_rel w s s'"
  "request_rel w (s\<lparr>returnCode := c\<rparr>) s' = request_rel w s s'"
  "request_rel w (s\<lparr>headersDone := h\<rparr>) s' = request_rel w s s'"
  "request_rel w (s\<lparr>accept := a\<rparr>) s' = request_rel w s s'"
  "request_rel w (s\<lparr>contenttype := t\<rparr>) s' = request_rel w s s'"
  "request_rel w (s\<lparr>authenticated := z\<rparr>) s' = request_rel w s s'"
  by (simp_all add: request_rel_def)

lemma request_rel_header: "header_rel E p w s s' \<Longrightarrow> request_rel w s s'"
  using request_rel_reads [of p w "header_set s' s" s']
  by (simp add: header_rel_def) (simp add: header_set_def)

lemma request_rel_url_frame:
  assumes "url_frame s t" and "reads p w t s'" and "length (url s') = 64" and "url s' ! 63 = NUL"
    and "url_len s \<le> 63 \<longrightarrow> url_len s' \<le> 63"
  shows "request_rel w s s'" and "authenticated s' = authenticated s" and "returnCode s' = returnCode s"
    and "http_method s' = http_method s"
proof -
  define u n q k where d: "u = url t" "n = url_len t" "q = url_params t" "k = url_params_start t"
  then have t: "t = s\<lparr>url := u, url_len := n, url_params := q, url_params_start := k\<rparr>"
    using assms(1) by (simp add: url_frame_def)
  show "authenticated s' = authenticated s" "returnCode s' = returnCode s" "http_method s' = http_method s"
    using reads_fields [OF assms(2)] by (simp_all add: t)
  have "server_ok s' = server_ok t" by (rule server_ok_reads [OF assms(2)])
  moreover have "length u = 64" "u ! 63 = NUL" "url_len s \<le> 63 \<longrightarrow> n \<le> 63"
    using assms(3-5) reads_fields [OF assms(2)] by (simp_all add: t)
  ultimately have "server_ok s \<longrightarrow> server_ok s'" by (simp add: t server_ok_def)
  then show "request_rel w s s'"
    using reads_fields [OF assms(2)] reads_sent [OF assms(2)] by (simp add: request_rel_def t)
qed

text \<open>\<^verbatim>\<open>attoHTTPExecute\<close> in phases: the request is parsed, then it is answered.\<close>

definition parsed :: "'io env \<Rightarrow> 'io http \<Rightarrow> 'io http run" where
  "parsed E s =
     rbind (if returnCode s = STATUS_RUNKNOWN then
              rbind (attoHTTPParseURL E s) (\<lambda>(_, s).
              rbind (attoHTTPParseVersion E s) (\<lambda>(_, s). returns s))
            else returns s) (\<lambda>s.
     if returnCode s = STATUS_RUNKNOWN
     then rbind (attoHTTPParseHeaders E s) (\<lambda>(_, s). returns s)
     else returns s)"

definition answer :: "'io env \<Rightarrow> 'io http \<Rightarrow> 'io http run" where
  "answer E s =
     rbind (if returnCode s = STATUS_RUNKNOWN then
              rbind (attoHTTPFindPage E (s\<lparr>returnCode := STATUS_NOT_FOUND\<rparr>)) (\<lambda>(ret, s).
              returns (if ret > 0 \<and> returnCode s = STATUS_RUNKNOWN
                       then s\<lparr>returnCode := STATUS_OK\<rparr> else s))
            else returns s) (\<lambda>s.
     finish_response E (if returnCode s = STATUS_RUNKNOWN
                        then s\<lparr>returnCode := STATUS_INTERNAL_ERROR\<rparr> else s))"

lemma Execute_phases:
  "attoHTTPExecute E rd wr s =
     rbind (attoHTTPParseMethod E (attoHTTPInitRun E (s\<lparr>read_h := rd, write_h := wr\<rparr>))) (\<lambda>(_, s).
     rbind (parsed E s) (\<lambda>s.
     rbind (answer E (if authenticated s = 0 then s\<lparr>returnCode := STATUS_UNAUTHORIZED\<rparr> else s)) (\<lambda>s.
     returns (returnCode s, s))))"
  unfolding attoHTTPExecute_def serve_request_def parsed_def answer_def Let_def
  by (simp add: rbind_assoc split_def)

context byte_channel
begin

text \<open>
  The parsing phases, whatever the client sends: they return, and they cannot turn a request
  that no check accepts into an authenticated one.
\<close>

definition parse_post :: "'io http \<Rightarrow> 'io http \<Rightarrow> bool" where
  "parse_post s s' \<longleftrightarrow> request_rel sent s s' \<and> (denies E \<and> authenticated s = 0 \<longrightarrow> authenticated s' = 0) \<and>
     (authMode E = NO_AUTH \<longrightarrow> authenticated s' = authenticated s) \<and> (params_ok s \<longrightarrow> params_ok s')"

lemma parse_post_trans: "parse_post s t \<Longrightarrow> parse_post t u \<Longrightarrow> parse_post s u"
  unfolding parse_post_def by (auto intro: request_rel_trans)

lemma ParseMethod_post:
  "ensures (attoHTTPParseMethod E s) (\<lambda>(ret, s'). parse_post s s' \<and> (params_ok s \<longrightarrow> params_ok s') \<and>
     url_params s' = url_params s)"
proof (rule ensures_mono [OF ParseMethod_total], clarify)
  fix ret s'
  assume r: "rds (s\<lparr>http_method := http_method s', returnCode := returnCode s'\<rparr>) s'"
  have "params_ok s' = params_ok s"
    using params_ok_reads [OF r] by simp
  then show "parse_post s s' \<and> (params_ok s \<longrightarrow> params_ok s') \<and> url_params s' = url_params s"
    using request_rel_reads [OF r] reads_fields [OF r] by (simp add: parse_post_def params_ok_reads [OF r])
qed

lemma ParseURL_post:
  assumes "server_ok s" and "params_ok s"
  shows "ensures (attoHTTPParseURL E s) (\<lambda>(ret, s'). parse_post s s')"
proof -
  have "length (url s) = 64" "url s ! 63 = NUL" using assms(1) by (simp_all add: server_ok_def)
  from ParseURL_total [OF this assms(2)] show ?thesis
    by (rule ensures_mono) (auto simp: parse_post_def dest: request_rel_url_frame)
qed

lemma ParseVersion_post: "ensures (attoHTTPParseVersion E s) (\<lambda>(ret, s'). parse_post s s')"
proof (rule ensures_mono [OF ParseVersion_total], clarify)
  fix ret s'
  assume r: "rds (s\<lparr>version := version s', headersDone := headersDone s'\<rparr>) s'"
  show "parse_post s s'"
    using request_rel_reads [OF r] reads_fields [OF r] by (simp add: parse_post_def params_ok_reads [OF r])
qed

lemma ParseHeaders_post: "ensures (attoHTTPParseHeaders E s) (\<lambda>(ret, s'). parse_post s s')"
  by (rule ensures_mono [OF ParseHeaders_total])
    (auto simp: parse_post_def header_rel_params_ok intro: request_rel_header, auto simp: header_rel_def)

lemma parse_post_refl [simp]: "parse_post s s"
  by (simp add: parse_post_def)

lemma parsed_post:
  assumes "server_ok s" and "params_ok s"
  shows "ensures (parsed E s) (parse_post s)"
proof -
  have version: "ensures (rbind (attoHTTPParseVersion E t) (\<lambda>(_, s). returns s)) (parse_post s)"
    if "parse_post s t" for t
    using that by (auto intro!: ensures_mono [OF ParseVersion_post] intro: parse_post_trans)
  have 1: "ensures (if returnCode s = STATUS_RUNKNOWN then
        rbind (attoHTTPParseURL E s) (\<lambda>(_, s). rbind (attoHTTPParseVersion E s) (\<lambda>(_, s). returns s))
      else returns s) (parse_post s)"
    using version by (auto intro!: ensures_mono [OF ParseURL_post [OF assms]])
  have 2: "ensures (if returnCode t = STATUS_RUNKNOWN
      then rbind (attoHTTPParseHeaders E t) (\<lambda>(_, s). returns s) else returns t) (parse_post s)"
    if "parse_post s t" for t
    using that by (auto intro!: ensures_mono [OF ParseHeaders_post] intro: parse_post_trans)
  show ?thesis
    unfolding parsed_def ensures_simps by (rule ensures_mono [OF 1 2])
qed

lemma finish_total:
  "ensures (finish_response E s) (\<lambda>s'. server_ok s' = server_ok s)"
proof (cases "returnCode s = STATUS_UNAUTHORIZED")
  case True
  obtain n s' where "attoHTTPSendAuthMessage E None s = returns (n, s')"
    "server_ok s' = server_ok s"
    using SendAuthMessage_sends [of None s] by (auto dest!: server_ok_sends)
  with True show ?thesis by (simp add: finish_response_def)
next
  case False
  have "ensures (rbind (attoHTTPFirstLine E c s) (\<lambda>(_, s). returns s)) (\<lambda>s'. server_ok s' = server_ok s)" for c
  proof (cases "firstlineSent s")
    case False
    then show ?thesis
      by (rule FirstLine_sends [of s c]) (auto dest: server_ok_sends)
  qed (simp add: FirstLine_again)
  with False show ?thesis by (simp add: finish_response_def)
qed

lemma answer_total:
  assumes "server_ok s" and "callback_ok E" and "params_ok s"
  shows "ensures (answer E s) server_ok"
proof -
  have fin: "ensures (finish_response E t) server_ok" if "server_ok t" for t
    using that by (auto intro!: ensures_mono [OF finish_total])
  have ok: "server_ok (s\<lparr>returnCode := STATUS_NOT_FOUND\<rparr>)" using assms(1) by simp
  have "params_ok (s\<lparr>returnCode := STATUS_NOT_FOUND\<rparr>)" using assms(3) by simp
  from ensures_mono [OF FindPage_total [OF ok assms(2) this]] show ?thesis
    unfolding answer_def using assms(1) fin by (cases "returnCode s = STATUS_RUNKNOWN") auto
qed

text \<open>
  Whatever the client sends, \<^verbatim>\<open>attoHTTPExecute\<close> returns, without undefined behaviour, and the
  buffers are again as a next call needs them.
\<close>

lemma Execute_total:
  assumes "server_ok s" and "callback_ok E"
  shows "ensures (attoHTTPExecute E rd wr s) (\<lambda>(rc, s'). server_ok s')"
proof -
  let ?i = "attoHTTPInitRun E (s\<lparr>read_h := rd, write_h := wr\<rparr>)"
  have i: "server_ok ?i" "params_ok ?i"
    using assms(1) server_ok_InitRun [of "s\<lparr>read_h := rd, write_h := wr\<rparr>" E]
    by (simp_all add: attoHTTPInitRun_def params_ok_def)
  obtain r s1 where m: "attoHTTPParseMethod E ?i = returns (r, s1)" "server_ok s1" "params_ok s1"
    using ParseMethod_post [of ?i] i by (auto elim!: ensuresE simp: parse_post_def request_rel_def)
  obtain s2 where p: "parsed E s1 = returns s2" "server_ok s2" "params_ok s2"
    using parsed_post [OF m(2,3)] m(2,3) by (auto elim!: ensuresE simp: parse_post_def request_rel_def)
  have "server_ok (if authenticated s2 = 0 then s2\<lparr>returnCode := STATUS_UNAUTHORIZED\<rparr> else s2)"
    "params_ok (if authenticated s2 = 0 then s2\<lparr>returnCode := STATUS_UNAUTHORIZED\<rparr> else s2)"
    using p(2,3) by simp_all
  from answer_total [OF this(1) assms(2) this(2)] show ?thesis
    unfolding Execute_phases m(1) rbind_simps prod.case p(1) by (simp del: if_split)
qed

text \<open>The answer to a request that is not authorised.\<close>

lemma answer_unauthorized:
  assumes "\<not> firstlineSent s" and "\<not> headersSent s"
  shows "\<exists>s'. answer E (s\<lparr>returnCode := STATUS_UNAUTHORIZED\<rparr>) = returns s' \<and> returnCode s' = STATUS_UNAUTHORIZED \<and>
    sent (write_h s) (io s') = sent (write_h s) (io s) @ status_line 401 @ auth_message (authMode E) None"
proof -
  let ?t = "s\<lparr>returnCode := STATUS_UNAUTHORIZED\<rparr>"
  obtain n s3 where s3: "attoHTTPSendAuthMessage E None ?t = returns (n, s3)"
    "snds (status_line 401 @ auth_message (authMode E) None) (first_line_state 401 ?t\<lparr>headersSent := True\<rparr>) s3"
    using SendAuthMessage_sends [of None ?t] assms by (auto simp: first_line_part_def)
  have "sent (write_h s) (io s3) = sent (write_h s) (io s) @ status_line 401 @ auth_message (authMode E) None"
    using s3(2) assms by (simp add: sends_def first_line_state_def after_first_line_def)
  moreover have "returnCode s3 = STATUS_UNAUTHORIZED"
    using sends_fields(3) [OF s3(2)] assms
    by (simp add: first_line_state_def after_first_line_def status_text_def)
  moreover have "answer E ?t = returns s3"
    by (simp add: answer_def finish_response_def s3(1))
  ultimately show ?thesis by blast
qed

text \<open>
  A build with authorisation, when the check accepts nothing: the answer is the 401 message
  and nothing else, no page and no callback is reached.
\<close>

lemma Execute_denied:
  assumes "server_ok s" and "denies E"
  shows "\<exists>s'. attoHTTPExecute E rd wr s = returns (STATUS_UNAUTHORIZED, s') \<and>
    sent wr (io s') = sent wr (io s) @ status_line 401 @ auth_message (authMode E) None"
proof -
  let ?i = "attoHTTPInitRun E (s\<lparr>read_h := rd, write_h := wr\<rparr>)"
  have i: "server_ok ?i" "params_ok ?i"
    using assms(1) server_ok_InitRun [of "s\<lparr>read_h := rd, write_h := wr\<rparr>" E]
    by (simp_all add: attoHTTPInitRun_def params_ok_def)
  have a: "authenticated ?i = 0" "\<not> firstlineSent ?i" "\<not> headersSent ?i" "io ?i = io s" "write_h ?i = wr"
    using assms(2) by (simp_all add: attoHTTPInitRun_def denies_def)
  obtain r s1 where m: "attoHTTPParseMethod E ?i = returns (r, s1)" "parse_post ?i s1" "params_ok s1"
    using ParseMethod_post [of ?i] i by (auto elim!: ensuresE)
  have "server_ok s1" using m(2) i(1) by (simp add: parse_post_def request_rel_def)
  with parsed_post [OF _ m(3)] obtain s2 where p: "parsed E s1 = returns s2" "parse_post s1 s2"
    by (auto elim!: ensuresE)
  from parse_post_trans [OF m(2) p(2)] a assms(2)
  have s2: "authenticated s2 = 0" "\<not> firstlineSent s2" "\<not> headersSent s2" "write_h s2 = wr"
    "sent wr (io s2) = sent wr (io s)"
    by (simp_all add: parse_post_def request_rel_def)
  from answer_unauthorized [OF s2(2,3)] s2 obtain s3 where
    "answer E (s2\<lparr>returnCode := STATUS_UNAUTHORIZED\<rparr>) = returns s3" "returnCode s3 = STATUS_UNAUTHORIZED"
    "sent wr (io s3) = sent wr (io s) @ status_line 401 @ auth_message (authMode E) None" by auto
  then show ?thesis
    unfolding Execute_phases m(1) rbind_simps prod.case p(1) by (simp add: s2(1))
qed

end

end
