(* ===== verification/Requests.thy ===== *)
theory Requests
  imports Server
begin

text \<open>
  Whole requests through \<^verbatim>\<open>attoHTTPExecute\<close>: what a client that sends a method, a URL and
  anything after them gets back, byte for byte.
\<close>

section \<open>The state at dispatch\<close>

lemma strz_url_bytes:
  "NUL \<notin> set t \<Longrightarrow> strz (map url_byte t @ NUL # r) = takeWhile (\<lambda>c. c \<noteq> CHR ''?'') t"
  by (induction t) (auto simp: url_byte_def)

text \<open>What the server compares with the registered URLs, and where the query string starts.\<close>

definition path_part :: "string \<Rightarrow> string" where
  "path_part tok = takeWhile (\<lambda>c. c \<noteq> CHR ''?'') (take 63 tok)"

text \<open>
  \<open>at_dispatch m tok s s'\<close>: \<open>s'\<close> is the state in which \<^verbatim>\<open>_attoHTTPFindPage\<close> is called for a request
  with method \<open>m\<close> and URL \<open>tok\<close>, \<open>s\<close> the state before the connection.
\<close>

definition at_dispatch ::
    "(handle \<Rightarrow> 'io \<Rightarrow> string) \<Rightarrow> handle \<Rightarrow> httpmethod \<Rightarrow> string \<Rightarrow> 'io http \<Rightarrow> 'io http \<Rightarrow> bool" where
  "at_dispatch w wr m tok s s' \<longleftrightarrow> request_rel w (s\<lparr>write_h := wr, firstlineSent := False, headersSent := False\<rparr>) s' \<and>
     server_ok s' \<and> http_method s' = m \<and> strz (url s') = path_part tok \<and> url_len s' = min 63 (length tok) \<and>
     take (min 63 (length tok)) (url s') = map url_byte (take 63 tok) \<and>
     url s' = splice (url s) 0 (map url_byte (take 63 tok) @ [NUL]) \<and> params_ok s' \<and>
     url_params s' = query_at 0 None (take 63 tok) \<and> returnCode s' = STATUS_NOT_FOUND"

lemma at_dispatch_fields:
  assumes "at_dispatch w wr m tok s s'"
  shows "w g (io s') = w g (io s)" "write_h s' = wr" "\<not> firstlineSent s'" "\<not> headersSent s'"
    "pages s' = pages s" "defaultPage s' = defaultPage s" "ssePage s' = ssePage s"
    "defaultCallback s' = defaultCallback s" "server_ok s'" "http_method s' = m" "strz (url s') = path_part tok"
    "url_len s' = min 63 (length tok)" "url s' = splice (url s) 0 (map url_byte (take 63 tok) @ [NUL])"
    "params_ok s'" "url_params s' = query_at 0 None (take 63 tok)" "returnCode s' = STATUS_NOT_FOUND"
proof -
  note a = assms [unfolded at_dispatch_def request_rel_def]
  show "w g (io s') = w g (io s)" "write_h s' = wr" "\<not> firstlineSent s'" "\<not> headersSent s'"
    "pages s' = pages s" "defaultPage s' = defaultPage s" "ssePage s' = ssePage s"
    "defaultCallback s' = defaultCallback s"
    using a by simp_all
  show "server_ok s'" "http_method s' = m" "strz (url s') = path_part tok"
    "url_len s' = min 63 (length tok)" "url s' = splice (url s) 0 (map url_byte (take 63 tok) @ [NUL])"
    "params_ok s'" "url_params s' = query_at 0 None (take 63 tok)" "returnCode s' = STATUS_NOT_FOUND"
    using a by blast+
qed

text \<open>What follows \<^verbatim>\<open>_attoHTTPFindPage\<close>.\<close>

definition after_find :: "'io env \<Rightarrow> int \<Rightarrow> 'io http \<Rightarrow> (returncode \<times> 'io http) run" where
  "after_find E ret s =
     (let s = (if ret > 0 \<and> returnCode s = STATUS_RUNKNOWN then s\<lparr>returnCode := STATUS_OK\<rparr> else s);
          s = (if returnCode s = STATUS_RUNKNOWN then s\<lparr>returnCode := STATUS_INTERNAL_ERROR\<rparr> else s)
      in rbind (finish_response E s) (\<lambda>s. returns (returnCode s, s)))"

text \<open>
  The request line: \<open>line_state E w wr m tok s s'\<close> says that \<open>s'\<close> is the state behind the URL of a
  request with method \<open>m\<close> and URL \<open>tok\<close>.
\<close>

definition line_state ::
    "'io env \<Rightarrow> (handle \<Rightarrow> 'io \<Rightarrow> string) \<Rightarrow> handle \<Rightarrow> httpmethod \<Rightarrow> string \<Rightarrow> 'io http \<Rightarrow> 'io http \<Rightarrow> bool" where
  "line_state E w wr m tok s s' \<longleftrightarrow>
     request_rel w (s\<lparr>write_h := wr, firstlineSent := False, headersSent := False\<rparr>) s' \<and> http_method s' = m \<and>
     url s' = splice (url s) 0 (map url_byte (take 63 tok) @ [NUL]) \<and> url_len s' = min 63 (length tok) \<and>
     url_params s' = query_at 0 None (take 63 tok) \<and> params_ok s' \<and> returnCode s' = STATUS_RUNKNOWN \<and>
     authenticated s' = (if authMode E = NO_AUTH then 1 else 0) \<and> \<not> headersDone s' \<and> accept s' = 1 \<and>
     contenttype s' = TEXT_HTML \<and> cblevel s' = 0 \<and> sblevel s' = 0 \<and> baselevel s' = NUL"

lemma line_state_fields:
  assumes "line_state E w wr m tok s s'"
  shows "request_rel w (s\<lparr>write_h := wr, firstlineSent := False, headersSent := False\<rparr>) s'" "http_method s' = m"
    "url s' = splice (url s) 0 (map url_byte (take 63 tok) @ [NUL])" "url_len s' = min 63 (length tok)"
    "url_params s' = query_at 0 None (take 63 tok)" "params_ok s'" "returnCode s' = STATUS_RUNKNOWN"
    "authenticated s' = (if authMode E = NO_AUTH then 1 else 0)" "\<not> headersDone s'" "accept s' = 1"
    "contenttype s' = TEXT_HTML" "cblevel s' = 0" "sblevel s' = 0" "baselevel s' = NUL"
  using assms by (simp_all add: line_state_def)

lemma url_frame_fields:
  assumes "url_frame s t"
  shows "returnCode t = returnCode s" "authenticated t = authenticated s" "headersDone t = headersDone s"
    "accept t = accept s" "contenttype t = contenttype s" "cblevel t = cblevel s" "sblevel t = sblevel s"
    "baselevel t = baselevel s"
proof -
  define u n q k where "u = url t" "n = url_len t" "q = url_params t" "k = url_params_start t"
  then have t: "t = s\<lparr>url := u, url_len := n, url_params := q, url_params_start := k\<rparr>"
    using assms by (simp add: url_frame_def)
  show "returnCode t = returnCode s" "authenticated t = authenticated s" "headersDone t = headersDone s"
    "accept t = accept s" "contenttype t = contenttype s" "cblevel t = cblevel s" "sblevel t = sblevel s"
    "baselevel t = baselevel s"
    by (simp_all add: t)
qed

context byte_channel
begin

lemma Execute_line:
  assumes ok: "server_ok s" and input: "pending rd (io s) = m @ SP # tok @ SP # rest"
    and m: "method_of_token m = Some mm"
    and tok: "\<forall>c \<in> set tok. \<not> isblank c" "NUL \<notin> set tok" "tok \<noteq> []"
  obtains s1 s2 where "attoHTTPParseMethod E (attoHTTPInitRun E (s\<lparr>read_h := rd, write_h := wr\<rparr>)) = returns (1, s1)"
    and "returnCode s1 = STATUS_RUNKNOWN" and "attoHTTPParseURL E s1 = returns (1, s2)"
    and "line_state E sent wr mm tok s s2" and "inp s2 = SP # rest"
proof -
  let ?i = "attoHTTPInitRun E (s\<lparr>read_h := rd, write_h := wr\<rparr>)"
  have i: "server_ok ?i" "params_ok ?i"
    using ok server_ok_InitRun [of "s\<lparr>read_h := rd, write_h := wr\<rparr>" E]
    by (simp_all add: attoHTTPInitRun_def params_ok_def)
  have ri: "request_rel sent (s\<lparr>write_h := wr, firstlineSent := False, headersSent := False\<rparr>) ?i"
    using i(1) by (simp add: request_rel_def attoHTTPInitRun_def)
  have inp: "inp ?i = [] @ m @ SP # tok @ SP # rest"
    using input by (simp add: input_of_def attoHTTPInitRun_def)
  have mt: "\<forall>c \<in> set m. \<not> isblank c" "NUL \<notin> set m" "m \<noteq> []" "length m \<le> 8"
    using m by (auto simp: method_of_token_def isblank_def split: if_splits)
  obtain s1 where s1: "attoHTTPParseMethod E ?i = returns (1, s1)" "inp s1 = [] @ tok @ SP # rest"
    "rds (?i\<lparr>http_method := mm\<rparr>) s1"
    using ParseMethod_token [OF inp _ _ mt] m by (auto elim!: ensuresE)
  have f1: "returnCode s1 = STATUS_RUNKNOWN" "url s1 = url s" "url_params s1 = None" "http_method s1 = mm"
    "authenticated s1 = (if authMode E = NO_AUTH then 1 else 0)" "\<not> headersDone s1" "accept s1 = 1"
    "contenttype s1 = TEXT_HTML" "cblevel s1 = 0" "sblevel s1 = 0" "baselevel s1 = NUL"
    using reads_fields [OF s1(3)] by (simp_all add: attoHTTPInitRun_def)
  have ok1: "server_ok s1" using server_ok_reads [OF s1(3)] i(1) by simp
  then have u1: "length (url s1) = 64" "url s1 ! 63 = NUL" by (simp_all add: server_ok_def)
  have p1: "params_ok s1" using params_ok_reads [OF s1(3)] i(2) by simp
  obtain s2 t2 where s2: "attoHTTPParseURL E s1 = returns (1, s2)" "inp s2 = SP # rest"
    "url s2 = splice (url s1) 0 (map url_byte (take 63 tok) @ [NUL])" "url_len s2 = min 63 (length tok)"
    "url_params s2 = query_at 0 None (take 63 tok)" "url_frame s1 t2" "rds t2 s2"
    using ParseURL_token [OF s1(2) _ _ tok u1 f1(3)] by (auto elim!: ensuresE)
  have lu: "length (url s2) = 64" "url s2 ! 63 = NUL" "url_len s2 \<le> 63"
    using u1 by (auto simp: s2(3,4) splice_def nth_append min_def nth_Cons')
  note uf = request_rel_url_frame [OF s2(6,7) lu(1,2)]
  have "request_rel sent ?i s1" using request_rel_reads [OF s1(3)] by simp
  then have "request_rel sent ?i s2" using uf(1) lu(3) by (blast intro: request_rel_trans)
  from request_rel_trans [OF ri this] have rel: "line_state E sent wr mm tok s s2"
    unfolding line_state_def
    using f1 uf(4) lu(3) reads_fields [OF s2(7)] url_frame_fields [OF s2(6)] s2(3-5) ParseURL_total [OF u1 p1] s2(1)
    by auto
  show ?thesis by (rule that [OF s1(1) f1(1) s2(1) rel s2(2)])
qed

text \<open>
  Behind the headers the request is dispatched, if the client is authenticated then and no header
  was refused.
\<close>

lemma Execute_headers_dispatch:
  assumes ok: "server_ok s" and tok: "NUL \<notin> set tok"
    and m: "attoHTTPParseMethod E (attoHTTPInitRun E (s\<lparr>read_h := rd, write_h := wr\<rparr>)) = returns (1, s1)"
    and rc: "returnCode s1 = STATUS_RUNKNOWN" and u: "attoHTTPParseURL E s1 = returns (1, s2)"
    and line: "line_state E sent wr mm tok s s2"
    and v: "attoHTTPParseVersion E s2 = returns (r3, s3)" "rds (s2\<lparr>version := version s3, headersDone := headersDone s3\<rparr>) s3"
    and h: "attoHTTPParseHeaders E s3 = returns (r4, s4)" "header_rel E pending sent s3 s4"
    and auth: "authenticated s4 \<noteq> 0" "returnCode s4 = STATUS_RUNKNOWN"
  shows "at_dispatch sent wr mm tok s (s4\<lparr>returnCode := STATUS_NOT_FOUND\<rparr>)"
    and "attoHTTPExecute E rd wr s =
      rbind (attoHTTPFindPage E (s4\<lparr>returnCode := STATUS_NOT_FOUND\<rparr>)) (\<lambda>(ret, s). after_find E ret s)"
proof -
  let ?t = "take 63 tok" and ?s = "s4\<lparr>returnCode := STATUS_NOT_FOUND\<rparr>"
  note f2 = line_state_fields [OF line]
  have f4: "http_method s4 = mm" "url s4 = url s2" "url_len s4 = url_len s2" "url_params s4 = url_params s2"
    "returnCode s3 = STATUS_RUNKNOWN"
    using header_rel_fields [OF h(2)] reads_fields [OF v(2)] f2(2,7) by simp_all
  have p4: "params_ok s4"
    using header_rel_params_ok [OF h(2)] params_ok_reads [OF v(2)] f2(6) by simp
  have "request_rel sent s2 s3" using request_rel_reads [OF v(2)] by simp
  then have rel: "request_rel sent (s\<lparr>write_h := wr, firstlineSent := False, headersSent := False\<rparr>) s4"
    by (rule request_rel_trans [OF f2(1) request_rel_trans [OF _ request_rel_header [OF h(2)]]])
  then have ok4: "server_ok s4" using ok by (simp add: request_rel_def)
  have l: "length (url s) = 64" using ok by (simp add: server_ok_def)
  have "NUL \<notin> set ?t" using tok by (auto dest: in_set_takeD)
  then have z: "strz (url s2) = path_part tok"
    unfolding path_part_def f2(3) splice_def by (simp add: strz_url_bytes)
  have tk: "take (min 63 (length tok)) (url s2) = map url_byte ?t"
    using l by (simp add: f2(3) splice_def min_def)
  show "at_dispatch sent wr mm tok s ?s"
    unfolding at_dispatch_def
  proof (intro conjI)
    show "request_rel sent (s\<lparr>write_h := wr, firstlineSent := False, headersSent := False\<rparr>) ?s"
      using rel by (simp add: request_rel_def)
  qed (use ok4 f4(1) f2(4,5) z tk f2(3) p4 in \<open>simp_all add: f4\<close>)
  have "parsed E s1 = returns s4"
    by (simp add: parsed_def rc u v(1) h(1) f2(7) f4(5))
  then show "attoHTTPExecute E rd wr s = rbind (attoHTTPFindPage E ?s) (\<lambda>(ret, s). after_find E ret s)"
    unfolding Execute_phases m rbind_simps prod.case
    by (simp add: auth answer_def after_find_def rbind_assoc split_def Let_def)
qed

text \<open>
  Without authorisation, a request line with a supported method reaches the dispatch, whatever
  follows it: a missing or malformed version, any headers or none, or the end of the input.
\<close>

lemma Execute_dispatch:
  assumes ok: "server_ok s" and auth: "authMode E = NO_AUTH"
    and input: "pending rd (io s) = m @ SP # tok @ SP # rest"
    and m: "method_of_token m = Some mm"
    and tok: "\<forall>c \<in> set tok. \<not> isblank c" "NUL \<notin> set tok" "tok \<noteq> []"
  shows "\<exists>s'. at_dispatch sent wr mm tok s s' \<and>
    attoHTTPExecute E rd wr s = rbind (attoHTTPFindPage E s') (\<lambda>(ret, s). after_find E ret s)"
proof -
  obtain s1 s2 where 2: "attoHTTPParseMethod E (attoHTTPInitRun E (s\<lparr>read_h := rd, write_h := wr\<rparr>)) = returns (1, s1)"
    "returnCode s1 = STATUS_RUNKNOWN" "attoHTTPParseURL E s1 = returns (1, s2)" "line_state E sent wr mm tok s s2"
    by (rule Execute_line [OF ok input m tok]) (rule that)
  obtain r3 s3 where 3: "attoHTTPParseVersion E s2 = returns (r3, s3)"
    "rds (s2\<lparr>version := version s3, headersDone := headersDone s3\<rparr>) s3"
    using ParseVersion_total [of s2] by (auto elim!: ensuresE)
  obtain r4 s4 where 4: "attoHTTPParseHeaders E s3 = returns (r4, s4)" "header_rel E pending sent s3 s4"
    using ParseHeaders_total [of s3] by (auto elim!: ensuresE)
  have "authenticated s4 \<noteq> 0" "returnCode s4 = STATUS_RUNKNOWN"
    using 4(2) auth reads_fields [OF 3(2)] line_state_fields(7,8) [OF 2(4)] by (simp_all add: header_rel_def)
  from Execute_headers_dispatch [OF ok tok(2) 2 3 4 this] show ?thesis by blast
qed

text \<open>What \<^verbatim>\<open>finish_response\<close> sends when the status line has been sent, and when nothing has.\<close>

lemma after_find_done:
  assumes "firstlineSent s" and "returnCode s \<noteq> STATUS_UNAUTHORIZED" and "returnCode s \<noteq> STATUS_RUNKNOWN"
  shows "after_find E ret s = returns (returnCode s, s)"
  using assms by (simp add: after_find_def finish_response_def FirstLine_again Let_def)

lemma after_find_code:
  assumes "\<not> firstlineSent s" and "returnCode s = c" and "status_text (returncode_value c) \<noteq> None"
    and "c \<noteq> STATUS_UNAUTHORIZED"
  shows "\<exists>s'. after_find E ret s = returns (c, s') \<and>
    sent (write_h s) (io s') = sent (write_h s) (io s) @ status_line (returncode_value c)"
proof -
  have c: "c \<noteq> STATUS_RUNKNOWN" "c \<noteq> STATUS_SERVERSENTEVENTS"
    using assms(3) by (auto simp: status_text_def)
  obtain n s' where s': "attoHTTPFirstLine E (returncode_value c) s = returns (n, s')"
    "snds (status_line (returncode_value c)) (after_first_line (returncode_value c) s) s'"
    by (rule FirstLine_sends [OF assms(1)])
  have "returnCode s' = c"
    using sends_fields(3) [OF s'(2)] assms(2,3) by (simp add: after_first_line_def)
  moreover have "sent (write_h s) (io s') = sent (write_h s) (io s) @ status_line (returncode_value c)"
    using s'(2) by (simp add: sends_def after_first_line_def)
  ultimately show ?thesis
    using assms(2,4) c s'(1) by (simp add: after_find_def finish_response_def)
qed

end

section \<open>Responses\<close>

text \<open>The page of a URL, as the registrations are.\<close>

definition page_at :: "'io http \<Rightarrow> string \<Rightarrow> page option" where
  "page_at s tok = page_of (s\<lparr>url := cstr (path_part tok), url_len := min 63 (length tok)\<rparr>)"

lemma page_at_cong: "pages s' = pages s \<Longrightarrow> defaultPage s' = defaultPage s \<Longrightarrow> page_at s' tok = page_at s tok"
  by (simp add: page_at_def page_of_def Let_def cong: if_cong)

lemma path_part_no_NUL: "NUL \<notin> set tok \<Longrightarrow> NUL \<notin> set (path_part tok)"
  unfolding path_part_def by (auto dest: in_set_takeD set_takeWhileD)

lemma page_of_dispatch:
  assumes "at_dispatch w wr m tok s s'" and "NUL \<notin> set tok"
  shows "page_of s' = page_at s tok"
proof -
  have "strz (url s') = path_part tok" "url_len s' = min 63 (length tok)" "pages s' = pages s"
    "defaultPage s' = defaultPage s"
    using at_dispatch_fields [OF assms(1)] by simp_all
  then show ?thesis
    using path_part_no_NUL [OF assms(2)] by (simp add: page_of_def page_at_def page_key_def Let_def)
qed

context byte_channel
begin

text \<open>A GET for a registered page; the URL buffer and what is registered stay as they are.\<close>

lemma dispatch_page_keeps:
  assumes d: "at_dispatch sent wr METHOD_GET tok s d" and tok: "NUL \<notin> set tok"
    and p: "page_at s tok = Some p" "page_content p = Some b"
  shows "\<exists>s'. rbind (attoHTTPFindPage E d) (\<lambda>(ret, s). after_find E ret s) = returns (STATUS_OK, s') \<and>
    sent wr (io s') = sent wr (io s) @ status_line 200 @
      page_headers (page_type p) (page_size p) (gzipPages E) @ take (unat (page_size p)) b \<and>
    url s' = splice (url s) 0 (map url_byte (take 63 tok) @ [NUL]) \<and> server_ok s' \<and> pages s' = pages s \<and>
    defaultPage s' = defaultPage s \<and> ssePage s' = ssePage s \<and> defaultCallback s' = defaultCallback s"
proof -
  have f: "server_ok d" "http_method d = METHOD_GET" "\<not> firstlineSent d" "\<not> headersSent d" "write_h d = wr"
    "sent wr (io d) = sent wr (io s)"
    using at_dispatch_fields [OF d] by simp_all
  have "page_of d = Some p" using page_of_dispatch [OF d tok] p(1) by simp
  from FindPage_page [OF f(1) this p(2) f(2)] f(3,4) obtain s' where
    s': "attoHTTPFindPage E d = returns (1, s')"
    "snds (status_line 200 @ page_headers (page_type p) (page_size p) (gzipPages E) @ take (unat (page_size p)) b)
      (first_line_state 200 (d\<lparr>returnCode := STATUS_OK, contenttype := page_type p,
        contentlength := page_size p\<rparr>)\<lparr>headersSent := True\<rparr>) s'"
    by (auto simp: first_line_part_def)
  have r: "returnCode s' = STATUS_OK" "firstlineSent s'"
    using sends_fields [OF s'(2)] f(3)
    by (simp_all add: first_line_state_def after_first_line_def status_text_def)
  have "sent wr (io s') = sent wr (io s) @ status_line 200 @
      page_headers (page_type p) (page_size p) (gzipPages E) @ take (unat (page_size p)) b"
    using s'(2) f by (simp add: sends_def first_line_state_def after_first_line_def)
  moreover have "server_ok s'"
    using server_ok_sends [OF s'(2)] f(1) by (simp add: first_line_state_def after_first_line_def)
  moreover have "url s' = url d" "pages s' = pages d" "defaultPage s' = defaultPage d" "ssePage s' = ssePage d"
    "defaultCallback s' = defaultCallback d"
    using sends_fields [OF s'(2)] by (simp_all add: first_line_state_def after_first_line_def)
  ultimately show ?thesis
    using at_dispatch_fields [OF d] by (simp add: s'(1) after_find_done r)
qed

lemma dispatch_page:
  assumes "at_dispatch sent wr METHOD_GET tok s d" and "NUL \<notin> set tok"
    and "page_at s tok = Some p" and "page_content p = Some b"
  shows "\<exists>s'. rbind (attoHTTPFindPage E d) (\<lambda>(ret, s). after_find E ret s) = returns (STATUS_OK, s') \<and>
    sent wr (io s') = sent wr (io s) @ status_line 200 @
      page_headers (page_type p) (page_size p) (gzipPages E) @ take (unat (page_size p)) b"
  using dispatch_page_keeps [OF assms] by blast

text \<open>Another method on a page that is registered.\<close>

lemma dispatch_page_method:
  assumes d: "at_dispatch sent wr mm tok s d" and tok: "NUL \<notin> set tok"
    and mm: "mm \<noteq> METHOD_GET" and p: "page_at s tok = Some p"
  shows "\<exists>s'. rbind (attoHTTPFindPage E d) (\<lambda>(ret, s). after_find E ret s) = returns (STATUS_UNSUPPORTED, s') \<and>
    sent wr (io s') = sent wr (io s) @ status_line 501"
proof -
  have f: "server_ok d" "http_method d = mm" "\<not> firstlineSent d" "write_h d = wr" "sent wr (io d) = sent wr (io s)"
    using at_dispatch_fields [OF d] by simp_all
  have "page_of d = Some p" using page_of_dispatch [OF d tok] p by simp
  with f mm have "attoHTTPFindPage E d = returns (-1, d\<lparr>returnCode := STATUS_UNSUPPORTED\<rparr>)"
    by (simp add: FindPage_wrong_method)
  then show ?thesis
    using after_find_code [of "d\<lparr>returnCode := STATUS_UNSUPPORTED\<rparr>" STATUS_UNSUPPORTED "-1"] f
    by (simp add: status_text_def)
qed

text \<open>A URL without page, event stream or REST callback.\<close>

lemma dispatch_not_found:
  assumes d: "at_dispatch sent wr mm tok s d" and tok: "NUL \<notin> set tok"
    and none: "page_at s tok = None" "path_part tok \<noteq> strz (ssePage s) \<or> strz (ssePage s) = []"
      "defaultCallback s = None"
  shows "\<exists>s'. rbind (attoHTTPFindPage E d) (\<lambda>(ret, s). after_find E ret s) = returns (STATUS_NOT_FOUND, s') \<and>
    sent wr (io s') = sent wr (io s) @ status_line 404"
proof -
  have f: "server_ok d" "\<not> firstlineSent d" "write_h d = wr" "sent wr (io d) = sent wr (io s)"
    "returnCode d = STATUS_NOT_FOUND" "strz (url d) = path_part tok" "ssePage d = ssePage s"
    "defaultCallback d = defaultCallback s"
    using at_dispatch_fields [OF d] by simp_all
  have "page_of d = None" using page_of_dispatch [OF d tok] none(1) by simp
  then have "attoHTTPFindPage E d = returns (0, d)"
    using f none by (auto simp: FindPage_api attoHTTPFindAPICallback_def)
  then show ?thesis
    using after_find_code [of d STATUS_NOT_FOUND 0] f by (simp add: status_text_def)
qed

text \<open>The event stream.\<close>

lemma dispatch_events:
  assumes d: "at_dispatch sent wr mm tok s d" and tok: "NUL \<notin> set tok"
    and sse: "page_at s tok = None" "path_part tok = strz (ssePage s)" "strz (ssePage s) \<noteq> []"
  shows "\<exists>s'. rbind (attoHTTPFindPage E d) (\<lambda>(ret, s). after_find E ret s) =
      returns (STATUS_SERVERSENTEVENTS, s') \<and>
    sent wr (io s') = sent wr (io s) @ status_line 200 @ event_stream_headers"
proof -
  have f: "server_ok d" "\<not> firstlineSent d" "write_h d = wr" "sent wr (io d) = sent wr (io s)"
    "strz (url d) = path_part tok" "ssePage d = ssePage s"
    using at_dispatch_fields [OF d] by simp_all
  have "page_of d = None" using page_of_dispatch [OF d tok] sse(1) by simp
  from FindPage_events [OF f(1) this] f sse obtain s' where
    s': "attoHTTPFindPage E d = returns (1, s')"
    "snds (status_line 200 @ event_stream_headers)
      (first_line_state 200 d\<lparr>returnCode := STATUS_SERVERSENTEVENTS, headersSent := True\<rparr>) s'"
    by (auto simp: first_line_part_def)
  have "returnCode s' = STATUS_SERVERSENTEVENTS" "firstlineSent s'"
    using sends_fields [OF s'(2)] f(2)
    by (simp_all add: first_line_state_def after_first_line_def)
  moreover have "sent wr (io s') = sent wr (io s) @ status_line 200 @ event_stream_headers"
    using s'(2) f by (simp add: sends_def first_line_state_def after_first_line_def)
  ultimately show ?thesis
    by (simp add: s'(1) after_find_done)
qed

text \<open>
  A method the server does not know. The headers are not read then, so a build with authorisation
  answers as for a client without credentials.
\<close>

lemma Execute_unsupported:
  assumes input: "pending rd (io s) = m @ SP # rest" and m: "method_of_token m = None"
    and tok: "\<forall>c \<in> set m. \<not> isblank c" "NUL \<notin> set m" "m \<noteq> []"
  shows "if authMode E = NO_AUTH
    then \<exists>s'. attoHTTPExecute E rd wr s = returns (STATUS_UNSUPPORTED, s') \<and>
      sent wr (io s') = sent wr (io s) @ status_line 501
    else \<exists>s'. attoHTTPExecute E rd wr s = returns (STATUS_UNAUTHORIZED, s') \<and>
      sent wr (io s') = sent wr (io s) @ status_line 401 @ auth_message (authMode E) None"
proof -
  let ?i = "attoHTTPInitRun E (s\<lparr>read_h := rd, write_h := wr\<rparr>)"
  have inp: "inp ?i = m @ SP # rest"
    using input by (simp add: input_of_def attoHTTPInitRun_def)
  obtain r s1 where s1: "attoHTTPParseMethod E ?i = returns (r, s1)"
    "rds (?i\<lparr>returnCode := STATUS_UNSUPPORTED\<rparr>) s1"
    using ParseMethod_unknown [OF inp m tok] by (auto elim!: ensuresE)
  have f: "returnCode s1 = STATUS_UNSUPPORTED" "authenticated s1 = (if authMode E = NO_AUTH then 1 else 0)"
    "\<not> firstlineSent s1" "\<not> headersSent s1" "write_h s1 = wr" "sent wr (io s1) = sent wr (io s)"
    using reads_fields [OF s1(2)] reads_sent [OF s1(2)] by (simp_all add: attoHTTPInitRun_def)
  have p: "parsed E s1 = returns s1" using f(1) by (simp add: parsed_def)
  show ?thesis
  proof (cases "authMode E = NO_AUTH")
    case True
    obtain s2 where "after_find E 0 s1 = returns (STATUS_UNSUPPORTED, s2)"
      "sent wr (io s2) = sent wr (io s1) @ status_line 501"
      using after_find_code [of s1 STATUS_UNSUPPORTED 0] f by (auto simp: status_text_def)
    with True show ?thesis
      unfolding Execute_phases s1(1) rbind_simps prod.case p
      using f by (simp add: answer_def after_find_def Let_def)
  next
    case False
    with answer_unauthorized [OF f(3,4)] f show ?thesis
      unfolding Execute_phases s1(1) rbind_simps prod.case p by auto
  qed
qed

text \<open>
  A REST request: the segments of the path reach the callback as C strings, the first, third
  and fifth as commands and the others as ids, and the callback's code is the answer.
\<close>

lemma dispatch_rest:
  assumes d: "at_dispatch sent wr mm tok s d" and tok: "NUL \<notin> set tok"
    and none: "page_at s tok = None" "path_part tok \<noteq> strz (ssePage s) \<or> strz (ssePage s) = []"
    and cb: "defaultCallback s = Some cb"
    and segs: "path_part tok = path_of segs" "segs \<noteq> []" "\<forall>x \<in> set segs. segment x"
  obtains u ks js where "server_ok (d\<lparr>url := u\<rparr>)"
    and "drop (length (path_of segs)) u =
      drop (length (path_of segs)) (splice (url s) 0 (map url_byte (take 63 tok) @ [NUL]))"
    and "map (\<lambda>k. strz (drop k u)) ks = take 3 (fst (alternate segs))"
    and "map (\<lambda>k. strz (drop k u)) js = take 3 (snd (alternate segs))"
    and "rbind (attoHTTPFindPage E d) (\<lambda>(ret, s). after_find E ret s) =
      rbind (callback E cb mm (accept d) (map Some ks @ replicate (3 - length ks) None)
        (map Some js @ replicate (3 - length js) None) (length ks) (length js) (d\<lparr>url := u\<rparr>)) (\<lambda>(rc, s).
      after_find E 1 (s\<lparr>returnCode := rc\<rparr>))"
proof -
  have f: "server_ok d" "sent wr (io d) = sent wr (io s)" "strz (url d) = path_of segs" "ssePage d = ssePage s"
    "defaultCallback d = Some cb" "url_len d = min 63 (length tok)" "http_method d = mm"
    "url_params d = query_at 0 None (take 63 tok)" "params_ok d"
    "url d = splice (url s) 0 (map url_byte (take 63 tok) @ [NUL])"
    using at_dispatch_fields [OF d] cb segs(1) by simp_all
  have "page_of d = None" using page_of_dispatch [OF d tok] none(1) by simp
  then have fp: "attoHTTPFindPage E d = attoHTTPFindAPICallback E d"
    using f(1,3,4) none(2) segs(1) by (intro FindPage_api) auto
  obtain r where r: "url d = path_of segs @ NUL # r"
    using strz_decompose [OF server_ok_url [OF f(1)]] f(3) by auto
  have "length (path_of segs) \<le> url_len d"
    unfolding segs(1) [symmetric] f(6) path_part_def
    using length_takeWhile_le [of "\<lambda>c. c \<noteq> CHR ''?''" "take 63 tok"] by simp
  then obtain c where c: "url_len d = length (path_of segs) + c" using le_Suc_ex by blast
  let ?none = "replicate 3 None" and ?u = "split_of segs @ NUL # r" and ?offs = "seg_offsets 0 segs"
  let ?ks = "take 3 (fst (alternate ?offs))" and ?js = "take 3 (snd (alternate ?offs))"
  have lv: "levels_loop (url d) 0 (url_len d) (?none, ?none, 0, 0) = returns (?u, assign_levels ?offs (?none, ?none, 0, 0))"
    using levels_loop_segments [OF segs(3), of "(?none, ?none, 0, 0)" "[]" r c]
    by (simp add: r c levels_ok_def)
  have sp: "splice ?none 0 (map Some xs) = map Some xs @ replicate (3 - length xs) None"
    for xs :: "nat list" by (simp add: splice_def)
  have as: "assign_levels ?offs (?none, ?none, 0, 0) =
      (map Some ?ks @ replicate (3 - length ?ks) None, map Some ?js @ replicate (3 - length ?js) None,
       length ?ks, length ?js)"
    using assign_levels_alternate [of ?none ?none 0 ?offs] by (simp only: sp) (simp add: min.commute)
  have api: "api_levels_loop (url d) 0 (url_len d) ?none ?none 0 0 = returns (?u,
      map Some ?ks @ replicate (3 - length ?ks) None, map Some ?js @ replicate (3 - length ?js) None,
      length ?ks, length ?js)"
    using lv unfolding as by (simp add: levels_loop_def)
  have strs: "map (\<lambda>k. strz (drop k ?u)) ?offs = segs"
    using seg_offsets_strings [OF segs(3), of "[]" 0 r] by simp
  have "alternate segs = (map (\<lambda>k. strz (drop k ?u)) (fst (alternate ?offs)),
      map (\<lambda>k. strz (drop k ?u)) (snd (alternate ?offs)))"
    using alternate_map [of "\<lambda>k. strz (drop k ?u)" ?offs] unfolding strs .
  then have strs2: "map (\<lambda>k. strz (drop k ?u)) ?ks = take 3 (fst (alternate segs))"
    "map (\<lambda>k. strz (drop k ?u)) ?js = take 3 (snd (alternate segs))"
    by (simp_all add: take_map)
  have pos: "0 < length ?ks" using segs(2) by (cases segs rule: alternate.cases) (auto split: prod.split)
  have "ensures (api_levels_loop (url d) 0 (url_len d) ?none ?none 0 0) (\<lambda>(u', cmd', ids', cl', il').
      length u' = 64 \<and> u' ! 63 = NUL \<and> length cmd' = 3 \<and> length ids' = 3 \<and> il' \<le> cl' \<and> cl' \<le> 3)"
    by (rule api_levels_total) (use f(1) in \<open>simp_all add: server_ok_def\<close>)
  then have lu: "length ?u = 64" "?u ! 63 = NUL"
    unfolding api by simp_all
  let ?d = "d\<lparr>url := ?u\<rparr>"
  have okd: "server_ok ?d"
    using f(1) lu by (simp add: server_ok_def)
  have "attoHTTPFindAPICallback E d = rbind (callback E cb mm (accept d)
      (map Some ?ks @ replicate (3 - length ?ks) None) (map Some ?js @ replicate (3 - length ?js) None)
      (length ?ks) (length ?js) ?d) (\<lambda>(rc, s). returns (1, s\<lparr>returnCode := rc\<rparr>))"
    unfolding attoHTTPFindAPICallback_def f(5) option.case Let_def ATTOHTTP_API_LEVELS_def api rbind_simps
      prod.case if_P [OF pos] by (simp add: f(7))
  then have "rbind (attoHTTPFindPage E d) (\<lambda>(ret, s). after_find E ret s) = rbind (callback E cb mm (accept d)
      (map Some ?ks @ replicate (3 - length ?ks) None) (map Some ?js @ replicate (3 - length ?js) None)
      (length ?ks) (length ?js) ?d) (\<lambda>(rc, s). after_find E 1 (s\<lparr>returnCode := rc\<rparr>))"
    unfolding fp by (simp add: rbind_assoc split_def)
  moreover have "drop (length (path_of segs)) ?u = drop (length (path_of segs)) (splice (url s) 0 (map url_byte (take 63 tok) @ [NUL]))"
    by (simp add: f(10) [symmetric] r length_split_of)
  ultimately show ?thesis using that [OF okd _ strs2] by blast
qed

end

end
