(* ===== verification/WrapperEsp8266.thy ===== *)
theory WrapperEsp8266
  imports Requests
begin

text \<open>
  The ESP8266 transport, \<^verbatim>\<open>src/src/wrapper_esp8266.c\<close>: the connection table, the callbacks of
  the platform, and \<^verbatim>\<open>attoHTTPGetByte\<close> and \<^verbatim>\<open>attoHTTPSetByte\<close>, which provide the byte channel
  the server works on. The platform's own functions are parameters.
\<close>

section \<open>Definitions\<close>

definition ATTO_MAX_CONN :: nat where [simp]: "ATTO_MAX_CONN = 1"

record connection =
  cn_buffer :: string
  cn_length :: "16 word"
  cn_ptr :: "16 word"
  cn_active :: "8 word"

text \<open>
  \<open>espconns a\<close> is \<open>None\<close> when there is no \<^verbatim>\<open>struct espconn\<close> at address \<open>a\<close>; otherwise it is the
  \<^verbatim>\<open>reverse\<close> pointer of the structure: \<^verbatim>\<open>NULL\<close> or an index into \<^verbatim>\<open>esp8266Connections\<close>. \<open>net\<close> is
  the state of the platform's network stack.
\<close>

record 'n esp =
  connections :: "connection list"
  espconns :: "handle \<Rightarrow> nat option option"
  local_port :: nat
  net :: 'n

record 'n espapi =
  espconn_send :: "handle \<Rightarrow> char \<Rightarrow> 'n \<Rightarrow> int \<times> 'n"
  espconn_disconnect :: "handle \<Rightarrow> 'n \<Rightarrow> 'n"
  espconn_regist_recvcb :: "handle \<Rightarrow> 'n \<Rightarrow> 'n"
  espconn_regist_disconcb :: "handle \<Rightarrow> 'n \<Rightarrow> 'n"
  espconn_regist_connectcb :: "'n \<Rightarrow> 'n"
  espconn_accept :: "nat \<Rightarrow> 'n \<Rightarrow> 'n"
  espconn_regist_time :: "nat \<Rightarrow> nat \<Rightarrow> 'n \<Rightarrow> 'n"
  espconn_tcp_set_max_con_allow :: "nat \<Rightarrow> 'n \<Rightarrow> 'n"

text \<open>\<^verbatim>\<open>conn->reverse\<close>\<close>

definition reverse_of :: "handle \<Rightarrow> 'n esp \<Rightarrow> nat option run" where
  "reverse_of a st = (case espconns st a of None \<Rightarrow> faults BadPointer | Some r \<Rightarrow> returns r)"

definition attoHTTPClearServerBuffer :: "nat \<Rightarrow> 'n esp \<Rightarrow> 'n esp run" where
  "attoHTTPClearServerBuffer k st =
     rbind (load (connections st) k) (\<lambda>c.
     rbind (store (connections st) k (c\<lparr>cn_active := 0, cn_length := 0, cn_ptr := 0\<rparr>)) (\<lambda>cs.
     returns (st\<lparr>connections := cs\<rparr>)))"

definition attoHTTPDisconnectcb :: "'n espapi \<Rightarrow> handle \<Rightarrow> 'n esp \<Rightarrow> 'n esp run" where
  "attoHTTPDisconnectcb A a st =
     rbind (reverse_of a st) (\<lambda>r.
     rbind (case r of Some k \<Rightarrow> attoHTTPClearServerBuffer k st | None \<Rightarrow> returns st) (\<lambda>st.
     returns (st\<lparr>net := espconn_disconnect A a (net st), espconns := (espconns st)(a \<mapsto> None)\<rparr>)))"

text \<open>The search loop of \<^verbatim>\<open>attoHTTPConnectcb\<close>: the number of active connections in front.\<close>

definition first_inactive :: "connection list \<Rightarrow> nat" where
  "first_inactive cs = length (takeWhile (\<lambda>c. cn_active c \<noteq> 0) (take ATTO_MAX_CONN cs))"

definition attoHTTPConnectcb :: "'n espapi \<Rightarrow> handle \<Rightarrow> 'n esp \<Rightarrow> 'n esp run" where
  "attoHTTPConnectcb A a st =
     (let i = first_inactive (connections st) in
      rbind (reverse_of a st) (\<lambda>_.
      if i > ATTO_MAX_CONN then
        returns (st\<lparr>net := espconn_disconnect A a (net st), espconns := (espconns st)(a \<mapsto> None)\<rparr>)
      else
        let st = st\<lparr>espconns := (espconns st)(a \<mapsto> Some i),
                    net := espconn_regist_disconcb A a (espconn_regist_recvcb A a (net st))\<rparr> in
        rbind (load (connections st) i) (\<lambda>c.
        rbind (store (connections st) i (c\<lparr>cn_active := 1\<rparr>)) (\<lambda>cs.
        returns (st\<lparr>connections := cs\<rparr>)))))"

definition esp_GetByte :: "handle \<Rightarrow> 'n esp \<Rightarrow> (int \<times> char option \<times> 'n esp) run" where
  "esp_GetByte a st =
     rbind (reverse_of a st) (\<lambda>r.
     case r of
       None \<Rightarrow> returns (0, None, st)
     | Some k \<Rightarrow>
         rbind (load (connections st) k) (\<lambda>c.
         if cn_ptr c \<ge> cn_length c then returns (0, None, st)
         else rbind (load (cn_buffer c) (unat (cn_ptr c))) (\<lambda>b.
              rbind (store (connections st) k (c\<lparr>cn_ptr := cn_ptr c + 1\<rparr>)) (\<lambda>cs.
              returns (1, Some b, st\<lparr>connections := cs\<rparr>)))))"

definition esp_SetByte :: "'n espapi \<Rightarrow> handle \<Rightarrow> char \<Rightarrow> 'n esp \<Rightarrow> (int \<times> 'n esp) run" where
  "esp_SetByte A a b st =
     rbind (reverse_of a st) (\<lambda>r.
     case r of
       None \<Rightarrow> returns (0, st)
     | Some k \<Rightarrow> (case espconn_send A a b (net st) of (e, n) \<Rightarrow>
         returns (if e = 0 then 1 else 0, st\<lparr>net := n\<rparr>)))"

text \<open>
  \<^verbatim>\<open>attoHTTPRecvcb\<close> stores the received data in the connection and serves the request.
  \<open>recv_store\<close> is its part before the request is served; it returns whether the structure belongs to
  a connection. The call is \<^verbatim>\<open>attoHTTPExecute((void *)&conn, (void *)&conn)\<close>: the arguments are the
  address \<open>var\<close> of its local variable \<^verbatim>\<open>conn\<close>.
\<close>

definition recv_store :: "handle \<Rightarrow> string \<Rightarrow> 16 word \<Rightarrow> 'n esp \<Rightarrow> (bool \<times> 'n esp) run" where
  "recv_store a data len st =
     rbind (reverse_of a st) (\<lambda>r.
     case r of
       None \<Rightarrow> returns (False, st)
     | Some k \<Rightarrow>
         rbind (load (connections st) k) (\<lambda>c.
         rbind (store (connections st) k (c\<lparr>cn_buffer := data, cn_length := len, cn_ptr := 0\<rparr>)) (\<lambda>cs.
         returns (True, st\<lparr>connections := cs\<rparr>))))"

definition attoHTTPRecvcb ::
    "'n esp env \<Rightarrow> handle \<Rightarrow> handle \<Rightarrow> string \<Rightarrow> 16 word \<Rightarrow> 'n esp http \<Rightarrow> 'n esp http run" where
  "attoHTTPRecvcb E var a data len s =
     rbind (recv_store a data len (io s)) (\<lambda>(mine, st).
     if mine then
       rbind (attoHTTPExecute E var var (s\<lparr>io := st\<rparr>)) (\<lambda>(_, s). returns s)
     else returns s)"

text \<open>\<^verbatim>\<open>attoHTTPWrapperInit\<close>. The port argument is not used.\<close>

fun clear_connections :: "nat list \<Rightarrow> 'n esp \<Rightarrow> 'n esp run" where
  "clear_connections [] st = returns st"
| "clear_connections (k # ks) st =
     rbind (attoHTTPClearServerBuffer k st) (\<lambda>st. clear_connections ks st)"

definition esp_WrapperInit ::
    "'n espapi \<Rightarrow> 'n esp env \<Rightarrow> 16 word \<Rightarrow> 'n esp http \<Rightarrow> 'n esp http run" where
  "esp_WrapperInit A E port s =
     rbind (attoHTTPInit E s) (\<lambda>s.
     let n = espconn_accept A 80 (espconn_regist_connectcb A (net (io s)));
         n = espconn_tcp_set_max_con_allow A ATTO_MAX_CONN (espconn_regist_time A 15 0 n);
         st = (io s)\<lparr>local_port := 80, net := n\<rparr> in
     rbind (clear_connections [0..<ATTO_MAX_CONN] st) (\<lambda>st.
     returns (s\<lparr>io := st\<rparr>)))"

text \<open>The main and the end function are empty; the callbacks do the work.\<close>

definition esp_WrapperMain :: "8 word \<Rightarrow> 'n esp \<Rightarrow> 'n esp" where
  "esp_WrapperMain setup st = st"

definition esp_WrapperEnd :: "'n esp \<Rightarrow> 'n esp" where
  "esp_WrapperEnd st = st"

section \<open>The byte channel of a connection\<close>

text \<open>
  A session is a connected \<^verbatim>\<open>struct espconn\<close> with the state of the wrapper: its \<^verbatim>\<open>reverse\<close> pointer
  points into the table and the length of the received data is that of the buffer. In a
  session the two arguments of \<^verbatim>\<open>attoHTTPExecute\<close> stand for that connection, as
  \<^verbatim>\<open>attoHTTPGetByte\<close> and \<^verbatim>\<open>attoHTTPSetByte\<close> need it; what \<^verbatim>\<open>attoHTTPRecvcb\<close> passes instead does
  not work (\<open>Recvcb_faults\<close>).
\<close>

definition connected :: "handle \<Rightarrow> 'n esp \<Rightarrow> bool" where
  "connected a st \<longleftrightarrow> (\<exists>k. espconns st a = Some (Some k) \<and> k < length (connections st) \<and>
     unat (cn_length (connections st ! k)) \<le> length (cn_buffer (connections st ! k)))"

definition received :: "handle \<Rightarrow> 'n esp \<Rightarrow> string" where
  "received a st =
     (case espconns st a of
        Some (Some k) \<Rightarrow>
          (let c = connections st ! k
           in drop (unat (cn_ptr c)) (take (unat (cn_length c)) (cn_buffer c)))
      | _ \<Rightarrow> [])"

lemma GetByte_Cons:
  assumes "connected a st" and "received a st = c # cs"
  shows "\<exists>st'. esp_GetByte a st = returns (1, Some c, st') \<and> received a st' = cs \<and> connected a st' \<and>
    net st' = net st"
proof -
  obtain k where k: "espconns st a = Some (Some k)" "k < length (connections st)"
    "unat (cn_length (connections st ! k)) \<le> length (cn_buffer (connections st ! k))"
    using assms(1) by (auto simp: connected_def)
  let ?c = "connections st ! k"
  let ?b = "take (unat (cn_length ?c)) (cn_buffer ?c)"
  have d: "drop (unat (cn_ptr ?c)) ?b = c # cs"
    using assms(2) k by (simp add: received_def Let_def)
  then have p: "unat (cn_ptr ?c) < length ?b" by (metis drop_all leI list.distinct(1))
  then have lt: "unat (cn_ptr ?c) < unat (cn_length ?c)" "unat (cn_ptr ?c) < length (cn_buffer ?c)" by auto
  have b: "cn_buffer ?c ! unat (cn_ptr ?c) = c"
    using d p lt by (metis hd_drop_conv_nth list.sel(1) nth_take)
  have "cn_ptr ?c < cn_length ?c" using lt(1) by (simp add: word_less_nat_alt)
  then have "cn_ptr ?c \<noteq> - 1" by (metis word_order.extremum_strict)
  then have u: "unat (cn_ptr ?c + 1) = Suc (unat (cn_ptr ?c))"
    by (metis add.commute add_eq_0_iff unatSuc)
  have cs: "drop (Suc (unat (cn_ptr ?c))) ?b = cs"
    using d by (metis Cons_nth_drop_Suc list.inject p)
  let ?st = "st\<lparr>connections := (connections st)[k := ?c\<lparr>cn_ptr := cn_ptr ?c + 1\<rparr>]\<rparr>"
  have "esp_GetByte a st = returns (1, Some c, ?st)"
    using k lt b \<open>cn_ptr ?c < cn_length ?c\<close>
    by (simp add: esp_GetByte_def reverse_of_def not_le [symmetric])
  moreover have "received a ?st = cs" "connected a ?st"
    using k cs u by (simp_all add: received_def connected_def)
  ultimately show ?thesis by auto
qed

lemma GetByte_Nil:
  assumes "connected a st" and "received a st = []"
  shows "esp_GetByte a st = returns (0, None, st)"
proof -
  obtain k where k: "espconns st a = Some (Some k)" "k < length (connections st)"
    "unat (cn_length (connections st ! k)) \<le> length (cn_buffer (connections st ! k))"
    using assms(1) by (auto simp: connected_def)
  have "cn_length (connections st ! k) \<le> cn_ptr (connections st ! k)"
    using assms(2) k by (simp add: received_def Let_def word_le_nat_alt)
  with k show ?thesis by (simp add: esp_GetByte_def reverse_of_def)
qed

text \<open>
  The sessions as a type, so that the laws of the channel hold for all its values. Only the
  wrapper's own operations change a session.
\<close>

typedef 'n session = "{x :: handle \<times> 'n esp. connected (fst x) (snd x)}"
proof
  let ?c = "\<lparr>cn_buffer = [], cn_length = 0, cn_ptr = 0, cn_active = 1\<rparr>"
  show "(0, \<lparr>connections = [?c], espconns = \<lambda>_. Some (Some 0), local_port = 80, net = undefined\<rparr>)
      \<in> {x :: handle \<times> 'n esp. connected (fst x) (snd x)}"
    by (simp add: connected_def)
qed

definition session_GetByte :: "'n session \<Rightarrow> (int \<times> char option \<times> 'n session) run" where
  "session_GetByte x =
     (case Rep_session x of (a, st) \<Rightarrow>
        rbind (esp_GetByte a st) (\<lambda>(r, b, st). returns (r, b, Abs_session (a, st))))"

definition session_SetByte :: "'n espapi \<Rightarrow> char \<Rightarrow> 'n session \<Rightarrow> (int \<times> 'n session) run" where
  "session_SetByte A b x =
     (case Rep_session x of (a, st) \<Rightarrow>
        rbind (esp_SetByte A a b st) (\<lambda>(r, st). returns (r, Abs_session (a, st))))"

type_synonym 'io rest_callback =
  "nat \<Rightarrow> httpmethod \<Rightarrow> 16 word \<Rightarrow> nat option list \<Rightarrow> nat option list \<Rightarrow> nat \<Rightarrow> nat \<Rightarrow>
   'io http \<Rightarrow> (returncode \<times> 'io http) run"

definition session_env ::
    "'n espapi \<Rightarrow> (authtype \<Rightarrow> string \<Rightarrow> int) \<Rightarrow> 'n session rest_callback \<Rightarrow> authmode \<Rightarrow> bool \<Rightarrow>
     (local_var \<Rightarrow> nat \<Rightarrow> 'n session \<Rightarrow> char) \<Rightarrow> 'n session env" where
  "session_env A auth cb mode gz jk =
     \<lparr>getByte = (\<lambda>_. session_GetByte), setByte = (\<lambda>_. session_SetByte A),
      checkAuth = (\<lambda>a cred x. returns (auth a cred, x)), callback = cb, authMode = mode,
      gzipPages = gz, junk = jk\<rparr>"

definition session_pending :: "handle \<Rightarrow> 'n session \<Rightarrow> string" where
  "session_pending h x = (case Rep_session x of (a, st) \<Rightarrow> received a st)"

definition session_sent :: "(handle \<Rightarrow> 'n \<Rightarrow> string) \<Rightarrow> handle \<Rightarrow> 'n session \<Rightarrow> string" where
  "session_sent log h x = (case Rep_session x of (a, st) \<Rightarrow> log a (net st))"

lemma session_connected: "Rep_session x = (a, st) \<Longrightarrow> connected a st"
  using Rep_session [of x] by simp

lemma Rep_Abs_session [simp]: "connected a st \<Longrightarrow> Rep_session (Abs_session (a, st)) = (a, st)"
  by (simp add: Abs_session_inverse)

text \<open>
  What the platform promises about \<^verbatim>\<open>espconn_send\<close>: it accepts the byte (it returns 0) and
  appends it to what goes to the peer.
\<close>

locale espconn_link =
  fixes A :: "'n espapi"
    and log :: "handle \<Rightarrow> 'n \<Rightarrow> string"
  assumes send_ok: "\<exists>n'. espconn_send A a c n = (0, n') \<and> log a n' = log a n @ [c]"
begin

lemma session_channel:
  "byte_channel (session_env A auth cb mode gz jk) session_pending (session_sent log)"
proof unfold_locales
  fix h :: handle and x :: "'n session" and c :: char and cs :: string
  obtain a st where x: "Rep_session x = (a, st)" by (cases "Rep_session x")
  note con = session_connected [OF x]
  show "\<exists>x'. getByte (session_env A auth cb mode gz jk) h x = returns (1, Some c, x') \<and>
      session_pending h x' = cs \<and> (\<forall>g. session_sent log g x' = session_sent log g x)"
    if "session_pending h x = c # cs"
  proof -
    have "received a st = c # cs" using that x by (simp add: session_pending_def)
    from GetByte_Cons [OF con this] obtain st' where
      "esp_GetByte a st = returns (1, Some c, st')" "received a st' = cs" "connected a st'" "net st' = net st"
      by blast
    then show ?thesis
      by (simp add: session_env_def session_GetByte_def x session_pending_def session_sent_def)
  qed
  show "\<exists>oc x'. getByte (session_env A auth cb mode gz jk) h x = returns (0, oc, x') \<and>
      session_pending h x' = [] \<and> (\<forall>g. session_sent log g x' = session_sent log g x)"
    if "session_pending h x = []"
  proof -
    have "received a st = []" using that x by (simp add: session_pending_def)
    from GetByte_Nil [OF con this] this con show ?thesis
      by (simp add: session_env_def session_GetByte_def x session_pending_def session_sent_def)
  qed
  show "\<exists>x'. setByte (session_env A auth cb mode gz jk) h c x = returns (1, x') \<and>
      session_sent log h x' = session_sent log h x @ [c] \<and> (\<forall>g. session_pending g x' = session_pending g x)"
  proof -
    obtain k where k: "espconns st a = Some (Some k)" using con by (auto simp: connected_def)
    obtain n' where n: "espconn_send A a c (net st) = (0, n')" "log a n' = log a (net st) @ [c]"
      using send_ok by blast
    have "connected a (st\<lparr>net := n'\<rparr>)" "received a (st\<lparr>net := n'\<rparr>) = received a st"
      using con by (auto simp: connected_def received_def split: option.splits)
    with n k show ?thesis
      by (simp add: session_env_def session_SetByte_def esp_SetByte_def reverse_of_def x
          session_pending_def session_sent_def)
  qed
  show "ensures (checkAuth (session_env A auth cb mode gz jk) t cred x)
      (\<lambda>(r, x'). (\<forall>g. session_pending g x' = session_pending g x) \<and>
        (\<forall>g. session_sent log g x' = session_sent log g x))" for t cred
    by (simp add: session_env_def)
qed

end

text \<open>A network that keeps what was sent to each peer, for concrete runs.\<close>

type_synonym wire = "handle \<Rightarrow> string"

definition wire_api :: "wire espapi" where
  "wire_api = \<lparr>espconn_send = (\<lambda>a c w. (0, w(a := w a @ [c]))), espconn_disconnect = (\<lambda>a w. w),
     espconn_regist_recvcb = (\<lambda>a w. w), espconn_regist_disconcb = (\<lambda>a w. w),
     espconn_regist_connectcb = (\<lambda>w. w), espconn_accept = (\<lambda>p w. w),
     espconn_regist_time = (\<lambda>t u w. w), espconn_tcp_set_max_con_allow = (\<lambda>n w. w)\<rparr>"

interpretation wl: espconn_link wire_api "\<lambda>a w. w a"
  by unfold_locales (simp add: wire_api_def)

interpretation ch: byte_channel "session_env wire_api auth cb mode gz jk" session_pending
    "session_sent (\<lambda>a w. w a)" for auth cb mode gz jk
  by (rule wl.session_channel)

section \<open>The connection table\<close>

text \<open>
  What happens to the table: the platform allocates its structures, which it clears, and releases them, a
  peer connects or disconnects, data arrives, and a byte is read or sent. The platform may release any structure at
  any time and calls the callbacks on any structure; a \<open>careful\<close> one releases a structure only after
  \<^verbatim>\<open>attoHTTPDisconnectcb\<close> (or before \<^verbatim>\<open>attoHTTPConnectcb\<close>), when its \<^verbatim>\<open>reverse\<close> pointer is
  \<^verbatim>\<open>NULL\<close>. The request that \<^verbatim>\<open>attoHTTPRecvcb\<close> serves behind \<open>recv_store\<close> reaches the state of the
  wrapper by the bytes it reads and sends only.
\<close>

inductive esp_step :: "bool \<Rightarrow> 'n espapi \<Rightarrow> 'n esp \<Rightarrow> 'n esp \<Rightarrow> bool" for careful A where
  alloc: "espconns st a = None \<Longrightarrow> esp_step careful A st (st\<lparr>espconns := (espconns st)(a \<mapsto> None)\<rparr>)"
| release: "(careful \<Longrightarrow> espconns st a = Some None) \<Longrightarrow>
    esp_step careful A st (st\<lparr>espconns := (espconns st)(a := None)\<rparr>)"
| connect: "attoHTTPConnectcb A a st = returns st' \<Longrightarrow> esp_step careful A st st'"
| receive: "recv_store a data len st = returns (mine, st') \<Longrightarrow> esp_step careful A st st'"
| read: "esp_GetByte a st = returns (r, b, st') \<Longrightarrow> esp_step careful A st st'"
| send: "esp_SetByte A a c st = returns (r, st') \<Longrightarrow> esp_step careful A st st'"
| disconnect: "attoHTTPDisconnectcb A a st = returns st' \<Longrightarrow> esp_step careful A st st'"

inductive_cases esp_stepE: "esp_step careful A st st'"

inductive esp_reachable :: "bool \<Rightarrow> 'n espapi \<Rightarrow> 'n esp \<Rightarrow> 'n esp \<Rightarrow> bool" for careful A s0 where
  start: "esp_reachable careful A s0 s0"
| step: "esp_reachable careful A s0 st \<Longrightarrow> esp_step careful A st st' \<Longrightarrow> esp_reachable careful A s0 st'"

text \<open>
  \<open>esp_table\<close>: every \<^verbatim>\<open>reverse\<close> pointer points to an active slot of the table, and no two point to
  the same one. \<open>esp_inv\<close>: moreover, every active slot has such a pointer to it.
\<close>

definition esp_table :: "'n esp \<Rightarrow> bool" where
  "esp_table st \<longleftrightarrow> length (connections st) = ATTO_MAX_CONN \<and>
     (\<forall>a k. espconns st a = Some (Some k) \<longrightarrow> k < ATTO_MAX_CONN \<and> cn_active (connections st ! k) \<noteq> 0) \<and>
     (\<forall>a b k. espconns st a = Some (Some k) \<longrightarrow> espconns st b = Some (Some k) \<longrightarrow> a = b)"

definition esp_inv :: "'n esp \<Rightarrow> bool" where
  "esp_inv st \<longleftrightarrow> esp_table st \<and>
     (\<forall>k < ATTO_MAX_CONN. cn_active (connections st ! k) \<noteq> 0 \<longrightarrow> (\<exists>a. espconns st a = Some (Some k)))"

lemma Connectcb_free:
  assumes "length (connections st) = 1" and "cn_active (connections st ! 0) = 0"
    and "espconns st a = Some r"
  shows "attoHTTPConnectcb A a st = returns (st\<lparr>espconns := (espconns st)(a \<mapsto> Some 0),
    net := espconn_regist_disconcb A a (espconn_regist_recvcb A a (net st)),
    connections := [(connections st ! 0)\<lparr>cn_active := 1\<rparr>]\<rparr>)"
proof -
  obtain c where c: "connections st = [c]" using assms(1) by (cases "connections st") auto
  with assms show ?thesis
    by (simp add: attoHTTPConnectcb_def first_inactive_def reverse_of_def Let_def)
qed

lemma Connectcb_full:
  assumes "length (connections st) = 1" and "cn_active (connections st ! 0) \<noteq> 0"
    and "espconns st a = Some r"
  shows "attoHTTPConnectcb A a st = faults OutOfBounds"
proof -
  obtain c where c: "connections st = [c]" using assms(1) by (cases "connections st") auto
  with assms show ?thesis
    by (simp add: attoHTTPConnectcb_def first_inactive_def reverse_of_def Let_def)
qed

lemma Disconnectcb_eq:
  assumes "length (connections st) = 1" and "espconns st a = Some r" and "\<And>k. r = Some k \<Longrightarrow> k = 0"
  shows "attoHTTPDisconnectcb A a st = returns (st\<lparr>
    connections := (if r = None then connections st
      else [(connections st ! 0)\<lparr>cn_active := 0, cn_length := 0, cn_ptr := 0\<rparr>]),
    net := espconn_disconnect A a (net st), espconns := (espconns st)(a \<mapsto> None)\<rparr>)"
proof -
  obtain c where c: "connections st = [c]" using assms(1) by (cases "connections st") auto
  show ?thesis
  proof (cases r)
    case None
    with assms c show ?thesis by (cases st) (simp add: attoHTTPDisconnectcb_def reverse_of_def)
  next
    case (Some k)
    with assms c show ?thesis
      by (simp add: attoHTTPDisconnectcb_def attoHTTPClearServerBuffer_def reverse_of_def)
  qed
qed

text \<open>
  With one slot the invariant says who owns it: \<open>owned_by None\<close> of an active slot is one whose
  structure was released.
\<close>

definition owned_by :: "handle option \<Rightarrow> 'n esp \<Rightarrow> bool" where
  "owned_by ow st \<longleftrightarrow> length (connections st) = 1 \<and>
     (\<forall>a k. espconns st a = Some (Some k) \<longleftrightarrow> ow = Some a \<and> k = 0) \<and>
     (ow \<noteq> None \<longrightarrow> cn_active (connections st ! 0) \<noteq> 0)"

lemma esp_table_owned: "esp_table st \<longleftrightarrow> (\<exists>ow. owned_by ow st)"
proof
  assume inv: "esp_table st"
  then have l: "length (connections st) = 1"
    and k0: "\<And>a k. espconns st a = Some (Some k) \<Longrightarrow> k = 0 \<and> cn_active (connections st ! 0) \<noteq> 0"
    and inj: "\<And>a b k. espconns st a = Some (Some k) \<Longrightarrow> espconns st b = Some (Some k) \<Longrightarrow> a = b"
    unfolding esp_table_def ATTO_MAX_CONN_def by (auto simp: less_one)
  show "\<exists>ow. owned_by ow st"
  proof (cases "\<exists>a. espconns st a = Some (Some 0)")
    case False
    then have "owned_by None st" using l k0 unfolding owned_by_def by blast
    then show ?thesis ..
  next
    case True
    then obtain a where a: "espconns st a = Some (Some 0)" by blast
    have "owned_by (Some a) st" unfolding owned_by_def using l k0 inj a by blast
    then show ?thesis ..
  qed
next
  assume "\<exists>ow. owned_by ow st"
  then show "esp_table st" by (auto simp: owned_by_def esp_table_def)
qed

text \<open>What the owner and the active flag do in a step.\<close>

definition leaked :: "handle option \<Rightarrow> 'n esp \<Rightarrow> bool" where
  "leaked ow st \<longleftrightarrow> ow = None \<and> cn_active (connections st ! 0) \<noteq> 0"

lemma esp_inv_owned: "esp_inv st \<longleftrightarrow> (\<exists>ow. owned_by ow st \<and> \<not> leaked ow st)"
proof -
  have "owned_by ow st \<Longrightarrow>
    \<not> leaked ow st \<longleftrightarrow> (cn_active (connections st ! 0) \<noteq> 0 \<longrightarrow> (\<exists>a. espconns st a = Some (Some 0)))" for ow
    by (auto simp: owned_by_def leaked_def)
  then show ?thesis unfolding esp_inv_def esp_table_owned ATTO_MAX_CONN_def less_one by blast
qed

lemma GetByte_slot:
  assumes "esp_GetByte a st = returns (r, b, st')"
  shows "\<exists>p. st' = st \<or> (\<exists>k < length (connections st). st' = st\<lparr>connections := (connections st)[k :=
    (connections st ! k)\<lparr>cn_ptr := p\<rparr>]\<rparr>)"
  using assms
  by (auto simp: esp_GetByte_def reverse_of_def rbind_eq_returns load_def store_def
      split: option.splits if_splits)

text \<open>A step that keeps the pointers and the active flags.\<close>

definition same_owners :: "'n esp \<Rightarrow> 'n esp \<Rightarrow> bool" where
  "same_owners st st' \<longleftrightarrow> espconns st' = espconns st \<and> map cn_active (connections st') = map cn_active (connections st)"

lemma GetByte_owners: "esp_GetByte a st = returns (r, b, st') \<Longrightarrow> same_owners st st'"
  by (auto dest!: GetByte_slot simp: same_owners_def map_update list_update_same_conv)

lemma SetByte_owners: "esp_SetByte A a c st = returns (r, st') \<Longrightarrow> same_owners st st'"
  by (auto simp: esp_SetByte_def reverse_of_def same_owners_def rbind_eq_returns split: option.splits prod.splits)

lemma recv_store_owners: "recv_store a data len st = returns (mine, st') \<Longrightarrow> same_owners st st'"
  by (auto simp: recv_store_def reverse_of_def same_owners_def rbind_eq_returns load_def store_def
      map_update list_update_same_conv split: option.splits if_splits)

lemma same_owners_owned:
  assumes "same_owners st st'" and "owned_by ow st"
  shows "owned_by ow st'" and "leaked ow st' = leaked ow st"
proof -
  have e: "espconns st' = espconns st" and m: "map cn_active (connections st') = map cn_active (connections st)"
    and l: "length (connections st) = 1"
    using assms by (simp_all add: same_owners_def owned_by_def)
  have l': "length (connections st') = 1" using m l by (metis length_map)
  have "cn_active (connections st' ! 0) = cn_active (connections st ! 0)"
    using m l l' by (metis less_one nth_map)
  then show "owned_by ow st'" "leaked ow st' = leaked ow st"
    using assms(2) e l' by (simp_all add: owned_by_def leaked_def)
qed

lemma esp_step_owned:
  assumes "esp_step careful A st st'" and "owned_by ow st" and "careful \<Longrightarrow> \<not> leaked ow st"
  shows "\<exists>ow'. owned_by ow' st' \<and> (careful \<longrightarrow> \<not> leaked ow' st')"
proof -
  have ow: "espconns st a = Some (Some k) \<longleftrightarrow> ow = Some a \<and> k = 0" for a k
    using assms(2) unfolding owned_by_def by blast
  have l: "length (connections st) = 1" using assms(2) by (simp add: owned_by_def)
  have same: "\<exists>ow'. owned_by ow' st' \<and> (careful \<longrightarrow> \<not> leaked ow' st')" if "same_owners st st'"
    using same_owners_owned [OF that assms(2)] assms(3) by blast
  show ?thesis
    using assms(1)
  proof (cases rule: esp_step.cases)
    case (alloc a)
    then have "owned_by ow st'" using assms(2) ow [of a] by (auto simp: owned_by_def)
    moreover have "leaked ow st' = leaked ow st" using alloc by (simp add: leaked_def)
    ultimately show ?thesis using assms(3) by blast
  next
    case (release a)
    show ?thesis
    proof (cases "ow = Some a")
      case True
      then have "\<not> careful" using release ow [of a 0] by auto
      moreover have "owned_by None st'" using assms(2) True release by (auto simp: owned_by_def)
      ultimately show ?thesis by blast
    next
      case False
      then have "owned_by ow st'" using assms(2) release by (auto simp: owned_by_def)
      moreover have "leaked ow st' = leaked ow st" using release by (simp add: leaked_def)
      ultimately show ?thesis using assms(3) by blast
    qed
  next
    case (connect a)
    then obtain r where r: "espconns st a = Some r"
      by (cases "espconns st a") (auto simp: attoHTTPConnectcb_def reverse_of_def Let_def)
    have i: "cn_active (connections st ! 0) = 0"
      using connect Connectcb_full [OF l _ r, of A] by auto
    with assms(2) have none: "espconns st b \<noteq> Some (Some k)" for b k by (auto simp: owned_by_def)
    from connect Connectcb_free [OF l i r, of A]
    have "st' = st\<lparr>espconns := (espconns st)(a \<mapsto> Some 0),
      net := espconn_regist_disconcb A a (espconn_regist_recvcb A a (net st)),
      connections := [(connections st ! 0)\<lparr>cn_active := 1\<rparr>]\<rparr>" by simp
    then have "owned_by (Some a) st'" using none by (auto simp: owned_by_def)
    moreover have "\<not> leaked (Some a) st'" by (simp add: leaked_def)
    ultimately show ?thesis by blast
  next
    case (receive a data len mine)
    then show ?thesis by (intro same recv_store_owners)
  next
    case (read a r b)
    then show ?thesis by (intro same GetByte_owners)
  next
    case (send a c r)
    then show ?thesis by (intro same SetByte_owners)
  next
    case (disconnect a)
    obtain r where r: "espconns st a = Some r"
      using disconnect by (cases "espconns st a") (auto simp: attoHTTPDisconnectcb_def reverse_of_def)
    have z: "r = Some k \<Longrightarrow> k = 0" for k using r assms(2) by (auto simp: owned_by_def)
    have st': "st' = st\<lparr>connections := (if r = None then connections st
        else [(connections st ! 0)\<lparr>cn_active := 0, cn_length := 0, cn_ptr := 0\<rparr>]),
      net := espconn_disconnect A a (net st), espconns := (espconns st)(a \<mapsto> None)\<rparr>"
      using disconnect Disconnectcb_eq [OF l r z, of A] by simp
    show ?thesis
    proof (cases r)
      case None
      have "owned_by ow st'" using assms(2) r ow [of a] None unfolding st' by (auto simp: owned_by_def)
      moreover have "leaked ow st' = leaked ow st" unfolding st' using None by (simp add: leaked_def)
      ultimately show ?thesis using assms(3) by blast
    next
      case (Some k)
      then have "ow = Some a" using r assms(2) by (auto simp: owned_by_def)
      then have "owned_by None st'" "\<not> leaked None st'"
        using assms(2) Some unfolding st' by (auto simp: owned_by_def leaked_def)
      then show ?thesis by blast
    qed
  qed
qed

lemma esp_reachable_owned:
  assumes "esp_reachable careful A s0 st" and "esp_inv s0"
  shows "\<exists>ow. owned_by ow st \<and> (careful \<longrightarrow> \<not> leaked ow st)"
  using assms(1)
proof (induction rule: esp_reachable.induct)
  case start
  then show ?case using assms(2) by (auto simp: esp_inv_owned)
next
  case (step st st')
  then show ?case using esp_step_owned by blast
qed

lemma esp_reachable_table: "esp_reachable careful A s0 st \<Longrightarrow> esp_inv s0 \<Longrightarrow> esp_table st"
  using esp_reachable_owned unfolding esp_table_owned by blast

lemma esp_reachable_inv: "esp_reachable True A s0 st \<Longrightarrow> esp_inv s0 \<Longrightarrow> esp_inv st"
  using esp_reachable_owned [of True] unfolding esp_inv_owned by blast

text \<open>\<^verbatim>\<open>attoHTTPWrapperInit\<close> sets up a table without connections.\<close>

lemma WrapperInit_inv:
  assumes "esp_WrapperInit A E port s = returns s'" and "length (connections (io s)) = ATTO_MAX_CONN"
    and "\<forall>a k. espconns (io s) a \<noteq> Some (Some k)"
  shows "esp_inv (io s')"
proof -
  obtain c where c: "connections (io s) = [c]" using assms(2) by (cases "connections (io s)") auto
  obtain t where t: "attoHTTPInit E s = returns t"
    using assms(1) by (auto simp: esp_WrapperInit_def rbind_eq_returns)
  have "connections (io s') = [c\<lparr>cn_active := 0, cn_length := 0, cn_ptr := 0\<rparr>]" "espconns (io s') = espconns (io s)"
    using assms(1) Init_io [OF t] c
    by (auto simp: esp_WrapperInit_def t attoHTTPClearServerBuffer_def Let_def)
  then show ?thesis using assms(3) by (simp add: esp_inv_def esp_table_def)
qed

text \<open>
  The wrapper registers a callback for a disconnection and none for a connection that breaks: a
  structure that is released without \<^verbatim>\<open>attoHTTPDisconnectcb\<close> leaves its slot active for ever, and
  the next connection is written behind the table.
\<close>

lemma esp_leak:
  assumes "esp_inv st" and "espconns st a = Some (Some k)" and "espconns st b = Some None"
  shows "esp_step False A st (st\<lparr>espconns := (espconns st)(a := None)\<rparr>)"
    and "attoHTTPConnectcb A b (st\<lparr>espconns := (espconns st)(a := None)\<rparr>) = faults OutOfBounds"
proof -
  show "esp_step False A st (st\<lparr>espconns := (espconns st)(a := None)\<rparr>)" by (rule esp_step.release) simp
  have l: "length (connections st) = 1" and act: "cn_active (connections st ! 0) \<noteq> 0"
    using assms(1,2) unfolding esp_inv_def esp_table_def ATTO_MAX_CONN_def less_one by blast+
  have "a \<noteq> b" using assms(2,3) by auto
  with l act assms(3) show "attoHTTPConnectcb A b (st\<lparr>espconns := (espconns st)(a := None)\<rparr>) = faults OutOfBounds"
    by (intro Connectcb_full) auto
qed

text \<open>
  The address of its local variable, which \<^verbatim>\<open>attoHTTPRecvcb\<close> hands on, is not that of a
  structure: already the first byte of the request is read through a wrong pointer.
\<close>

lemma Recvcb_faults:
  assumes "espconns (io s) a = Some (Some k)" and "k < length (connections (io s))"
    and "espconns (io s) var = None" and "getByte E = esp_GetByte"
  shows "attoHTTPRecvcb E var a data len s = faults BadPointer"
proof -
  have "attoHTTPReadC E c t = faults BadPointer"
    if "extra_c t = -1" "read_h t = var" "espconns (io t) var = None" for c and t :: "'a esp http"
    using that assms(4) by (simp add: attoHTTPReadC_def esp_GetByte_def reverse_of_def)
  then have m: "attoHTTPParseMethod E t = faults BadPointer"
    if "extra_c t = -1" "read_h t = var" "espconns (io t) var = None" for t :: "'a esp http"
    using that by (simp add: attoHTTPParseMethod_def attoHTTPParseSpace_def attoHTTPParseSpace_loop.simps)
  obtain st where st: "recv_store a data len (io s) = returns (True, st)" "espconns st = espconns (io s)"
    using assms(1,2) by (simp add: recv_store_def reverse_of_def)
  have "attoHTTPParseMethod E (attoHTTPInitRun E (s\<lparr>io := st, read_h := var, write_h := var\<rparr>)) = faults BadPointer"
    using st(2) assms(3) by (intro m) (simp_all add: attoHTTPInitRun_def)
  then show ?thesis by (simp add: attoHTTPRecvcb_def st(1) Execute_phases)
qed

end
