(* ===== verification/HeaderBlock.thy ===== *)
theory HeaderBlock
  imports Requests
begin

text \<open>
  Well-formed header blocks through \<^verbatim>\<open>_attoHTTPParseHeaders\<close>: what a list of headers means to the
  server, as a function of the list, and the proof that the parser computes it. The function
  gives the server's own reading of a header (\<^verbatim>\<open>src/src/attohttp.c\<close>), which is not the one of
  the standard: types and schemes are searched for anywhere in the value.
\<close>

section \<open>The meaning of headers\<close>

record header_info =
  hi_accept :: "16 word"
  hi_type :: mimetype
  hi_code :: returncode
  hi_auth :: "8 word"

type_synonym header = "string \<times> string"

definition same_text :: "string \<Rightarrow> string \<Rightarrow> bool" where
  "same_text x y \<longleftrightarrow> map tolower x = map tolower y"

fun accept_value :: "nat list \<Rightarrow> string \<Rightarrow> 16 word \<Rightarrow> 16 word" where
  "accept_value [] v a = a"
| "accept_value (i # is) v a =
     accept_value is v (if same_text v (mimetypes (mime_of ! i)) then push_bit i 1 else a)"

fun type_value :: "nat list \<Rightarrow> string \<Rightarrow> mimetype \<Rightarrow> mimetype" where
  "type_value [] v t = t"
| "type_value (i # is) v t =
     (if find_sub v (mimetypes (mime_of ! i)) \<noteq> None then mime_of ! i else type_value is v t)"

text \<open>The scheme of an authorisation and the place of the credentials in the value.\<close>

fun credentials :: "nat list \<Rightarrow> string \<Rightarrow> (authtype \<times> nat) option" where
  "credentials [] v = None"
| "credentials (i # is) v =
     (case find_sub v (authtypes (auth_of ! i)) of
        Some k \<Rightarrow> Some (auth_of ! i, k + length (authtypes (auth_of ! i)) + 1)
      | None \<Rightarrow> credentials is v)"

definition header_sem :: "authmode \<Rightarrow> (authtype \<Rightarrow> string \<Rightarrow> int) \<Rightarrow> header \<Rightarrow> header_info \<Rightarrow> header_info" where
  "header_sem mode chk h i =
     (let nm = fst h; v = snd h in
      if same_text nm ''accept'' then i\<lparr>hi_accept := accept_value [0..<ATTOHTTP_MIME_TYPES] v (hi_accept i)\<rparr>
      else if same_text nm ''content-type'' then i\<lparr>hi_type := type_value [0..<ATTOHTTP_MIME_TYPES] v (hi_type i)\<rparr>
      else if same_text nm ''authorization'' \<and> mode \<noteq> NO_AUTH then
        (case credentials [0..<ATTOHTTP_AUTH_TYPES] v of
           None \<Rightarrow> i\<lparr>hi_code := STATUS_UNAUTHORIZED\<rparr>
         | Some (a, k) \<Rightarrow>
             let r = int8 (chk a (drop k v)) in
             i\<lparr>hi_code := (if r = 0 \<and> hi_code i = STATUS_RUNKNOWN then STATUS_UNAUTHORIZED else hi_code i),
               hi_auth := word_of_int r\<rparr>)
      else i)"

definition request_info :: "authmode \<Rightarrow> (authtype \<Rightarrow> string \<Rightarrow> int) \<Rightarrow> header list \<Rightarrow> header_info" where
  "request_info mode chk hs = fold (header_sem mode chk) hs
     \<lparr>hi_accept = 1, hi_type = TEXT_HTML, hi_code = STATUS_RUNKNOWN, hi_auth = (if mode = NO_AUTH then 1 else 0)\<rparr>"

definition authorised :: "header_info \<Rightarrow> bool" where
  "authorised i \<longleftrightarrow> hi_auth i \<noteq> 0 \<and> hi_code i = STATUS_RUNKNOWN"

section \<open>The text of headers\<close>

definition header_text :: "header \<Rightarrow> string" where
  "header_text h = fst h @ CHR '':'' # SP # snd h @ [CR, LF]"

definition block_text :: "header list \<Rightarrow> string" where
  "block_text hs = concat (map header_text hs) @ [CR, LF]"

text \<open>A request: the request line, the headers and the body.\<close>

definition request_text :: "string \<Rightarrow> string \<Rightarrow> string \<Rightarrow> header list \<Rightarrow> string \<Rightarrow> string" where
  "request_text m tok ver hs body = m @ SP # tok @ SP # ver @ CR # LF # block_text hs @ body"

definition header_ok :: "header \<Rightarrow> bool" where
  "header_ok h \<longleftrightarrow> (let nm = fst h; v = snd h in
     nm \<noteq> [] \<and> \<not> isspace (hd nm) \<and> CHR '':'' \<notin> set nm \<and> NUL \<notin> set nm \<and> length nm \<le> 62 \<and>
     CR \<notin> set v \<and> LF \<notin> set v \<and> NUL \<notin> set v \<and> length v \<le> 62 \<and> \<not> isblank (hd (v @ [CR])) \<and>
     (case credentials [0..<ATTOHTTP_AUTH_TYPES] v of None \<Rightarrow> True | Some (a, k) \<Rightarrow> k \<le> length v))"

lemma eol_scan_crlf: "eol_scan 0 (CR # LF # x) = eol_scan (Suc 0) x"
  using eol_scan_line [of "[CR]" x] by simp

lemma eol_scan_block:
  assumes "\<forall>h \<in> set hs. header_ok h"
  obtains c n r where "eol_scan 0 (CR # LF # block_text hs @ body) = Some (c, n, r)" and "c \<noteq> NUL"
    and "if hs = [] then 1 < n \<and> c # r = LF # body else \<not> 1 < n \<and> c # r = block_text hs @ body"
proof (cases hs)
  case Nil
  then show ?thesis using that by (simp add: eol_scan_crlf block_text_def eol_scan_Suc_0)
next
  case (Cons h t)
  then obtain c nm where "fst h = c # nm" "\<not> isspace c" "c \<noteq> NUL"
    using assms by (cases "fst h") (auto simp: header_ok_def Let_def)
  with Cons show ?thesis
    using that [of c 1] by (simp add: eol_scan_crlf block_text_def header_text_def eol_scan_Suc_0 del: eol_scan.simps)
qed

section \<open>One header\<close>

definition info :: "'io http \<Rightarrow> header_info" where
  "info s = \<lparr>hi_accept = accept s, hi_type = contenttype s, hi_code = returnCode s, hi_auth = authenticated s\<rparr>"

definition set_info :: "header_info \<Rightarrow> 'io http \<Rightarrow> 'io http" where
  "set_info i s = s\<lparr>accept := hi_accept i, contenttype := hi_type i, returnCode := hi_code i, authenticated := hi_auth i\<rparr>"

lemma info_simps [simp]:
  "set_info (info s) s = s" "info (set_info i s) = i" "set_info i (set_info j s) = set_info i s"
  "info (s\<lparr>headersDone := d\<rparr>) = info s" "set_info i (s\<lparr>headersDone := d\<rparr>) = (set_info i s)\<lparr>headersDone := d\<rparr>"
  "headersDone (set_info i s) = headersDone s" "input_of p (set_info i s) = input_of p s"
  "(set_info i s)\<lparr>accept := a\<rparr> = set_info (i\<lparr>hi_accept := a\<rparr>) s"
  by (simp_all add: info_def set_info_def input_of_def)

lemma reads_set_info: "reads p w s s' \<Longrightarrow> reads p w (set_info i s) (set_info i s')"
  unfolding set_info_def by (intro reads_updates)

lemma reads_info: "reads p w s s' \<Longrightarrow> info s' = info s"
  by (simp add: info_def reads_fields)

text \<open>The user's check looks at the credentials as a C string.\<close>

definition auth_is :: "'io env \<Rightarrow> (authtype \<Rightarrow> string \<Rightarrow> int) \<Rightarrow> bool" where
  "auth_is E chk \<longleftrightarrow> (\<forall>a c i. terminated c \<longrightarrow> (\<exists>i'. checkAuth E a c i = returns (chk a (strz c), i')))"

lemma strz_buffer:
  "NUL \<notin> set x \<Longrightarrow> length x < length b \<Longrightarrow> strz (splice b 0 (x @ [NUL])) = x"
  "length x < length b \<Longrightarrow> terminated (splice b 0 (x @ [NUL]))"
  by (auto simp: splice_def)

lemma strz_drop_buffer:
  assumes "NUL \<notin> set x" and "k \<le> length x" and "length x < length b"
  shows "terminated (drop k (splice b 0 (x @ [NUL])))" and "strz (drop k (splice b 0 (x @ [NUL]))) = drop k x"
proof -
  have "NUL \<notin> set (drop k x)" using assms(1) by (auto dest: in_set_dropD)
  then show "terminated (drop k (splice b 0 (x @ [NUL])))" "strz (drop k (splice b 0 (x @ [NUL]))) = drop k x"
    using assms(2,3) by (simp_all add: splice_def)
qed

lemma strncasecmp_eq:
  assumes "terminated b" and "NUL \<notin> set x" and "length (strz b) \<le> 64" and "length x \<le> 64"
  obtains r where "strncasecmp b (cstr x) 64 = returns r" and "r = 0 \<longleftrightarrow> same_text (strz b) x"
proof -
  have "ensures (strncasecmp b (cstr x) 64)
      (\<lambda>r. r = 0 \<longleftrightarrow> map tolower (take 64 (strz b)) = map tolower (take 64 (strz (cstr x))))"
    by (rule strncasecmp_spec) (use assms in auto)
  then show ?thesis using that assms by (auto simp: same_text_def elim!: ensuresE)
qed

lemma accept_loop_eq:
  assumes "terminated b" and "length (strz b) \<le> 64"
  shows "accept_loop is b a = returns (accept_value is (strz b) a)"
proof (induction "is" arbitrary: a)
  case (Cons i "is")
  have l: "length (mimetypes m) \<le> 64" "NUL \<notin> set (mimetypes m)" for m
    using mimetypes_short [rule_format, of m] by simp_all
  obtain r where "strncasecmp b (cstr (mimetypes (mime_of ! i))) 64 = returns r"
    "r = 0 \<longleftrightarrow> same_text (strz b) (mimetypes (mime_of ! i))"
    by (rule strncasecmp_eq [OF assms(1) l(2) assms(2) l(1)]) (rule that)
  with Cons show ?case by simp
qed simp

lemma contenttype_loop_eq:
  "terminated b \<Longrightarrow> contenttype_loop is b t = returns (type_value is (strz b) t)"
proof (induction "is" arbitrary: t)
  case (Cons i "is")
  then show ?case by (simp add: strstr_terminated)
qed simp

context byte_channel
begin

lemma CheckAuth_sem:
  assumes "auth_is E chk" and "terminated c" and "authMode E \<noteq> NO_AUTH"
  obtains s' where "attoHTTPCheckAuth E a c s = returns (int8 (chk a (strz c)), s')" and "inp s' = inp s"
    and "rds (s\<lparr>returnCode := (if int8 (chk a (strz c)) = 0 \<and> returnCode s = STATUS_RUNKNOWN
      then STATUS_UNAUTHORIZED else returnCode s)\<rparr>) s'"
proof -
  obtain i where i: "checkAuth E a c (io s) = returns (chk a (strz c), i)"
    using assms(1,2) unfolding auth_is_def by blast
  moreover have "ensures (checkAuth E a c (io s)) (\<lambda>(r, i'). (\<forall>g. pending g i' = pending g (io s)) \<and>
      (\<forall>g. sent g i' = sent g (io s)))" by (rule checkAuth_channel)
  ultimately have p: "\<forall>g. pending g i = pending g (io s)" "\<forall>g. sent g i = sent g (io s)" by simp_all
  have rd: "rds s (s\<lparr>io := i\<rparr>)" using p by (simp add: reads_def unread_def)
  let ?c = "if int8 (chk a (strz c)) = 0 \<and> returnCode s = STATUS_RUNKNOWN then STATUS_UNAUTHORIZED else returnCode s"
  show ?thesis
  proof (rule that [of "s\<lparr>io := i, returnCode := ?c\<rparr>"])
    show "rds (s\<lparr>returnCode := ?c\<rparr>) (s\<lparr>io := i, returnCode := ?c\<rparr>)" by (rule reads_updates(4) [OF rd])
  qed (use i p assms(3) in \<open>simp_all add: attoHTTPCheckAuth_def input_of_def Let_def\<close>)
qed

lemma authorization_loop_sem:
  assumes v: "NUL \<notin> set v" "length v < length b" and chk: "auth_is E chk" and mode: "authMode E \<noteq> NO_AUTH"
    and cred: "case credentials is v of None \<Rightarrow> True | Some (a, k) \<Rightarrow> k \<le> length v"
  shows "ensures (authorization_loop E is (splice b 0 (v @ [NUL])) s) (\<lambda>s'. inp s' = inp s \<and>
    rds (set_info (case credentials is v of
           None \<Rightarrow> (info s)\<lparr>hi_code := STATUS_UNAUTHORIZED\<rparr>
         | Some (a, k) \<Rightarrow>
             let r = int8 (chk a (drop k v)) in
             (info s)\<lparr>hi_code := (if r = 0 \<and> hi_code (info s) = STATUS_RUNKNOWN then STATUS_UNAUTHORIZED else hi_code (info s)),
               hi_auth := word_of_int r\<rparr>) s) s')"
  using cred
proof (induction "is")
  case Nil
  have "set_info ((info s)\<lparr>hi_code := STATUS_UNAUTHORIZED\<rparr>) s = s\<lparr>returnCode := STATUS_UNAUTHORIZED\<rparr>"
    by (simp add: set_info_def info_def)
  then show ?case by (simp add: input_of_def)
next
  case (Cons i "is")
  have z: "strz (splice b 0 (v @ [NUL])) = v" "terminated (splice b 0 (v @ [NUL]))" using v by (simp_all add: strz_buffer)
  show ?case
  proof (cases "find_sub v (authtypes (auth_of ! i))")
    case None
    with Cons z show ?thesis by (simp add: strstr_terminated)
  next
    case (Some j)
    let ?a = "auth_of ! i"
    let ?k = "j + length (authtypes ?a) + 1"
    let ?c = "drop ?k (splice b 0 (v @ [NUL]))"
    have k: "?k \<le> length v" using Cons.prems Some by simp
    note c = strz_drop_buffer [OF v(1) k v(2)]
    obtain s1 where s1: "attoHTTPCheckAuth E ?a ?c s = returns (int8 (chk ?a (strz ?c)), s1)" "inp s1 = inp s"
      "rds (s\<lparr>returnCode := (if int8 (chk ?a (strz ?c)) = 0 \<and> returnCode s = STATUS_RUNKNOWN
        then STATUS_UNAUTHORIZED else returnCode s)\<rparr>) s1"
      by (rule CheckAuth_sem [OF chk c(1) mode]) (rule that)
    have "inp (s1\<lparr>authenticated := y\<rparr>) = inp s1" for y by (simp add: input_of_def)
    moreover have "set_info ((info s)\<lparr>hi_code := x, hi_auth := y\<rparr>) s = s\<lparr>returnCode := x, authenticated := y\<rparr>"
      "hi_code (info s) = returnCode s" for x y
      by (simp_all add: set_info_def info_def)
    ultimately show ?thesis
      using reads_updates(11) [OF s1(3), of "word_of_int (int8 (chk ?a (strz ?c)))"] s1(1,2) Some z c(2)
      by (auto simp: strstr_terminated Let_def split: if_splits)
  qed
qed

lemma header_action_sem:
  assumes h: "header_ok h" and chk: "auth_is E chk" and b: "length nb = 64" "length vb = 64"
  shows "ensures (header_action E (splice nb 0 (fst h @ [NUL])) (splice vb 0 (snd h @ [NUL])) s)
    (\<lambda>s'. inp s' = inp s \<and> rds (set_info (header_sem (authMode E) chk h (info s)) s) s')"
proof -
  let ?n = "splice nb 0 (fst h @ [NUL])" and ?v = "splice vb 0 (snd h @ [NUL])"
  have n: "strz ?n = fst h" "terminated ?n" "length (strz ?n) \<le> 64" and v: "strz ?v = snd h" "terminated ?v" "length (strz ?v) \<le> 64"
    using h b by (auto simp: header_ok_def Let_def strz_buffer)
  obtain f where f: "strncasecmp ?n (cstr x) 64 = returns (f x)" "f x = 0 \<longleftrightarrow> same_text (fst h) x"
    if "x \<in> {''accept'', ''content-type'', ''authorization''}" for x
  proof -
    have "\<forall>x \<in> {''accept'', ''content-type'', ''authorization''}.
        \<exists>r. strncasecmp ?n (cstr x) 64 = returns r \<and> (r = 0 \<longleftrightarrow> same_text (fst h) x)"
    proof
      fix x :: string assume "x \<in> {''accept'', ''content-type'', ''authorization''}"
      then have "NUL \<notin> set x" "length x \<le> 64" by auto
      then show "\<exists>r. strncasecmp ?n (cstr x) 64 = returns r \<and> (r = 0 \<longleftrightarrow> same_text (fst h) x)"
        using strncasecmp_eq [OF n(2) _ n(3)] n(1) by metis
    qed
    then show ?thesis using that by metis
  qed
  note a = f [of "''accept''"] and t = f [of "''content-type''"] and z = f [of "''authorization''"]
  have l: "accept_loop [0..<ATTOHTTP_MIME_TYPES] ?v x = returns (accept_value [0..<ATTOHTTP_MIME_TYPES] (snd h) x)"
    "contenttype_loop [0..<ATTOHTTP_MIME_TYPES] ?v y = returns (type_value [0..<ATTOHTTP_MIME_TYPES] (snd h) y)" for x y
    using accept_loop_eq [OF v(2,3)] contenttype_loop_eq [OF v(2)] by (simp_all only: v(1))
  have "NUL \<notin> set (snd h)" "length (snd h) < length vb"
    "case credentials [0..<ATTOHTTP_AUTH_TYPES] (snd h) of None \<Rightarrow> True | Some (a, k) \<Rightarrow> k \<le> length (snd h)"
    using h b by (simp_all add: header_ok_def Let_def)
  note au = authorization_loop_sem [OF this(1,2) chk _ this(3), of s]
  have i: "hi_accept (info s) = accept s" "hi_type (info s) = contenttype s" "hi_code (info s) = returnCode s"
    by (simp_all add: info_def)
  have e: "set_info ((info s)\<lparr>hi_accept := x\<rparr>) s = s\<lparr>accept := x\<rparr>" "set_info ((info s)\<lparr>hi_type := y\<rparr>) s = s\<lparr>contenttype := y\<rparr>" for x y
    by (simp_all add: set_info_def info_def)
  consider "same_text (fst h) ''accept''" | "\<not> same_text (fst h) ''accept''" "same_text (fst h) ''content-type''"
    | "\<not> same_text (fst h) ''accept''" "\<not> same_text (fst h) ''content-type''" "same_text (fst h) ''authorization'' \<and> authMode E \<noteq> NO_AUTH"
    | "\<not> same_text (fst h) ''accept''" "\<not> same_text (fst h) ''content-type''" "\<not> (same_text (fst h) ''authorization'' \<and> authMode E \<noteq> NO_AUTH)"
    by blast
  then show ?thesis
  proof cases
    case 1
    then show ?thesis
      using a by (simp add: header_action_def header_sem_def Let_def l i e input_of_def
          del: ATTOHTTP_MIME_TYPES_def ATTOHTTP_AUTH_TYPES_def upt_rec_numeral)
  next
    case 2
    then show ?thesis
      using a t by (simp add: header_action_def header_sem_def Let_def l i e input_of_def
          del: ATTOHTTP_MIME_TYPES_def ATTOHTTP_AUTH_TYPES_def upt_rec_numeral)
  next
    case 3
    with au have "ensures (authorization_loop E [0..<ATTOHTTP_AUTH_TYPES] ?v s)
        (\<lambda>s'. inp s' = inp s \<and> rds (set_info (header_sem (authMode E) chk h (info s)) s) s')"
      by (simp add: header_sem_def Let_def i del: ATTOHTTP_MIME_TYPES_def ATTOHTTP_AUTH_TYPES_def upt_rec_numeral)
    with 3 show ?thesis
      using a t z by (simp add: header_action_def Let_def
          del: ATTOHTTP_MIME_TYPES_def ATTOHTTP_AUTH_TYPES_def upt_rec_numeral)
  next
    case 4
    then show ?thesis
      using a t z by (auto simp: header_action_def header_sem_def Let_def
          simp del: ATTOHTTP_MIME_TYPES_def ATTOHTTP_AUTH_TYPES_def upt_rec_numeral)
  qed
qed

text \<open>
  All of them, from the state behind the version: after the first line feed the parser has taken the
  first character of the next line, or has found the empty line.
\<close>

definition at_block :: "header list \<Rightarrow> string \<Rightarrow> 'io http \<Rightarrow> bool" where
  "at_block hs body s \<longleftrightarrow>
     (if hs = [] then headersDone s \<and> inp s = LF # body else \<not> headersDone s \<and> inp s = block_text hs @ body)"

lemma ParseHeader_block:
  assumes at: "at_block (h # hs) body s" and hs: "\<forall>h \<in> set (h # hs). header_ok h"
    and b: "length nb = 64" "length vb = 64"
  obtains s' d where "attoHTTPParseHeader E nb 64 vb 64 s =
      returns (1, splice nb 0 (fst h @ [NUL]), splice vb 0 (snd h @ [NUL]), s')"
    and "at_block hs body s'" and "rds (s\<lparr>headersDone := d\<rparr>) s'"
proof -
  obtain c n r where e: "eol_scan 0 (CR # LF # block_text hs @ body) = Some (c, n, r)" "c \<noteq> NUL"
    "if hs = [] then 1 < n \<and> c # r = LF # body else \<not> 1 < n \<and> c # r = block_text hs @ body"
    by (rule eol_scan_block [of hs body]) (use hs in auto)
  have i: "inp s = fst h @ CHR '':'' # [SP] @ snd h @ CR # LF # block_text hs @ body" and d: "\<not> headersDone s"
    using at by (simp_all add: at_block_def block_text_def header_text_def)
  have h: "CHR '':'' \<notin> set (fst h)" "length (fst h) \<le> 62" "\<not> isblank (hd (snd h @ [CR]))" "hd (snd h @ [CR]) \<noteq> NUL"
    "CR \<notin> set (snd h)" "LF \<notin> set (snd h)" "length (snd h) \<le> 62"
    using hs by (cases "snd h"; force simp: header_ok_def Let_def)+
  have sp: "\<forall>c \<in> set [SP]. isblank c" by (simp add: isblank_def)
  from ParseHeader_line [OF i h(1,2) sp h(3-7) _ e(1,2) b] obtain s' where
    s': "attoHTTPParseHeader E nb 64 vb 64 s =
      returns (1, splice nb 0 (fst h @ [NUL]), splice vb 0 (snd h @ [NUL]), s')"
    "inp s' = c # r" "rds (s\<lparr>headersDone := headersDone s \<or> n > 1\<rparr>) s'"
    by (auto elim!: ensuresE)
  have "at_block hs body s'"
    using e(3) s'(2) reads_fields(9) [OF s'(3)] d by (simp add: at_block_def split: if_splits)
  from that [OF s'(1) this s'(3)] show ?thesis .
qed

lemma ParseHeaders_loop_block:
  assumes "at_block hs body s" and "\<forall>h \<in> set hs. header_ok h" and "auth_is E chk"
    and "length nb = 64" and "length vb = 64"
  shows "ensures (attoHTTPParseHeaders_loop E 1 nb vb s) (\<lambda>(ret, s'). inp s' = LF # body \<and>
    rds (set_info (fold (header_sem (authMode E) chk) hs (info s)) (s\<lparr>headersDone := True\<rparr>)) s')"
  using assms(1,2,4,5)
proof (induction hs arbitrary: s nb vb)
  case Nil
  then have s: "headersDone s" "inp s = LF # body" by (simp_all add: at_block_def)
  then have "s\<lparr>headersDone := True\<rparr> = s" by (cases s) simp
  then have "set_info (info s) (s\<lparr>headersDone := True\<rparr>) = s" by (simp only: info_simps(1))
  with s show ?case by (subst attoHTTPParseHeaders_loop.simps) (simp del: info_simps(5))
next
  case (Cons h hs)
  let ?X = "header_sem (authMode E) chk h (info s)" and ?n = "splice nb 0 (fst h @ [NUL])" and ?v = "splice vb 0 (snd h @ [NUL])"
  obtain s1 d where 1: "attoHTTPParseHeader E nb 64 vb 64 s = returns (1, ?n, ?v, s1)" "at_block hs body s1"
    "rds (s\<lparr>headersDone := d\<rparr>) s1"
    by (rule ParseHeader_block [OF Cons.prems]) (rule that)
  have h: "header_ok h" "length (fst h) < 64" "length (snd h) < 64" using Cons.prems(2) by (auto simp: header_ok_def Let_def)
  have i1: "info s1 = info s" using reads_info [OF 1(3)] by simp
  obtain s2 where 2: "header_action E ?n ?v s1 = returns s2" "inp s2 = inp s1" "rds (set_info ?X s1) s2"
    using header_action_sem [OF h(1) assms(3) Cons.prems(3,4), of s1] i1 by (auto elim!: ensuresE)
  have "headersDone s2 = headersDone s1" using reads_fields(9) [OF 2(3)] by simp
  then have at2: "at_block hs body s2" using 1(2) 2(2) by (simp add: at_block_def)
  have i2: "info s2 = ?X" using reads_info [OF 2(3)] by simp
  have r2: "rds (set_info ?X (s\<lparr>headersDone := d\<rparr>)) s2"
    by (rule reads_trans [OF reads_set_info [OF 1(3)] 2(3)])
  have "length ?n = 64" "length ?v = 64" using h(2,3) Cons.prems(3,4) by simp_all
  from Cons.IH [OF at2 _ this] Cons.prems(2) have
    "ensures (attoHTTPParseHeaders_loop E 1 ?n ?v s2) (\<lambda>(ret, s'). inp s' = LF # body \<and>
      rds (set_info (fold (header_sem (authMode E) chk) hs ?X) (s2\<lparr>headersDone := True\<rparr>)) s')"
    by (simp add: i2)
  moreover have "rds (set_info Y (s\<lparr>headersDone := True\<rparr>)) (set_info Y (s2\<lparr>headersDone := True\<rparr>))" for Y
    using reads_set_info [OF reads_updates(1) [OF r2, of True], of Y] by simp
  ultimately have "ensures (attoHTTPParseHeaders_loop E 1 ?n ?v s2) (\<lambda>(ret, s'). inp s' = LF # body \<and>
      rds (set_info (fold (header_sem (authMode E) chk) hs ?X) (s\<lparr>headersDone := True\<rparr>)) s')"
    by (auto elim!: ensures_mono intro: reads_trans)
  moreover have "\<not> headersDone s" using Cons.prems(1) by (simp add: at_block_def)
  ultimately show ?case by (subst attoHTTPParseHeaders_loop.simps) (simp add: 1(1) 2(1))
qed

text \<open>A request with a header block, from the transport to the dispatch or to the refusal.\<close>

lemma request_info_code:
  "hi_code (request_info mode chk hs) = STATUS_RUNKNOWN \<or> hi_code (request_info mode chk hs) = STATUS_UNAUTHORIZED"
proof -
  have "hi_code (fold (header_sem mode chk) hs i) \<in> {STATUS_RUNKNOWN, STATUS_UNAUTHORIZED}"
    if "hi_code i \<in> {STATUS_RUNKNOWN, STATUS_UNAUTHORIZED}" for i
    using that by (induction hs arbitrary: i) (auto simp: header_sem_def Let_def split: option.split)
  then show ?thesis by (auto simp: request_info_def)
qed

lemma request_parsed:
  assumes ok: "server_ok s" and input: "pending rd (io s) = request_text m tok ver hs body"
    and m: "method_of_token m = Some mm"
    and tok: "\<forall>c \<in> set tok. \<not> isblank c" "NUL \<notin> set tok" "tok \<noteq> []"
    and ver: "\<forall>c \<in> set ver. \<not> isspace c" "NUL \<notin> set ver" "ver \<noteq> []" "length ver \<le> 8"
    and hs: "\<forall>h \<in> set hs. header_ok h" and chk: "auth_is E chk"
  obtains s1 s2 r3 s3 r4 s4
  where "attoHTTPParseMethod E (attoHTTPInitRun E (s\<lparr>read_h := rd, write_h := wr\<rparr>)) = returns (1, s1)"
    and "returnCode s1 = STATUS_RUNKNOWN" and "attoHTTPParseURL E s1 = returns (1, s2)"
    and "line_state E sent wr mm tok s s2" and "attoHTTPParseVersion E s2 = returns (r3, s3)"
    and "rds (s2\<lparr>version := version s3, headersDone := headersDone s3\<rparr>) s3"
    and "attoHTTPParseHeaders E s3 = returns (r4, s4)" and "header_rel E pending sent s3 s4"
    and "inp s4 = LF # body" and "info s4 = request_info (authMode E) chk hs" and "version s4 = version_of_token ver"
    and "cblevel s4 = 0" and "sblevel s4 = 0" and "baselevel s4 = NUL"
proof -
  let ?i = "request_info (authMode E) chk hs"
  have "pending rd (io s) = m @ SP # tok @ SP # ver @ CR # LF # block_text hs @ body"
    using input by (simp add: request_text_def)
  from Execute_line [OF ok this m tok] obtain s1 s2 where
    2: "attoHTTPParseMethod E (attoHTTPInitRun E (s\<lparr>read_h := rd, write_h := wr\<rparr>)) = returns (1, s1)"
    "returnCode s1 = STATUS_RUNKNOWN" "attoHTTPParseURL E s1 = returns (1, s2)" "line_state E sent wr mm tok s s2"
    and i2: "inp s2 = [SP] @ ver @ CR # LF # block_text hs @ body" by auto
  note f2 = line_state_fields [OF 2(4)]
  obtain c n r where e: "eol_scan 0 (CR # LF # block_text hs @ body) = Some (c, n, r)" "c \<noteq> NUL"
    "if hs = [] then 1 < n \<and> c # r = LF # body else \<not> 1 < n \<and> c # r = block_text hs @ body"
    by (rule eol_scan_block [OF hs])
  have sp: "\<forall>c \<in> set [SP]. isblank c" "isspace CR" by (simp_all add: isblank_def)
  obtain s3 where 3: "attoHTTPParseVersion E s2 = returns (1, s3)" "inp s3 = c # r"
    "rds (s2\<lparr>version := version_of_token ver, headersDone := headersDone s2 \<or> n > 1\<rparr>) s3"
    using ParseVersion_token [OF i2 sp ver e(1,2)] by (auto elim!: ensuresE)
  have f3: "headersDone s3 = (n > 1)" "info s3 = info s2" "version s3 = version_of_token ver"
    using reads_fields [OF 3(3)] f2(9) reads_info [OF 3(3)] by (simp_all add: info_def)
  have v: "rds (s2\<lparr>version := version s3, headersDone := headersDone s3\<rparr>) s3"
    using 3(3) f2(9) by (simp add: f3(1,3))
  have at: "at_block hs body s3" using e(3) 3(2) f3(1) by (simp add: at_block_def split: if_splits)
  have "info s2 = \<lparr>hi_accept = 1, hi_type = TEXT_HTML, hi_code = STATUS_RUNKNOWN,
      hi_auth = (if authMode E = NO_AUTH then 1 else 0)\<rparr>"
    using f2 by (simp add: info_def)
  then have i: "fold (header_sem (authMode E) chk) hs (info s3) = ?i" by (simp add: request_info_def f3(2))
  obtain r4 s4 where 4: "attoHTTPParseHeaders E s3 = returns (r4, s4)" "inp s4 = LF # body"
    "rds (set_info ?i (s3\<lparr>headersDone := True\<rparr>)) s4"
    using ParseHeaders_loop_block [OF at hs chk, unfolded i, of "uninit E ParseHeaders_name 64 s3" "uninit E ParseHeaders_value 64 s3"]
    by (auto simp: attoHTTPParseHeaders_def elim!: ensuresE)
  have hr: "header_rel E pending sent s3 s4" using ParseHeaders_total [of s3] 4(1) by simp
  have o4: "version s4 = version_of_token ver" "cblevel s4 = 0" "sblevel s4 = 0" "baselevel s4 = NUL"
    using reads_fields [OF 4(3)] reads_fields [OF 3(3)] f2 by (simp_all add: set_info_def)
  from that [OF 2 3(1) v 4(1) hr 4(2) _ o4] reads_info [OF 4(3)] show ?thesis by simp
qed

lemma Execute_block:
  assumes ok: "server_ok s" and input: "pending rd (io s) = request_text m tok ver hs body"
    and m: "method_of_token m = Some mm"
    and tok: "\<forall>c \<in> set tok. \<not> isblank c" "NUL \<notin> set tok" "tok \<noteq> []"
    and ver: "\<forall>c \<in> set ver. \<not> isspace c" "NUL \<notin> set ver" "ver \<noteq> []" "length ver \<le> 8"
    and hs: "\<forall>h \<in> set hs. header_ok h" and chk: "auth_is E chk"
  defines "i \<equiv> request_info (authMode E) chk hs"
  shows "if authorised i
    then \<exists>d. at_dispatch sent wr mm tok s d \<and> inp d = LF # body \<and> contenttype d = hi_type i \<and> accept d = hi_accept i \<and>
      version d = version_of_token ver \<and> cblevel d = 0 \<and> sblevel d = 0 \<and> baselevel d = NUL \<and>
      attoHTTPExecute E rd wr s = rbind (attoHTTPFindPage E d) (\<lambda>(ret, s). after_find E ret s)
    else \<exists>s'. attoHTTPExecute E rd wr s = returns (STATUS_UNAUTHORIZED, s') \<and>
      sent wr (io s') = sent wr (io s) @ status_line 401 @ auth_message (authMode E) None"
proof -
  obtain s1 s2 r3 s3 r4 s4 where
    2: "attoHTTPParseMethod E (attoHTTPInitRun E (s\<lparr>read_h := rd, write_h := wr\<rparr>)) = returns (1, s1)"
    "returnCode s1 = STATUS_RUNKNOWN" "attoHTTPParseURL E s1 = returns (1, s2)" "line_state E sent wr mm tok s s2"
    and 3: "attoHTTPParseVersion E s2 = returns (r3, s3)" "rds (s2\<lparr>version := version s3, headersDone := headersDone s3\<rparr>) s3"
    and 4: "attoHTTPParseHeaders E s3 = returns (r4, s4)" "header_rel E pending sent s3 s4" "inp s4 = LF # body" "info s4 = request_info (authMode E) chk hs"
    and o4: "version s4 = version_of_token ver" "cblevel s4 = 0" "sblevel s4 = 0" "baselevel s4 = NUL"
    by (rule request_parsed [OF ok input m tok ver hs chk]) (rule that)
  have f4: "accept s4 = hi_accept i" "contenttype s4 = hi_type i" "returnCode s4 = hi_code i" "authenticated s4 = hi_auth i"
    using 4(4) [folded i_def] by (auto simp: info_def)
  note f2 = line_state_fields [OF 2(4)]
  show ?thesis
  proof (cases "authorised i")
    case True
    then have "authenticated s4 \<noteq> 0" "returnCode s4 = STATUS_RUNKNOWN" by (simp_all add: authorised_def f4)
    from Execute_headers_dispatch [OF ok tok(2) 2 3 4(1,2) this] True 4(3) f4(1,2) o4 show ?thesis
      by (intro if_P [THEN iffD2]) (auto intro!: exI [of _ "s4\<lparr>returnCode := STATUS_NOT_FOUND\<rparr>"])
  next
    case False
    have "request_rel sent s2 s3" using request_rel_reads [OF 3(2)] by simp
    then have "request_rel sent (s\<lparr>write_h := wr, firstlineSent := False, headersSent := False\<rparr>) s4"
      by (rule request_rel_trans [OF f2(1) request_rel_trans [OF _ request_rel_header [OF 4(2)]]])
    then have w: "\<not> firstlineSent s4" "\<not> headersSent s4" "write_h s4 = wr" "sent wr (io s4) = sent wr (io s)"
      by (simp_all add: request_rel_def)
    have "authenticated s4 = 0 \<or> returnCode s4 = STATUS_UNAUTHORIZED"
      using False request_info_code [of "authMode E" chk hs] by (auto simp: authorised_def f4 i_def)
    then have t: "(if authenticated s4 = 0 then s4\<lparr>returnCode := STATUS_UNAUTHORIZED\<rparr> else s4) = s4\<lparr>returnCode := STATUS_UNAUTHORIZED\<rparr>"
      by (cases s4) auto
    have "parsed E s1 = returns s4"
      using reads_fields [OF 3(2)] by (simp add: parsed_def 2(2,3) 3(1) 4(1) f2(7))
    with answer_unauthorized [OF w(1,2)] w(3,4) False show ?thesis
      unfolding Execute_phases 2(1) by (auto simp: t)
  qed
qed

end

section \<open>Four readings that are not those of the standard\<close>

text \<open>
  A request without an accept header counts as one that accepts JSON, and a list of types is not
  taken apart; an event stream is no known type of content; of a scheme without credentials the pointer
  goes behind the end of the value; and any prefix of a version is that version.
\<close>

lemma accept_readings:
  "hi_accept (request_info mode chk []) = push_bit 0 1" "mime_of ! 0 = APPLICATION_JSON"
  "hi_accept (request_info mode chk [(''Accept'', ''text/html, text/plain'')]) = push_bit 0 1"
proof -
  have "accept_value [0..<ATTOHTTP_MIME_TYPES] ''text/html, text/plain'' 1 = 1" "same_text ''Accept'' ''accept''" by code_simp+
  then show "hi_accept (request_info mode chk []) = push_bit 0 1" "mime_of ! 0 = APPLICATION_JSON"
    "hi_accept (request_info mode chk [(''Accept'', ''text/html, text/plain'')]) = push_bit 0 1"
    by (simp_all add: request_info_def header_sem_def Let_def mime_of_def
        del: ATTOHTTP_MIME_TYPES_def upt_rec_numeral)
qed

lemma event_stream_reading: "type_value [0..<ATTOHTTP_MIME_TYPES] ''text/event-stream'' TEXT_HTML = TEXT_HTML"
  by code_simp

lemma no_credentials_reading: "credentials [0..<ATTOHTTP_AUTH_TYPES] ''Basic'' = Some (BASIC_AUTH, length ''Basic'' + 1)"
  by code_simp

lemma version_reading: "version_of_token ''H'' = V1_0"
  by code_simp

end
