(* ===== verification/Admission.thy ===== *)
theory Admission
  imports HeaderBlock
begin

text \<open>
  Which requests \<^verbatim>\<open>attoHTTPExecute\<close> (\<^verbatim>\<open>src/src/attohttp.c\<close>) lets through to the dispatch, and what
  it answers to them: pages, REST calls, the event stream and the errors, in builds with and without
  authorisation.
\<close>

text \<open>
  \<open>admitted E m tok x\<close>: \<open>x\<close> is a request with the method \<open>m\<close> for the URL \<open>tok\<close>, and the server lets it through.
  Without authorisation the request line is enough, whatever follows it. With authorisation
  it takes a block of well-formed headers that the user's check of credentials accepts.
\<close>

inductive admitted :: "'io env \<Rightarrow> string \<Rightarrow> string \<Rightarrow> string \<Rightarrow> bool"
  for E :: "'io env" and m tok :: string where
  admitted_open: "authMode E = NO_AUTH \<Longrightarrow> admitted E m tok (m @ SP # tok @ SP # rest)"
| admitted_headers: "\<forall>c \<in> set ver. \<not> isspace c \<Longrightarrow> NUL \<notin> set ver \<Longrightarrow> ver \<noteq> [] \<Longrightarrow> length ver \<le> 8 \<Longrightarrow>
    \<forall>h \<in> set hs. header_ok h \<Longrightarrow> auth_is E chk \<Longrightarrow> authorised (request_info (authMode E) chk hs) \<Longrightarrow>
    admitted E m tok (request_text m tok ver hs content)"

text \<open>Only the build and the user's check decide, not the transport.\<close>

lemma admitted_env:
  "authMode F = authMode E \<Longrightarrow> checkAuth F = checkAuth E \<Longrightarrow> admitted E m tok x \<Longrightarrow> admitted F m tok x"
  by (erule admitted.cases) (auto simp: auth_is_def intro: admitted.intros)

context byte_channel
begin

text \<open>Who is not authorised by the headers is refused, whatever the method and the URL.\<close>

lemma Execute_refused:
  assumes "server_ok s" and "pending rd (io s) = request_text m tok ver hs content" and "method_of_token m = Some mm"
    and "\<forall>c \<in> set tok. \<not> isblank c" and "NUL \<notin> set tok" and "tok \<noteq> []"
    and "\<forall>c \<in> set ver. \<not> isspace c" and "NUL \<notin> set ver" and "ver \<noteq> []" and "length ver \<le> 8"
    and "\<forall>h \<in> set hs. header_ok h" and "auth_is E chk" and "\<not> authorised (request_info (authMode E) chk hs)"
  shows "\<exists>s'. attoHTTPExecute E rd wr s = returns (STATUS_UNAUTHORIZED, s') \<and>
    sent wr (io s') = sent wr (io s) @ status_line 401 @ auth_message (authMode E) None"
  using Execute_block [OF assms(1-12)] assms(13) by simp

text \<open>Who is admitted reaches the dispatch.\<close>

lemma Execute_admitted:
  assumes ok: "server_ok s" and input: "admitted E m tok (pending rd (io s))" and m: "method_of_token m = Some mm"
    and tok: "\<forall>c \<in> set tok. \<not> isblank c" "NUL \<notin> set tok" "tok \<noteq> []"
  obtains d where "at_dispatch sent wr mm tok s d"
    and "attoHTTPExecute E rd wr s = rbind (attoHTTPFindPage E d) (\<lambda>(ret, s). after_find E ret s)"
  using input
proof (cases rule: admitted.cases)
  case (admitted_open rest)
  from Execute_dispatch [OF ok admitted_open(2,1) m tok] that show ?thesis by blast
next
  case (admitted_headers ver hs chk content)
  from Execute_block [OF ok admitted_headers(1) m tok admitted_headers(2-7)] admitted_headers(8) that
  show ?thesis by auto
qed

lemma admitted_page:
  assumes "server_ok s" and "admitted E ''GET'' tok (pending rd (io s))"
    and "\<forall>c \<in> set tok. \<not> isblank c" and "NUL \<notin> set tok" and "tok \<noteq> []"
    and "page_at s tok = Some p" and "page_content p = Some b"
  shows "\<exists>s'. attoHTTPExecute E rd wr s = returns (STATUS_OK, s') \<and>
    sent wr (io s') = sent wr (io s) @ status_line 200 @
      page_headers (page_type p) (page_size p) (gzipPages E) @ take (unat (page_size p)) b"
proof -
  have m: "method_of_token ''GET'' = Some METHOD_GET" by (simp add: method_of_token_def)
  show ?thesis
    by (rule Execute_admitted [OF assms(1,2) m assms(3-5), where wr = wr]) (simp add: dispatch_page [OF _ assms(4,6,7)])
qed

text \<open>What the request for a page leaves behind: its URL in the buffer, and all that is registered.\<close>

lemma admitted_page_keeps:
  assumes "server_ok s" and "admitted E ''GET'' tok (pending rd (io s))"
    and "\<forall>c \<in> set tok. \<not> isblank c" and "NUL \<notin> set tok" and "tok \<noteq> []"
    and "page_at s tok = Some p" and "page_content p = Some b"
  obtains s' where "attoHTTPExecute E rd wr s = returns (STATUS_OK, s')" and "server_ok s'"
    and "url s' = splice (url s) 0 (map url_byte (take 63 tok) @ [NUL])"
    and "\<And>t. page_at s' t = page_at s t" and "ssePage s' = ssePage s" and "defaultCallback s' = defaultCallback s"
proof -
  have m: "method_of_token ''GET'' = Some METHOD_GET" by (simp add: method_of_token_def)
  obtain d where d: "at_dispatch sent wr METHOD_GET tok s d"
    and ex: "attoHTTPExecute E rd wr s = rbind (attoHTTPFindPage E d) (\<lambda>(ret, s). after_find E ret s)"
    by (rule Execute_admitted [OF assms(1,2) m assms(3-5)]) (rule that)
  from dispatch_page_keeps [OF d assms(4,6,7)] obtain s' where
    "attoHTTPExecute E rd wr s = returns (STATUS_OK, s')" "server_ok s'"
    "url s' = splice (url s) 0 (map url_byte (take 63 tok) @ [NUL])"
    "pages s' = pages s" "defaultPage s' = defaultPage s" "ssePage s' = ssePage s"
    "defaultCallback s' = defaultCallback s"
    unfolding ex by blast
  moreover from this have "page_at s' t = page_at s t" for t by (intro page_at_cong)
  ultimately show thesis by (intro that [of s'])
qed

lemma admitted_page_method:
  assumes "server_ok s" and "admitted E m tok (pending rd (io s))" and "method_of_token m = Some mm" and "mm \<noteq> METHOD_GET"
    and "\<forall>c \<in> set tok. \<not> isblank c" and "NUL \<notin> set tok" and "tok \<noteq> []" and "page_at s tok = Some p"
  shows "\<exists>s'. attoHTTPExecute E rd wr s = returns (STATUS_UNSUPPORTED, s') \<and>
    sent wr (io s') = sent wr (io s) @ status_line 501"
  by (rule Execute_admitted [OF assms(1-3,5-7), where wr = wr]) (simp add: dispatch_page_method [OF _ assms(6,4,8)])

lemma admitted_not_found:
  assumes "server_ok s" and "admitted E m tok (pending rd (io s))" and "method_of_token m = Some mm"
    and "\<forall>c \<in> set tok. \<not> isblank c" and "NUL \<notin> set tok" and "tok \<noteq> []"
    and "page_at s tok = None" and "path_part tok \<noteq> strz (ssePage s) \<or> strz (ssePage s) = []"
    and "defaultCallback s = None"
  shows "\<exists>s'. attoHTTPExecute E rd wr s = returns (STATUS_NOT_FOUND, s') \<and>
    sent wr (io s') = sent wr (io s) @ status_line 404"
  by (rule Execute_admitted [OF assms(1-6), where wr = wr]) (simp add: dispatch_not_found [OF _ assms(5,7-9)])

lemma admitted_events:
  assumes "server_ok s" and "admitted E m tok (pending rd (io s))" and "method_of_token m = Some mm"
    and "\<forall>c \<in> set tok. \<not> isblank c" and "NUL \<notin> set tok" and "tok \<noteq> []"
    and "page_at s tok = None" and "path_part tok = strz (ssePage s)" and "strz (ssePage s) \<noteq> []"
  shows "\<exists>s'. attoHTTPExecute E rd wr s = returns (STATUS_SERVERSENTEVENTS, s') \<and>
    sent wr (io s') = sent wr (io s) @ status_line 200 @ event_stream_headers"
  by (rule Execute_admitted [OF assms(1-6), where wr = wr]) (simp add: dispatch_events [OF _ assms(5,7-9)])

text \<open>A REST request, with what the callback finds of the query in the URL buffer.\<close>

lemma admitted_rest_query:
  assumes ok: "server_ok s" and input: "admitted E m tok (pending rd (io s))" and m: "method_of_token m = Some mm"
    and tok: "\<forall>c \<in> set tok. \<not> isblank c" "NUL \<notin> set tok" "tok \<noteq> []"
    and none: "page_at s tok = None" "path_part tok \<noteq> strz (ssePage s) \<or> strz (ssePage s) = []"
    and cb: "defaultCallback s = Some cb"
    and segs: "path_part tok = path_of segs" "segs \<noteq> []" "\<forall>x \<in> set segs. segment x"
  shows "\<exists>d ks js. server_ok d \<and> http_method d = mm \<and> url_params d = query_at 0 None (take 63 tok) \<and>
    sent wr (io d) = sent wr (io s) \<and> params_ok d \<and>
    drop (length (path_of segs)) (url d) =
      drop (length (path_of segs)) (splice (url s) 0 (map url_byte (take 63 tok) @ [NUL])) \<and>
    map (\<lambda>k. strz (drop k (url d))) ks = take 3 (fst (alternate segs)) \<and>
    map (\<lambda>k. strz (drop k (url d))) js = take 3 (snd (alternate segs)) \<and>
    attoHTTPExecute E rd wr s =
      rbind (callback E cb mm (accept d) (map Some ks @ replicate (3 - length ks) None)
        (map Some js @ replicate (3 - length js) None) (length ks) (length js) d) (\<lambda>(rc, s).
      after_find E 1 (s\<lparr>returnCode := rc\<rparr>))"
proof -
  obtain d where d: "at_dispatch sent wr mm tok s d"
    and ex: "attoHTTPExecute E rd wr s = rbind (attoHTTPFindPage E d) (\<lambda>(ret, s). after_find E ret s)"
    by (rule Execute_admitted [OF ok input m tok]) (rule that)
  obtain u ks js where 1: "server_ok (d\<lparr>url := u\<rparr>)"
    "drop (length (path_of segs)) u = drop (length (path_of segs)) (splice (url s) 0 (map url_byte (take 63 tok) @ [NUL]))"
    "map (\<lambda>k. strz (drop k u)) ks = take 3 (fst (alternate segs))"
    "map (\<lambda>k. strz (drop k u)) js = take 3 (snd (alternate segs))"
    "rbind (attoHTTPFindPage E d) (\<lambda>(ret, s). after_find E ret s) =
      rbind (callback E cb mm (accept d) (map Some ks @ replicate (3 - length ks) None)
        (map Some js @ replicate (3 - length js) None) (length ks) (length js) (d\<lparr>url := u\<rparr>)) (\<lambda>(rc, s).
      after_find E 1 (s\<lparr>returnCode := rc\<rparr>))"
    by (rule dispatch_rest [OF d tok(2) none cb segs]) (rule that)
  have "params_ok (d\<lparr>url := u\<rparr>)" using at_dispatch_fields(14) [OF d] by (simp add: params_ok_def split: option.splits)
  then show ?thesis
    using 1 at_dispatch_fields [OF d] ex by (intro exI [of _ "d\<lparr>url := u\<rparr>"] exI [of _ ks] exI [of _ js]) simp
qed

lemma admitted_rest:
  assumes "server_ok s" and "admitted E m tok (pending rd (io s))" and "method_of_token m = Some mm"
    and "\<forall>c \<in> set tok. \<not> isblank c" and "NUL \<notin> set tok" and "tok \<noteq> []"
    and "page_at s tok = None" and "path_part tok \<noteq> strz (ssePage s) \<or> strz (ssePage s) = []"
    and "defaultCallback s = Some cb"
    and "path_part tok = path_of segs" and "segs \<noteq> []" and "\<forall>x \<in> set segs. segment x"
  shows "\<exists>d ks js. server_ok d \<and> http_method d = mm \<and> url_params d = query_at 0 None (take 63 tok) \<and>
    sent wr (io d) = sent wr (io s) \<and>
    map (\<lambda>k. strz (drop k (url d))) ks = take 3 (fst (alternate segs)) \<and>
    map (\<lambda>k. strz (drop k (url d))) js = take 3 (snd (alternate segs)) \<and>
    attoHTTPExecute E rd wr s =
      rbind (callback E cb mm (accept d) (map Some ks @ replicate (3 - length ks) None)
        (map Some js @ replicate (3 - length js) None) (length ks) (length js) d) (\<lambda>(rc, s).
      after_find E 1 (s\<lparr>returnCode := rc\<rparr>))"
  using admitted_rest_query [OF assms] by blast

end

end
