(* ===== verification/Lifecycle.thy ===== *)
theory Lifecycle
  imports Admission
begin

text \<open>
  The server over its life: \<^verbatim>\<open>attoHTTPInit\<close>, then registrations and requests in any order
  (\<^verbatim>\<open>src/src/attohttp.c\<close>). The invariant of the buffers and of the page table holds in every state
  that can be reached, and what is registered stays registered.
\<close>

section \<open>What a request leaves alone\<close>

definition registered :: "'io http \<Rightarrow> page list \<times> page \<times> string \<times> nat option" where
  "registered s = (pages s, defaultPage s, ssePage s, defaultCallback s)"

lemma registered_updates [simp]:
  "registered (s\<lparr>returnCode := c\<rparr>) = registered s" "registered (s\<lparr>url := u\<rparr>) = registered s"
  "registered (s\<lparr>contenttype := m\<rparr>) = registered s" "registered (s\<lparr>contentlength := n\<rparr>) = registered s"
  "registered (s\<lparr>headersSent := a\<rparr>) = registered s" "registered (s\<lparr>firstlineSent := a\<rparr>) = registered s"
  "registered (s\<lparr>read_h := rd\<rparr>) = registered s" "registered (s\<lparr>write_h := wr\<rparr>) = registered s"
  "registered (attoHTTPInitRun E s) = registered s" "registered (first_line_state k s) = registered s"
  by (simp_all add: registered_def attoHTTPInitRun_def first_line_state_def after_first_line_def)

lemma registered_sends: "sends p w x s s' \<Longrightarrow> registered s' = registered s"
  by (simp add: registered_def sends_fields)

lemma registered_request: "request_rel w s s' \<Longrightarrow> registered s' = registered s"
  by (simp add: registered_def request_rel_def)

text \<open>The user's callback may use the server, but not change the registrations.\<close>

definition callback_keeps :: "'io env \<Rightarrow> bool" where
  "callback_keeps E \<longleftrightarrow> (\<forall>cb m a cmd ids cl il s rc s'.
     callback E cb m a cmd ids cl il s = returns (rc, s') \<longrightarrow> registered s' = registered s)"

lemma FindAPICallback_registered:
  assumes "callback_keeps E" and "attoHTTPFindAPICallback E s = returns (r, s')"
  shows "registered s' = registered s"
proof (cases "defaultCallback s")
  case (Some cb)
  with assms(2) obtain u cmd ids cl il where
    l: "api_levels_loop (url s) 0 (url_len s) (replicate 3 None) (replicate 3 None) 0 0 = returns (u, cmd, ids, cl, il)"
    by (auto simp: attoHTTPFindAPICallback_def Let_def rbind_eq_returns)
  show ?thesis
  proof (cases "cl > 0")
    case True
    with assms(2) Some l obtain rc t where
      "callback E cb (http_method s) (accept s) cmd ids cl il (s\<lparr>url := u\<rparr>) = returns (rc, t)"
      "s' = t\<lparr>returnCode := rc\<rparr>"
      by (auto simp: attoHTTPFindAPICallback_def Let_def rbind_eq_returns)
    moreover from this(1) assms(1) have "registered t = registered (s\<lparr>url := u\<rparr>)"
      unfolding callback_keeps_def by blast
    ultimately show ?thesis by simp
  next
    case False
    with assms(2) Some l have "s' = s\<lparr>url := u, returnCode := STATUS_INTERNAL_ERROR\<rparr>"
      by (simp add: attoHTTPFindAPICallback_def Let_def)
    then show ?thesis by simp
  qed
qed (use assms(2) in \<open>simp add: attoHTTPFindAPICallback_def\<close>)

context byte_channel
begin

lemma FindPage_registered:
  assumes ok: "server_ok s" and "callback_keeps E" and "attoHTTPFindPage E s = returns (r, s')"
  shows "registered s' = registered s"
proof (cases "page_of s")
  case (Some p)
  obtain b where b: "page_content p = Some b" using page_of_ok [OF ok Some] by blast
  show ?thesis
  proof (cases "http_method s = METHOD_GET")
    case True
    from FindPage_page [OF ok Some b True] assms(3) show ?thesis
      by (auto dest!: registered_sends)
  qed (use assms(3) in \<open>auto simp: FindPage_wrong_method [OF ok Some]\<close>)
next
  case None
  show ?thesis
  proof (cases "strz (url s) = strz (ssePage s) \<and> strz (ssePage s) \<noteq> []")
    case True
    with FindPage_events [OF ok None] assms(3) show ?thesis
      by (auto dest!: registered_sends)
  next
    case False
    then have "attoHTTPFindPage E s = attoHTTPFindAPICallback E s"
      using FindPage_api [OF ok None] by blast
    with assms(2,3) FindAPICallback_registered show ?thesis by simp
  qed
qed

lemma finish_registered:
  assumes "finish_response E s = returns s'"
  shows "registered s' = registered s"
proof -
  have first: "registered t = registered s" if "attoHTTPFirstLine E c s = returns (n, t)" for c n t
  proof (cases "firstlineSent s")
    case False
    then show ?thesis
      by (rule FirstLine_sends [of s c]) (use that in \<open>auto dest!: registered_sends simp: after_first_line_def\<close>)
  qed (use that in \<open>simp add: FirstLine_again\<close>)
  have "registered t = registered s" if "attoHTTPSendAuthMessage E None s = returns (n, t)" for n t
    using SendAuthMessage_sends [of None s] that by (auto dest!: registered_sends)
  with first assms show ?thesis
    by (auto simp: finish_response_def rbind_eq_returns split: if_splits)
qed

lemma answer_registered:
  assumes "server_ok s" and "callback_keeps E" and "answer E s = returns s'"
  shows "registered s' = registered s"
proof -
  have find: "registered u = registered s"
    if "attoHTTPFindPage E (s\<lparr>returnCode := STATUS_NOT_FOUND\<rparr>) = returns (r, u)" for r u
    using FindPage_registered [OF _ assms(2) that] assms(1) by simp
  let ?m = "if returnCode s = STATUS_RUNKNOWN then
      rbind (attoHTTPFindPage E (s\<lparr>returnCode := STATUS_NOT_FOUND\<rparr>)) (\<lambda>(ret, s).
      returns (if ret > 0 \<and> returnCode s = STATUS_RUNKNOWN then s\<lparr>returnCode := STATUS_OK\<rparr> else s))
    else returns s"
  from assms(3) obtain u where u: "?m = returns u"
    "finish_response E (if returnCode u = STATUS_RUNKNOWN then u\<lparr>returnCode := STATUS_INTERNAL_ERROR\<rparr> else u) = returns s'"
    unfolding answer_def rbind_eq_returns by blast
  have "registered u = registered s"
    using u(1) by (auto simp: rbind_eq_returns dest: find split: if_splits)
  with finish_registered [OF u(2)] show ?thesis by simp
qed

lemma Execute_registered:
  assumes ok: "server_ok s" and "callback_keeps E" and ex: "attoHTTPExecute E rd wr s = returns (rc, s')"
  shows "registered s' = registered s"
proof -
  let ?i = "attoHTTPInitRun E (s\<lparr>read_h := rd, write_h := wr\<rparr>)"
  have i: "server_ok ?i" "params_ok ?i"
    using ok server_ok_InitRun [of "s\<lparr>read_h := rd, write_h := wr\<rparr>" E]
    by (simp_all add: attoHTTPInitRun_def params_ok_def)
  obtain r s1 where m: "attoHTTPParseMethod E ?i = returns (r, s1)" "request_rel sent ?i s1" "params_ok s1"
    using ParseMethod_post [of ?i] i by (auto elim!: ensuresE simp: parse_post_def)
  then have ok1: "server_ok s1" using i(1) by (simp add: request_rel_def)
  obtain s2 where p: "parsed E s1 = returns s2" "request_rel sent s1 s2"
    using parsed_post [OF ok1 m(3)] by (auto elim!: ensuresE simp: parse_post_def)
  then have ok2: "server_ok s2" using ok1 by (simp add: request_rel_def)
  let ?t = "if authenticated s2 = 0 then s2\<lparr>returnCode := STATUS_UNAUTHORIZED\<rparr> else s2"
  from ex have "answer E ?t = returns s'"
    unfolding Execute_phases m(1) rbind_simps prod.case p(1) by (auto simp: rbind_eq_returns)
  moreover have "server_ok ?t" using ok2 by simp
  ultimately have "registered s' = registered ?t" using answer_registered assms(2) by blast
  also have "\<dots> = registered s"
    using registered_request [OF m(2)] registered_request [OF p(2)] by simp
  finally show ?thesis .
qed

end

section \<open>Registrations and requests\<close>

text \<open>
  The calls a program makes after \<^verbatim>\<open>attoHTTPInit\<close>. The URL of a page is readable for 32 bytes or up
  to a terminator, its length is that of the content; an events URL is shorter than its buffer.
\<close>

inductive server_step :: "'io env \<Rightarrow> 'io http \<Rightarrow> 'io http \<Rightarrow> bool" for E where
  add_page: "attoHTTPAddPage u c l t s = returns (r, s') \<Longrightarrow> readable u 32 \<Longrightarrow>
    (\<And>b. c = Some b \<Longrightarrow> unat l \<le> length b) \<Longrightarrow> server_step E s s'"
| default_page: "attoHTTPDefaultPage u c l t s = returns (r, s') \<Longrightarrow> readable u 32 \<Longrightarrow>
    (\<And>b. c = Some b \<Longrightarrow> unat l \<le> length b) \<Longrightarrow> server_step E s s'"
| events_url: "attoHTTPServerSetEventsURL u s = returns (r, s') \<Longrightarrow> terminated u \<Longrightarrow> length (strz u) < 32 \<Longrightarrow>
    server_step E s s'"
| default_rest: "attoHTTPDefaultREST cb s = (r, s') \<Longrightarrow> server_step E s s'"
| execute: "attoHTTPExecute E rd wr s = returns (rc, s') \<Longrightarrow> server_step E s s'"

inductive_cases server_stepE: "server_step E s s'"

inductive server_steps :: "'io env \<Rightarrow> 'io http \<Rightarrow> 'io http \<Rightarrow> bool" for E where
  here: "server_steps E s s"
| more: "server_steps E s t \<Longrightarrow> server_step E t u \<Longrightarrow> server_steps E s u"

inductive booted :: "'io env \<Rightarrow> 'io http \<Rightarrow> bool" for E where
  boot: "sized s0 \<Longrightarrow> attoHTTPInit E s0 = returns s \<Longrightarrow> booted E s"

definition server_inv :: "'io http \<Rightarrow> bool" where
  "server_inv s \<longleftrightarrow> server_ok s \<and> table_inv (pages s)"

text \<open>The page table only grows, also when a page without content is registered.\<close>

lemma page_table_grows:
  "page_table ps k = Some e \<Longrightarrow> front_filled ps \<Longrightarrow> page_table (add_first_empty u c l t ps) k = Some e"
proof (induction ps)
  case (Cons p ps)
  show ?case
  proof (cases "page_content p = None")
    case True
    with Cons.prems(2) have "\<forall>q \<in> set (p # ps). page_content q = None" by simp
    from page_table_empty [OF this] Cons.prems(1) show ?thesis by simp
  next
    case False
    with Cons show ?thesis by (simp split: if_splits)
  qed
qed simp

definition kept :: "'io http \<Rightarrow> 'io http \<Rightarrow> bool" where
  "kept s s' \<longleftrightarrow> page_table (pages s) \<subseteq>\<^sub>m page_table (pages s') \<and>
     (page_content (defaultPage s) \<noteq> None \<longrightarrow> defaultPage s' = defaultPage s) \<and>
     (strz (ssePage s) \<noteq> [] \<longrightarrow> strz (ssePage s') = strz (ssePage s)) \<and>
     (defaultCallback s \<noteq> None \<longrightarrow> defaultCallback s' = defaultCallback s)"

lemma kept_refl: "kept s s"
  by (simp add: kept_def)

lemma kept_trans: "kept s t \<Longrightarrow> kept t u \<Longrightarrow> kept s u"
  unfolding kept_def by (auto intro: map_le_trans)

lemma kept_registered: "registered s' = registered s \<Longrightarrow> kept s s'"
  by (simp add: kept_def registered_def)

lemma booted_inv:
  assumes "booted E s"
  shows "server_inv s" and "page_table (pages s) = [''/favicon.ico'' \<mapsto> (favicon_ico, favicon_ico_len, IMAGE_PNG)]"
  using assms by (auto elim!: booted.cases dest!: Init_ok [of _ E] simp: server_inv_def)

context byte_channel
begin

lemma server_step_inv:
  assumes "server_step E s s'" and "server_inv s" and cb: "callback_ok E" "callback_keeps E"
  shows "server_inv s' \<and> kept s s'"
proof -
  have ok: "server_ok s" and tab: "table_inv (pages s)" using assms(2) by (simp_all add: server_inv_def)
  from assms(1) show ?thesis
  proof cases
    case (add_page u c l t r)
    have s': "server_ok s'" "s' = s\<lparr>pages := add_first_empty u c l t (pages s)\<rparr>"
      using AddPage_ok [OF ok add_page(2), of c l t] add_page(1,3) by auto
    have "kept s s'"
      using page_table_grows tab by (auto simp: s'(2) kept_def map_le_def table_inv_def)
    moreover have "table_inv (pages s')"
      using tab front_filled_add [of "pages s"] add_first_empty_urls [of "pages s"] by (simp add: s'(2) table_inv_def)
    ultimately show ?thesis using s'(1) by (simp add: server_inv_def)
  next
    case (default_page u c l t r)
    have "server_ok s' \<and> s' = (if r then s\<lparr>defaultPage := new_page u c l t (defaultPage s)\<rparr> else s) \<and>
      r = (page_content (defaultPage s) = None)"
      using DefaultPage_ok [OF ok default_page(2), of c l t] default_page(1,3) by auto
    with tab show ?thesis by (auto simp: server_inv_def kept_def split: if_splits)
  next
    case (events_url u r)
    have "server_ok s'" "r = (strz (ssePage s) = [])" "strz (ssePage s') = (if r then strz u else strz (ssePage s))"
      using ServerSetEventsURL_ok [OF ok events_url(2,3)] events_url(1) by auto
    moreover have "pages s' = pages s" "defaultPage s' = defaultPage s" "defaultCallback s' = defaultCallback s"
      using events_url(1) by (auto simp: attoHTTPServerSetEventsURL_def rbind_eq_returns split: if_splits)
    ultimately show ?thesis using tab by (auto simp: server_inv_def kept_def)
  next
    case (default_rest cb r)
    with ok tab show ?thesis by (auto simp: attoHTTPDefaultREST_def server_inv_def kept_def split: if_splits)
  next
    case (execute rd wr rc)
    have "registered s' = registered s" by (rule Execute_registered [OF ok cb(2) execute])
    moreover have "server_ok s'" using Execute_total [OF ok cb(1), of rd wr] execute by simp
    ultimately show ?thesis using tab by (simp add: server_inv_def kept_registered registered_def)
  qed
qed

lemma server_steps_inv:
  assumes "server_steps E s s'" and "server_inv s" and "callback_ok E" and "callback_keeps E"
  shows "server_inv s' \<and> kept s s'"
  using assms
proof (induction rule: server_steps.induct)
  case (more t u)
  then show ?case using server_step_inv by (blast intro: kept_trans)
qed (simp add: kept_refl)

text \<open>
  An entry of the page table is what a GET request of its URL gets, unless the default page is
  registered under the same URL: \<^verbatim>\<open>_attoHTTPFindPage\<close> tests the default page first.
\<close>

lemma page_at_table:
  assumes "page_table (pages s) k = Some e" and "path_part tok = k" and "length k < 32" and "k \<noteq> ''/''"
    and "\<not> (page_content (defaultPage s) \<noteq> None \<and> page_key (page_url (defaultPage s)) = k)"
  obtains p b where "page_at s tok = Some p" and "page_content p = Some b" and "e = (b, page_size p, page_type p)"
proof -
  obtain p where p: "find (page_matches k) (pages s) = Some p" "e = page_entry p"
    using assms(1) by (auto simp: page_table_def)
  then obtain b where b: "page_content p = Some b" by (auto simp: find_Some_iff page_matches_def)
  have NUL: "NUL \<notin> set k"
  proof -
    from p(1) have "page_key (page_url p) = k" by (auto simp: find_Some_iff page_matches_def)
    then show ?thesis by (auto simp: page_key_def dest: in_set_takeD)
  qed
  then have "strz (cstr k) = k" "page_key (cstr k) = k" using assms(3) by (simp_all add: page_key_def)
  then have "page_at s tok = Some p"
    using assms(2,4,5) p(1) by (auto simp: page_at_def page_of_def Let_def)
  with b p(2) show thesis by (intro that) (simp_all add: page_entry_def)
qed

lemma Execute_table_page:
  assumes "server_ok s" and "page_table (pages s) k = Some (b, len, typ)" and "length k < 32" and "k \<noteq> ''/''"
    and "\<not> (page_content (defaultPage s) \<noteq> None \<and> page_key (page_url (defaultPage s)) = k)"
    and "admitted E ''GET'' tok (pending rd (io s))"
    and "\<forall>c \<in> set tok. \<not> isblank c" and "NUL \<notin> set tok" and "path_part tok = k" and "tok \<noteq> []"
  shows "\<exists>s'. attoHTTPExecute E rd wr s = returns (STATUS_OK, s') \<and>
    sent wr (io s') = sent wr (io s) @ status_line 200 @ page_headers typ len (gzipPages E) @ take (unat len) b"
proof -
  from page_at_table [OF assms(2,9,3-5)] obtain p c where
    p: "page_at s tok = Some p" "page_content p = Some c" "(b, len, typ) = (c, page_size p, page_type p)" .
  from admitted_page [OF assms(1,6-8,10) p(1,2)] p(3) show ?thesis by simp
qed

end

end
