(* ===== verification/UrlParams.thy ===== *)
theory UrlParams
  imports ByteChannel
begin

text \<open>
  Parameters in URL encoding: \<^verbatim>\<open>_attoHTTPParseURLParamChar\<close>, \<^verbatim>\<open>attoHTTPParseURLParam\<close> and
  \<^verbatim>\<open>attoHTTPGetRawParamChar\<close> of \<^verbatim>\<open>src/src/attohttp.c\<close>. The \<^verbatim>\<open>name\<close> and \<^verbatim>\<open>value\<close> arguments are
  the caller's arrays; a pointer that walks through one is an index into it.
\<close>

section \<open>Definitions\<close>

partial_function (option) url_param_skip ::
    "'io env \<Rightarrow> char \<Rightarrow> 'io http \<Rightarrow> (int \<times> char \<times> 'io http) run" where
  [code]: "url_param_skip E c s =
     rbind (attoHTTPReadC E c s) (\<lambda>(r, c, s).
       let ret = uint8 r in
       if ret = 1 \<and> (isspace c \<or> c = CHR ''?'') then url_param_skip E c s
       else returns (ret, c, s))"

text \<open>The second argument is what \<^verbatim>\<open>*c\<close> holds before the call; the first result is a \<^verbatim>\<open>uint8_t\<close>.\<close>

definition attoHTTPParseURLParamChar ::
    "'io env \<Rightarrow> char \<Rightarrow> 'io http \<Rightarrow> (int \<times> char \<times> 'io http) run" where
  "attoHTTPParseURLParamChar E c s =
     (if http_method s = METHOD_GET then
        let start = url_params_start s;
            s = s\<lparr>url_params_start := start + 1\<rparr>
        in if start < of_nat ATTOHTTP_URL_BUFFER_SIZE then
             (case url_params s of
                None \<Rightarrow> faults NullPointer
              | Some p \<Rightarrow> rbind (load (url s) p) (\<lambda>c.
                  returns (1, c, s\<lparr>url_params := Some (p + 1)\<rparr>)))
           else returns (0, c, s)
      else url_param_skip E c s)"

definition hex_digit :: "char \<Rightarrow> nat option" where
  "hex_digit c =
     (let n = of_char c :: nat in
      if 48 \<le> n \<and> n \<le> 57 then Some (n - 48)
      else if 65 \<le> n \<and> n \<le> 70 then Some (n - 55)
      else if 97 \<le> n \<and> n \<le> 102 then Some (n - 87)
      else None)"

text \<open>
  \<^verbatim>\<open>strtol(x, NULL, 16)\<close>: white space, a sign, an optional \<^verbatim>\<open>0x\<close> before a hexadecimal digit,
  then the longest run of hexadecimal digits; 0 when there is none. The conversion to
  \<^verbatim>\<open>char\<close> keeps the low eight bits.
\<close>

fun hex_value :: "nat \<Rightarrow> string \<Rightarrow> nat" where
  "hex_value acc [] = acc"
| "hex_value acc (c # x) =
     (case hex_digit c of None \<Rightarrow> acc | Some d \<Rightarrow> hex_value (16 * acc + d) x)"

definition skip_0x :: "string \<Rightarrow> string" where
  "skip_0x x =
     (case x of
        a # b # c # r \<Rightarrow>
          if a = CHR ''0'' \<and> (b = CHR ''x'' \<or> b = CHR ''X'') \<and> hex_digit c \<noteq> None
          then c # r else x
      | _ \<Rightarrow> x)"

definition strtol16 :: "string \<Rightarrow> int" where
  "strtol16 x =
     (case dropWhile isspace x of
        [] \<Rightarrow> 0
      | c # r \<Rightarrow>
          if c = CHR ''-'' then - int (hex_value 0 (skip_0x r))
          else if c = CHR ''+'' then int (hex_value 0 (skip_0x r))
          else int (hex_value 0 (skip_0x (c # r))))"

definition decode_percent :: "char \<Rightarrow> char \<Rightarrow> char" where
  "decode_percent a b = char_of (strtol16 (strz [a, b, NUL]))"

text \<open>
  One turn of the loop of \<^verbatim>\<open>attoHTTPParseURLParam\<close>. The record holds its locals; \<open>nl\<close>, \<open>vl\<close>
  are \<^verbatim>\<open>name_len\<close>, \<^verbatim>\<open>value_len\<close>. The result says whether the loop ends with \<^verbatim>\<open>break\<close>.
\<close>

record uparam =
  up_c :: char
  up_name :: string
  up_i :: nat
  up_nl :: "8 word"
  up_value :: string
  up_j :: nat
  up_vl :: "8 word"
  up_count :: "16 word"

definition url_param_put :: "char \<Rightarrow> uparam \<Rightarrow> uparam run" where
  "url_param_put c p =
     (if up_nl p > 0 then
        rbind (store (up_name p) (up_i p) c) (\<lambda>b.
        returns (p\<lparr>up_count := up_count p + 1, up_name := b, up_i := up_i p + 1,
                  up_nl := up_nl p - 1\<rparr>))
      else
        rbind (store (up_value p) (up_j p) c) (\<lambda>b.
        returns (p\<lparr>up_value := b, up_j := up_j p + 1, up_vl := up_vl p - 1\<rparr>)))"

definition url_param_step ::
    "'io env \<Rightarrow> int \<Rightarrow> uparam \<Rightarrow> 'io http \<Rightarrow> (bool \<times> uparam \<times> 'io http) run" where
  "url_param_step E ret p s =
     (let c = up_c p in
      if ret > 0 \<and> c \<noteq> NUL then
        if c = CHR ''='' then returns (False, p\<lparr>up_nl := 0\<rparr>, s)
        else if c = CHR ''&'' \<or> isspace c then returns (up_count p > 0, p, s)
        else
          rbind (if c = CHR ''%'' then
                   rbind (attoHTTPParseURLParamChar E (junk E ParseURLParam_decode 0 (io s)) s)
                     (\<lambda>(_, d0, s).
                   rbind (attoHTTPParseURLParamChar E (junk E ParseURLParam_decode 1 (io s)) s)
                     (\<lambda>(_, d1, s).
                   returns (decode_percent d0 d1, s)))
                 else returns (c, s)) (\<lambda>(c, s).
          rbind (url_param_put c (p\<lparr>up_c := c\<rparr>)) (\<lambda>p. returns (False, p, s)))
      else returns (True, p, s))"

partial_function (option) attoHTTPParseURLParam_loop ::
    "'io env \<Rightarrow> uparam \<Rightarrow> 'io http \<Rightarrow> (uparam \<times> 'io http) run" where
  [code]: "attoHTTPParseURLParam_loop E p s =
     rbind (attoHTTPParseURLParamChar E (up_c p) s) (\<lambda>(r, c, s).
     let ret = int8 r in
     rbind (url_param_step E ret (p\<lparr>up_c := c\<rparr>) s) (\<lambda>(stop, p, s).
       if \<not> stop \<and> up_vl p > 0 \<and> ret \<noteq> 0 then attoHTTPParseURLParam_loop E p s
       else returns (p, s)))"

definition attoHTTPParseURLParam ::
    "'io env \<Rightarrow> string \<Rightarrow> 8 word \<Rightarrow> string \<Rightarrow> 8 word \<Rightarrow> 'io http \<Rightarrow>
     (bool \<times> string \<times> string \<times> 'io http) run" where
  "attoHTTPParseURLParam E name name_len val value_len s =
     rbind (attoHTTPParseURLParam_loop E
              \<lparr>up_c = junk E ParseURLParam_c 0 (io s), up_name = name, up_i = 0, up_nl = name_len,
               up_value = val, up_j = 0, up_vl = value_len, up_count = 0\<rparr> s) (\<lambda>(p, s).
     rbind (store (up_value p) (up_j p) NUL) (\<lambda>val.
     rbind (store (up_name p) (up_i p) NUL) (\<lambda>name.
     returns (up_nl p = 0, name, val, s))))"

definition attoHTTPGetRawParamChar ::
    "'io env \<Rightarrow> char \<Rightarrow> 'io http \<Rightarrow> (int \<times> char \<times> 'io http) run" where
  "attoHTTPGetRawParamChar E c s =
     rbind (attoHTTPReadC E c s) (\<lambda>(r, c, s). returns (uint8 r, c, s))"

section \<open>The encoding\<close>

text \<open>Characters that stand for themselves, and the percent code of the others.\<close>

definition url_plain :: "char \<Rightarrow> bool" where
  "url_plain c \<longleftrightarrow> c \<noteq> NUL \<and> c \<noteq> CHR ''='' \<and> c \<noteq> CHR ''&'' \<and> c \<noteq> CHR ''%'' \<and> c \<noteq> CHR ''?'' \<and> \<not> isspace c"

definition hex_char :: "nat \<Rightarrow> char" where
  "hex_char n = (if n < 10 then char_of (48 + n) else char_of (55 + n))"

definition url_escape :: "char \<Rightarrow> string" where
  "url_escape c =
     (if url_plain c then [c]
      else [CHR ''%'', hex_char (of_char c div 16), hex_char (of_char c mod 16)])"

definition url_encode :: "string \<Rightarrow> string" where
  "url_encode x = concat (map url_escape x)"

lemma url_encode_simps [simp]: "url_encode [] = []" "url_encode (c # x) = url_escape c @ url_encode x"
  by (simp_all add: url_encode_def)

lemma hex_char_facts:
  assumes "k < 16"
  shows "hex_digit (hex_char k) = Some k" and "hex_char k \<noteq> NUL" and "\<not> isspace (hex_char k)"
    and "hex_char k \<noteq> CHR ''-''" and "hex_char k \<noteq> CHR ''+''"
proof -
  have v: "(of_char (hex_char k) :: nat) = (if k < 10 then 48 + k else 55 + k)"
    using assms by (simp add: hex_char_def)
  show "hex_digit (hex_char k) = Some k"
    using assms by (simp add: hex_digit_def v)
  have ne: "hex_char k \<noteq> c" if "(of_char c :: nat) < 48" for c
    using that v by (auto split: if_splits)
  show "hex_char k \<noteq> NUL" "\<not> isspace (hex_char k)" "hex_char k \<noteq> CHR ''-''" "hex_char k \<noteq> CHR ''+''"
    unfolding isspace_def by (simp_all add: ne)
qed

lemma decode_hex:
  assumes "n < 256"
  shows "decode_percent (hex_char (n div 16)) (hex_char (n mod 16)) = char_of n"
proof -
  have k: "n div 16 < 16" "n mod 16 < 16" using assms by auto
  have "strtol16 [hex_char (n div 16), hex_char (n mod 16)] = int n"
    using hex_char_facts [OF k(1)] hex_char_facts [OF k(2)]
    by (simp add: strtol16_def skip_0x_def)
  then show ?thesis
    using hex_char_facts [OF k(1)] hex_char_facts [OF k(2)] by (simp add: decode_percent_def)
qed

lemma decode_escape [simp]:
  "decode_percent (hex_char (of_char c div 16)) (hex_char (of_char c mod 16)) = c"
  using decode_hex [OF nat_of_char_less_256, of c] by simp

section \<open>A source of parameter characters\<close>

text \<open>
  What \<^verbatim>\<open>attoHTTPParseURLParam\<close> needs of \<^verbatim>\<open>_attoHTTPParseURLParamChar\<close>: it delivers the characters of
  a text in order, then returns 0. \<open>ok n\<close> allows \<open>n\<close> more calls: the 16-bit counter of the
  URL source would wrap in the end.
\<close>

locale param_source =
  fixes E :: "'io env"
    and ok :: "nat \<Rightarrow> 'io http \<Rightarrow> bool"
    and chars :: "'io http \<Rightarrow> string"
  assumes next_Cons: "ok (Suc n) s \<Longrightarrow> chars s = c # cs \<Longrightarrow>
      \<exists>s'. (\<forall>c0. attoHTTPParseURLParamChar E c0 s = returns (1, c, s')) \<and> ok n s' \<and> chars s' = cs"
    and next_Nil: "ok (Suc n) s \<Longrightarrow> chars s = [] \<Longrightarrow>
      \<exists>s'. (\<forall>c0. \<exists>c. attoHTTPParseURLParamChar E c0 s = returns (0, c, s')) \<and> ok n s' \<and> chars s' = []"
    and ok_mono: "ok m s \<Longrightarrow> n \<le> m \<Longrightarrow> ok n s"
begin

text \<open>One turn of the loop, by the character it reads.\<close>

lemma loop_plain:
  assumes "ok (Suc n) s" and "chars s = c # cs" and "url_plain c"
  shows "\<exists>s'. attoHTTPParseURLParam_loop E p s = rbind (url_param_put c (p\<lparr>up_c := c\<rparr>)) (\<lambda>p.
      if up_vl p > 0 then attoHTTPParseURLParam_loop E p s' else returns (p, s')) \<and> ok n s' \<and> chars s' = cs"
proof -
  from next_Cons [OF assms(1,2)] obtain s' where
    s': "\<And>c0. attoHTTPParseURLParamChar E c0 s = returns (1, c, s')" "ok n s'" "chars s' = cs" by blast
  with assms(3) show ?thesis
    by (intro exI [of _ s']) (simp add: attoHTTPParseURLParam_loop.simps [of E p] url_param_step_def
        url_plain_def rbind_assoc)
qed

lemma loop_escaped:
  assumes ok: "ok (Suc (Suc (Suc n))) s" and inp: "chars s = CHR ''%'' # a # b # cs" and d: "decode_percent a b = c"
  shows "\<exists>s'. attoHTTPParseURLParam_loop E p s = rbind (url_param_put c (p\<lparr>up_c := c\<rparr>)) (\<lambda>p.
      if up_vl p > 0 then attoHTTPParseURLParam_loop E p s' else returns (p, s')) \<and> ok n s' \<and> chars s' = cs"
proof -
  from next_Cons [OF ok inp] obtain s1 where
    s1: "\<And>c0. attoHTTPParseURLParamChar E c0 s = returns (1, CHR ''%'', s1)" "ok (Suc (Suc n)) s1" "chars s1 = a # b # cs"
    by blast
  from next_Cons [OF s1(2,3)] obtain s2 where
    s2: "\<And>c0. attoHTTPParseURLParamChar E c0 s1 = returns (1, a, s2)" "ok (Suc n) s2" "chars s2 = b # cs" by blast
  from next_Cons [OF s2(2,3)] obtain s3 where
    s3: "\<And>c0. attoHTTPParseURLParamChar E c0 s2 = returns (1, b, s3)" "ok n s3" "chars s3 = cs" by blast
  have "\<not> isspace (CHR ''%'')" by (simp add: isspace_def)
  with s1 s2 s3 d show ?thesis
    by (intro exI [of _ s3]) (simp add: attoHTTPParseURLParam_loop.simps [of E p] url_param_step_def rbind_assoc)
qed

lemma loop_escape:
  assumes "ok (length (url_escape c) + n) s" and "chars s = url_escape c @ cs"
  shows "\<exists>s'. attoHTTPParseURLParam_loop E p s = rbind (url_param_put c (p\<lparr>up_c := c\<rparr>)) (\<lambda>p.
      if up_vl p > 0 then attoHTTPParseURLParam_loop E p s' else returns (p, s')) \<and> ok n s' \<and> chars s' = cs"
  using assms loop_plain [of n s c cs p]
    loop_escaped [of n s "hex_char (of_char c div 16)" "hex_char (of_char c mod 16)" cs c p]
  by (simp add: url_escape_def split: if_splits)

lemma loop_equals:
  assumes "ok (Suc n) s" and "chars s = CHR ''='' # cs" and "up_vl p > 0"
  shows "\<exists>s'. attoHTTPParseURLParam_loop E p s =
    attoHTTPParseURLParam_loop E (p\<lparr>up_c := CHR ''='', up_nl := 0\<rparr>) s' \<and> ok n s' \<and> chars s' = cs"
proof -
  from next_Cons [OF assms(1,2)] obtain s' where
    s': "\<And>c0. attoHTTPParseURLParamChar E c0 s = returns (1, CHR ''='', s')" "ok n s'" "chars s' = cs" by blast
  with assms(3) show ?thesis
    by (intro exI [of _ s']) (simp add: attoHTTPParseURLParam_loop.simps [of E p] url_param_step_def)
qed

lemma loop_end:
  assumes "ok (Suc n) s" and "chars s = e # cs" and "e = NUL \<or> e = CHR ''&'' \<or> isspace e" and "up_count p > 0"
  shows "\<exists>s'. attoHTTPParseURLParam_loop E p s = returns (p\<lparr>up_c := e\<rparr>, s') \<and> ok n s' \<and> chars s' = cs"
proof -
  from next_Cons [OF assms(1,2)] obtain s' where
    s': "\<And>c0. attoHTTPParseURLParamChar E c0 s = returns (1, e, s')" "ok n s'" "chars s' = cs" by blast
  moreover have "\<not> isspace (CHR ''='')" by (simp add: isspace_def)
  ultimately show ?thesis
    using assms(3,4)
    by (intro exI [of _ s']) (auto simp: attoHTTPParseURLParam_loop.simps [of E p] url_param_step_def)
qed

lemma loop_eof:
  assumes "ok (Suc n) s" and "chars s = []"
  shows "\<exists>s' c. attoHTTPParseURLParam_loop E p s = returns (p\<lparr>up_c := c\<rparr>, s') \<and> ok n s' \<and> chars s' = []"
proof -
  from next_Nil [OF assms] obtain s' where
    s': "\<exists>c. attoHTTPParseURLParamChar E (up_c p) s = returns (0, c, s')" "ok n s'" "chars s' = []" by blast
  then obtain c where "attoHTTPParseURLParamChar E (up_c p) s = returns (0, c, s')" by blast
  with s'(2,3) show ?thesis
    by (intro exI [of _ s'] exI [of _ c]) (simp add: attoHTTPParseURLParam_loop.simps [of E p] url_param_step_def)
qed

text \<open>A run of name characters, and a run of value characters.\<close>

lemma name_run:
  assumes "ok (length (url_encode nm) + n) s" and "chars s = url_encode nm @ cs"
    and "length nm \<le> unat (up_nl p)" and "up_i p + length nm \<le> length (up_name p)" and "up_vl p > 0"
  shows "\<exists>s' c. attoHTTPParseURLParam_loop E p s = attoHTTPParseURLParam_loop E
      (p\<lparr>up_c := c, up_name := splice (up_name p) (up_i p) nm, up_i := up_i p + length nm,
         up_nl := up_nl p - of_nat (length nm), up_count := up_count p + of_nat (length nm)\<rparr>) s' \<and>
    ok n s' \<and> chars s' = cs"
  using assms
proof (induction nm arbitrary: p s)
  case Nil
  show ?case by (intro exI [of _ s] exI [of _ "up_c p"]) (use Nil in simp)
next
  case (Cons c nm)
  let ?q = "p\<lparr>up_c := c, up_count := up_count p + 1, up_name := (up_name p)[up_i p := c],
    up_i := up_i p + 1, up_nl := up_nl p - 1\<rparr>"
  from loop_escape [of c "length (url_encode nm) + n" s "url_encode nm @ cs" p] Cons.prems(1,2)
  obtain s1 where s1: "attoHTTPParseURLParam_loop E p s = rbind (url_param_put c (p\<lparr>up_c := c\<rparr>)) (\<lambda>p.
      if up_vl p > 0 then attoHTTPParseURLParam_loop E p s1 else returns (p, s1))"
    "ok (length (url_encode nm) + n) s1" "chars s1 = url_encode nm @ cs"
    by (auto simp: add.assoc)
  have nl: "up_nl p > 0" using Cons.prems(3) by (auto simp: word_less_nat_alt)
  then have nl1: "unat (up_nl p - 1) = unat (up_nl p) - 1"
    using unat_minus_one [of "up_nl p"] by auto
  have "attoHTTPParseURLParam_loop E p s = attoHTTPParseURLParam_loop E ?q s1"
    using s1(1) nl Cons.prems(4,5) by (simp add: url_param_put_def)
  moreover have "length nm \<le> unat (up_nl ?q)" "up_i ?q + length nm \<le> length (up_name ?q)" "up_vl ?q > 0"
    using Cons.prems(3-5) nl1 by simp_all
  from Cons.IH [OF s1(2,3) this]
  obtain s' c' where "attoHTTPParseURLParam_loop E ?q s1 = attoHTTPParseURLParam_loop E
      (?q\<lparr>up_c := c', up_name := splice (up_name ?q) (up_i ?q) nm, up_i := up_i ?q + length nm,
         up_nl := up_nl ?q - of_nat (length nm), up_count := up_count ?q + of_nat (length nm)\<rparr>) s'"
    "ok n s'" "chars s' = cs"
    by blast
  ultimately show ?case
    using Cons.prems(4)
    by (intro exI [of _ s'] exI [of _ c']) (simp add: splice_update [symmetric] diff_diff_add add.assoc)
qed

lemma value_run:
  assumes "ok (length (url_encode v) + n) s" and "chars s = url_encode v @ cs" and "up_nl p = 0"
    and "length v < unat (up_vl p)" and "up_j p + length v \<le> length (up_value p)"
  shows "\<exists>s' c. attoHTTPParseURLParam_loop E p s = attoHTTPParseURLParam_loop E
      (p\<lparr>up_c := c, up_value := splice (up_value p) (up_j p) v, up_j := up_j p + length v,
         up_vl := up_vl p - of_nat (length v)\<rparr>) s' \<and> ok n s' \<and> chars s' = cs"
  using assms
proof (induction v arbitrary: p s)
  case Nil
  show ?case by (intro exI [of _ s] exI [of _ "up_c p"]) (use Nil in simp)
next
  case (Cons c v)
  let ?q = "p\<lparr>up_c := c, up_value := (up_value p)[up_j p := c], up_j := up_j p + 1, up_vl := up_vl p - 1\<rparr>"
  from loop_escape [of c "length (url_encode v) + n" s "url_encode v @ cs" p] Cons.prems(1,2)
  obtain s1 where s1: "attoHTTPParseURLParam_loop E p s = rbind (url_param_put c (p\<lparr>up_c := c\<rparr>)) (\<lambda>p.
      if up_vl p > 0 then attoHTTPParseURLParam_loop E p s1 else returns (p, s1))"
    "ok (length (url_encode v) + n) s1" "chars s1 = url_encode v @ cs"
    by (auto simp: add.assoc)
  have "up_vl p \<noteq> 0" using Cons.prems(4) by auto
  then have vl1: "unat (up_vl p - 1) = unat (up_vl p) - 1" by (rule unat_minus_one)
  then have "up_vl p - 1 > 0" using Cons.prems(4) by (simp add: word_less_nat_alt)
  then have "attoHTTPParseURLParam_loop E p s = attoHTTPParseURLParam_loop E ?q s1"
    using s1(1) Cons.prems(3,5) by (simp add: url_param_put_def)
  moreover have "up_nl ?q = 0" "length v < unat (up_vl ?q)" "up_j ?q + length v \<le> length (up_value ?q)"
    using Cons.prems(3-5) vl1 by simp_all
  from Cons.IH [OF s1(2,3) this]
  obtain s' c' where "attoHTTPParseURLParam_loop E ?q s1 = attoHTTPParseURLParam_loop E
      (?q\<lparr>up_c := c', up_value := splice (up_value ?q) (up_j ?q) v, up_j := up_j ?q + length v,
         up_vl := up_vl ?q - of_nat (length v)\<rparr>) s'" "ok n s'" "chars s' = cs"
    by blast
  ultimately show ?case
    using Cons.prems(5)
    by (intro exI [of _ s'] exI [of _ c']) (simp add: splice_update [symmetric] diff_diff_add add.assoc)
qed

text \<open>A whole parameter, up to its separator or to the end of the text.\<close>

lemma param_run:
  assumes nm: "nm \<noteq> []" "length nm \<le> unat nl" "length nm \<le> length name"
    and v: "length v < unat vl" "unat vl \<le> length val"
    and ok: "ok (length (url_encode nm @ CHR ''='' # url_encode v) + Suc n) s"
    and inp: "chars s = url_encode nm @ CHR ''='' # url_encode v @ cs"
  shows "\<exists>s1 p. attoHTTPParseURLParam_loop E
      \<lparr>up_c = c0, up_name = name, up_i = 0, up_nl = nl, up_value = val, up_j = 0, up_vl = vl, up_count = 0\<rparr> s =
        attoHTTPParseURLParam_loop E p s1 \<and> up_count p > 0 \<and> up_nl p = 0 \<and>
      up_name p = splice name 0 nm \<and> up_i p = length nm \<and> up_value p = splice val 0 v \<and>
      up_j p = length v \<and> ok (Suc n) s1 \<and> chars s1 = cs"
proof -
  let ?p = "\<lparr>up_c = c0, up_name = name, up_i = 0, up_nl = nl, up_value = val, up_j = 0, up_vl = vl, up_count = 0\<rparr>"
  have vl: "vl > 0" using v(1) by (auto simp: word_less_nat_alt)
  have a: "length nm \<le> unat (up_nl ?p)" "up_i ?p + length nm \<le> length (up_name ?p)" "up_vl ?p > 0"
    using nm vl by simp_all
  have "ok (length (url_encode nm) + Suc (length (url_encode v) + Suc n)) s" using ok by (simp add: add.assoc)
  from name_run [OF this inp a] obtain s1 c1 where
    1: "attoHTTPParseURLParam_loop E ?p s = attoHTTPParseURLParam_loop E
      (?p\<lparr>up_c := c1, up_name := splice name 0 nm, up_i := length nm, up_nl := nl - of_nat (length nm),
         up_count := of_nat (length nm)\<rparr>) s1"
    "ok (Suc (length (url_encode v) + Suc n)) s1" "chars s1 = CHR ''='' # url_encode v @ cs" by auto
  let ?q = "?p\<lparr>up_c := CHR ''='', up_name := splice name 0 nm, up_i := length nm, up_nl := 0,
      up_count := of_nat (length nm)\<rparr>"
  from loop_equals [OF 1(2,3), of "?p\<lparr>up_c := c1, up_name := splice name 0 nm, up_i := length nm,
      up_nl := nl - of_nat (length nm), up_count := of_nat (length nm)\<rparr>"] vl
  obtain s2 where 2: "attoHTTPParseURLParam_loop E ?p s = attoHTTPParseURLParam_loop E ?q s2"
    "ok (length (url_encode v) + Suc n) s2" "chars s2 = url_encode v @ cs"
    using 1(1) by auto
  have b: "up_nl ?q = 0" "length v < unat (up_vl ?q)" "up_j ?q + length v \<le> length (up_value ?q)"
    using v by simp_all
  have "length nm < 2 ^ 16" using nm(2) unsigned_less [of nl, where ?'a = nat] by simp
  then have cnt: "(of_nat (length nm) :: 16 word) > 0"
    using nm(1) by (simp add: word_less_nat_alt unat_of_nat_small)
  from value_run [OF 2(2,3) b] obtain s3 c3 where
    "attoHTTPParseURLParam_loop E ?q s2 = attoHTTPParseURLParam_loop E (?q\<lparr>up_c := c3,
       up_value := splice val 0 v, up_j := length v, up_vl := vl - of_nat (length v)\<rparr>) s3"
    "ok (Suc n) s3" "chars s3 = cs" by auto
  with 2(1) cnt show ?thesis
    by (intro exI [of _ s3] exI [of _ "?q\<lparr>up_c := c3, up_value := splice val 0 v, up_j := length v,
          up_vl := vl - of_nat (length v)\<rparr>"]) simp
qed

text \<open>The value that \<^verbatim>\<open>attoHTTPParseURLParam\<close> returns for a parameter with a separator, and for the last one.\<close>

lemma param_separated:
  assumes nm: "nm \<noteq> []" "length nm \<le> unat nl" "length nm < length name"
    and v: "length v < unat vl" "unat vl \<le> length val"
    and ok: "ok (length (url_encode nm @ CHR ''='' # url_encode v) + Suc n) s"
    and inp: "chars s = url_encode nm @ CHR ''='' # url_encode v @ e # cs"
    and e: "e = NUL \<or> e = CHR ''&'' \<or> isspace e"
  shows "\<exists>s'. attoHTTPParseURLParam E name nl val vl s =
    returns (True, splice name 0 (nm @ [NUL]), splice val 0 (v @ [NUL]), s') \<and> ok n s' \<and> chars s' = cs"
proof -
  from param_run [OF nm(1,2) less_imp_le [OF nm(3)] v ok inp] obtain s1 p where
    "attoHTTPParseURLParam_loop E \<lparr>up_c = junk E ParseURLParam_c 0 (io s), up_name = name, up_i = 0,
      up_nl = nl, up_value = val, up_j = 0, up_vl = vl, up_count = 0\<rparr> s = attoHTTPParseURLParam_loop E p s1"
    and p: "up_count p > 0" "up_nl p = 0" "up_name p = splice name 0 nm" "up_i p = length nm"
      "up_value p = splice val 0 v" "up_j p = length v" "ok (Suc n) s1" "chars s1 = e # cs"
    by blast
  moreover from loop_end [OF p(7,8) e p(1)] obtain s' where
    "attoHTTPParseURLParam_loop E p s1 = returns (p\<lparr>up_c := e\<rparr>, s')" "ok n s'" "chars s' = cs" by blast
  ultimately show ?thesis
    using p nm v splice_snoc [of 0 nm name NUL] splice_snoc [of 0 v val NUL]
    by (simp add: attoHTTPParseURLParam_def)
qed

lemma param_last:
  assumes nm: "nm \<noteq> []" "length nm \<le> unat nl" "length nm < length name"
    and v: "length v < unat vl" "unat vl \<le> length val"
    and ok: "ok (length (url_encode nm @ CHR ''='' # url_encode v) + Suc n) s"
    and inp: "chars s = url_encode nm @ CHR ''='' # url_encode v"
  shows "\<exists>s'. attoHTTPParseURLParam E name nl val vl s =
    returns (True, splice name 0 (nm @ [NUL]), splice val 0 (v @ [NUL]), s') \<and> ok n s' \<and> chars s' = []"
proof -
  have inp': "chars s = url_encode nm @ CHR ''='' # url_encode v @ []" using inp by simp
  from param_run [OF nm(1,2) less_imp_le [OF nm(3)] v ok inp'] obtain s1 p where
    "attoHTTPParseURLParam_loop E \<lparr>up_c = junk E ParseURLParam_c 0 (io s), up_name = name, up_i = 0,
      up_nl = nl, up_value = val, up_j = 0, up_vl = vl, up_count = 0\<rparr> s = attoHTTPParseURLParam_loop E p s1"
    and p: "up_count p > 0" "up_nl p = 0" "up_name p = splice name 0 nm" "up_i p = length nm"
      "up_value p = splice val 0 v" "up_j p = length v" "ok (Suc n) s1" "chars s1 = []"
    by blast
  moreover from loop_eof [OF p(7,8), of p] obtain s' c where
    "attoHTTPParseURLParam_loop E p s1 = returns (p\<lparr>up_c := c\<rparr>, s')" "ok n s'" "chars s' = []" by blast
  ultimately show ?thesis
    using p nm v splice_snoc [of 0 nm name NUL] splice_snoc [of 0 v val NUL]
    by (simp add: attoHTTPParseURLParam_def)
qed

text \<open>The terminator of a name of exactly \<^verbatim>\<open>name_len\<close> characters goes one byte past the buffer.\<close>

lemma param_overflow:
  assumes nm: "nm \<noteq> []" "length nm = unat nl" "length nm = length name"
    and v: "length v < unat vl" "unat vl \<le> length val"
    and ok: "ok (length (url_encode nm @ CHR ''='' # url_encode v) + Suc n) s"
    and inp: "chars s = url_encode nm @ CHR ''='' # url_encode v @ e # cs"
    and e: "e = NUL \<or> e = CHR ''&'' \<or> isspace e"
  shows "attoHTTPParseURLParam E name nl val vl s = faults OutOfBounds"
proof -
  from param_run [OF nm(1) eq_imp_le [OF nm(2)] eq_imp_le [OF nm(3)] v ok inp] obtain s1 p where
    1: "attoHTTPParseURLParam_loop E \<lparr>up_c = junk E ParseURLParam_c 0 (io s), up_name = name, up_i = 0,
      up_nl = nl, up_value = val, up_j = 0, up_vl = vl, up_count = 0\<rparr> s = attoHTTPParseURLParam_loop E p s1"
    and p: "up_count p > 0" "up_name p = splice name 0 nm" "up_i p = length nm"
      "up_value p = splice val 0 v" "up_j p = length v" "ok (Suc n) s1" "chars s1 = e # cs"
    by blast
  from loop_end [OF p(6,7) e p(1)] obtain s' where
    "attoHTTPParseURLParam_loop E p s1 = returns (p\<lparr>up_c := e\<rparr>, s')" by blast
  with 1 p nm v show ?thesis by (simp add: attoHTTPParseURLParam_def)
qed

text \<open>No parameter: the text is used up, or the terminator of the URL comes first.\<close>

lemma param_none:
  assumes "chars s = [] \<or> (\<exists>cs. chars s = NUL # cs)" and "ok (Suc n) s" and "0 < nl" and "name \<noteq> []" and "val \<noteq> []"
  shows "\<exists>s'. attoHTTPParseURLParam E name nl val vl s = returns (False, name[0 := NUL], val[0 := NUL], s')"
proof -
  let ?p = "\<lparr>up_c = junk E ParseURLParam_c 0 (io s), up_name = name, up_i = 0, up_nl = nl,
    up_value = val, up_j = 0, up_vl = vl, up_count = 0\<rparr>"
  have "\<exists>c s'. attoHTTPParseURLParam_loop E ?p s = returns (?p\<lparr>up_c := c\<rparr>, s')"
  proof (cases "chars s = []")
    case True
    from loop_eof [OF assms(2) True, of ?p] show ?thesis by blast
  next
    case False
    with assms(1) obtain cs where "chars s = NUL # cs" by blast
    from next_Cons [OF assms(2) this] obtain s' where
      "\<And>c0. attoHTTPParseURLParamChar E c0 s = returns (1, NUL, s')" by blast
    then show ?thesis
      by (intro exI [of _ NUL] exI [of _ s'])
        (simp add: attoHTTPParseURLParam_loop.simps [of E] url_param_step_def)
  qed
  then show ?thesis using assms(3-5) by (auto simp: attoHTTPParseURLParam_def)
qed

text \<open>
  Safety on any text: with one byte more in each array than the lengths passed, every store is
  in bounds, and the loop ends.
\<close>

definition room :: "nat \<Rightarrow> nat \<Rightarrow> uparam \<Rightarrow> bool" where
  "room a b p \<longleftrightarrow> up_i p + unat (up_nl p) < length (up_name p) \<and> length (up_name p) = a \<and>
     up_j p + unat (up_vl p) < length (up_value p) \<and> length (up_value p) = b"

lemma room_c [simp]: "room a b (p\<lparr>up_c := c\<rparr>) = room a b p" "room a b p \<Longrightarrow> room a b (p\<lparr>up_nl := 0\<rparr>)"
  by (auto simp: room_def)

lemma put_room: "room a b p \<Longrightarrow> up_nl p > 0 \<or> up_vl p > 0 \<Longrightarrow> ensures (url_param_put c p) (room a b)"
proof -
  assume r: "room a b p" and l: "up_nl p > 0 \<or> up_vl p > 0"
  have v: "unat (up_vl p - 1) = unat (up_vl p) - 1" "0 < unat (up_vl p)" if "up_vl p > 0"
    using that unat_minus_one [of "up_vl p"] by (auto simp: unat_gt_0)
  have n: "unat (up_nl p - 1) = unat (up_nl p) - 1" "0 < unat (up_nl p)" if "up_nl p > 0"
    using that unat_minus_one [of "up_nl p"] by (auto simp: unat_gt_0)
  show ?thesis
  proof (cases "up_nl p > 0")
    case True
    with r n show ?thesis by (simp add: url_param_put_def room_def)
  next
    case False
    with l r v show ?thesis by (simp add: url_param_put_def room_def)
  qed
qed

lemma next_ensures:
  assumes "ok (Suc n) s"
  shows "ensures (attoHTTPParseURLParamChar E c0 s) (\<lambda>(r, c, s'). ok n s' \<and>
    (r = 1 \<and> chars s = c # chars s' \<or> r = 0 \<and> chars s = [] \<and> chars s' = []))"
proof (cases "chars s")
  case Nil
  from next_Nil [OF assms Nil] obtain s' where
    "\<exists>c. attoHTTPParseURLParamChar E c0 s = returns (0, c, s')" "ok n s'" "chars s' = []" by blast
  then show ?thesis using Nil by auto
next
  case (Cons c cs)
  from next_Cons [OF assms Cons] show ?thesis using Cons by auto
qed

lemma step_ensures:
  assumes "ok (Suc (Suc n)) s" and "room a b p" and "up_nl p > 0 \<or> up_vl p > 0"
  shows "ensures (url_param_step E r p s) (\<lambda>(stop, p', s'). room a b p' \<and> (r \<le> 0 \<longrightarrow> stop) \<and>
    ok n s' \<and> length (chars s') \<le> length (chars s))"
proof -
  have n: "ensures (attoHTTPParseURLParamChar E c s') (\<lambda>(r, _, s''). ok m s'' \<and>
      length (chars s'') \<le> length (chars s'))" if "ok (Suc m) s'" for m s' c
    by (rule ensures_mono [OF next_ensures [OF that]]) auto
  have put: "ensures (url_param_put c (p\<lparr>up_c := c\<rparr>)) (room a b)" for c
    by (rule put_room) (use assms in simp_all)
  have put': "ensures (url_param_put c p) (room a b)" for c by (rule put_room [OF assms(2,3)])
  obtain r0 d0 s1 where 1: "attoHTTPParseURLParamChar E (junk E ParseURLParam_decode 0 (io s)) s = returns (r0, d0, s1)"
    "ok (Suc n) s1" "length (chars s1) \<le> length (chars s)"
    using n [OF assms(1), of "junk E ParseURLParam_decode 0 (io s)"] by (auto elim!: ensuresE)
  obtain r1 d1 s2 where 2: "attoHTTPParseURLParamChar E (junk E ParseURLParam_decode 1 (io s1)) s1 = returns (r1, d1, s2)"
    "ok n s2" "length (chars s2) \<le> length (chars s1)"
    using n [OF 1(2), of "junk E ParseURLParam_decode 1 (io s1)"] by (auto elim!: ensuresE)
  have "ok n s" using ok_mono [OF assms(1)] by simp
  then show ?thesis
    using 1 2 put put' assms(2) by (auto simp: url_param_step_def Let_def elim!: ensures_mono)
qed

text \<open>Three reads pay for a character: its own and two of an escape; one more finds the end.\<close>

lemma loop_total:
  "ok (3 * length (chars s) + 1 + n) s \<Longrightarrow> room a b p \<Longrightarrow> up_nl p > 0 \<or> up_vl p > 0 \<Longrightarrow>
   ensures (attoHTTPParseURLParam_loop E p s) (\<lambda>(p', s'). room a b p' \<and> ok (3 * length (chars s') + n) s')"
proof (induction "length (chars s)" arbitrary: p s rule: less_induct)
  case less
  from less.prems(1) have ok1: "ok (Suc (3 * length (chars s) + n)) s" by simp
  obtain r c s1 where 1: "attoHTTPParseURLParamChar E (up_c p) s = returns (r, c, s1)"
    "ok (3 * length (chars s) + n) s1"
    "r = 1 \<and> chars s = c # chars s1 \<or> r = 0 \<and> chars s = [] \<and> chars s1 = []"
    using next_ensures [OF ok1, of "up_c p"] by (auto elim!: ensuresE)
  show ?case
  proof (cases "r = 1")
    case False
    then have "r = 0" "chars s1 = chars s" using 1(3) by auto
    with 1(1,2) less.prems(2) show ?thesis
      by (simp add: attoHTTPParseURLParam_loop.simps [of E p] url_param_step_def)
  next
    case True
    then have len: "length (chars s) = Suc (length (chars s1))" using 1(3) by auto
    have "3 * length (chars s) + n = Suc (Suc (3 * length (chars s1) + 1 + n))" using len by simp
    with 1(2) have ok2: "ok (Suc (Suc (3 * length (chars s1) + 1 + n))) s1" by metis
    have l: "up_nl (p\<lparr>up_c := c\<rparr>) > 0 \<or> up_vl (p\<lparr>up_c := c\<rparr>) > 0" "room a b (p\<lparr>up_c := c\<rparr>)"
      using less.prems(2,3) by simp_all
    obtain stop q s2 where 2: "url_param_step E 1 (p\<lparr>up_c := c\<rparr>) s1 = returns (stop, q, s2)"
      "room a b q" "ok (3 * length (chars s1) + 1 + n) s2" "length (chars s2) \<le> length (chars s1)"
      using step_ensures [OF ok2 l(2,1), of 1] by (auto elim!: ensuresE)
    have ok3: "ok (3 * length (chars s2) + 1 + n) s2" using ok_mono [OF 2(3)] 2(4) by simp
    then have "ok (3 * length (chars s2) + n) s2" by (rule ok_mono) simp
    moreover have "ensures (attoHTTPParseURLParam_loop E q s2)
        (\<lambda>(p', s'). room a b p' \<and> ok (3 * length (chars s') + n) s')" if "up_vl q > 0"
      using less.hyps [OF _ ok3 2(2)] that 2(4) len by simp
    ultimately show ?thesis
      using 1(1) 2 True by (auto simp: attoHTTPParseURLParam_loop.simps [of E p])
  qed
qed

lemma ParseURLParam_total:
  assumes "ok (3 * length (chars s) + 1 + n) s" and "unat nl < length name" and "unat vl < length val"
    and "0 < nl \<or> 0 < vl"
  shows "ensures (attoHTTPParseURLParam E name nl val vl s) (\<lambda>(r, name', val', s').
    length name' = length name \<and> length val' = length val \<and> ok (3 * length (chars s') + n) s')"
proof -
  let ?p = "\<lparr>up_c = junk E ParseURLParam_c 0 (io s), up_name = name, up_i = 0, up_nl = nl,
    up_value = val, up_j = 0, up_vl = vl, up_count = 0\<rparr>"
  have "room (length name) (length val) ?p" "up_nl ?p > 0 \<or> up_vl ?p > 0" using assms by (simp_all add: room_def)
  with loop_total [OF assms(1) this] obtain p' s' where
    "attoHTTPParseURLParam_loop E ?p s = returns (p', s')" "room (length name) (length val) p'"
    "ok (3 * length (chars s') + n) s'"
    by (auto elim!: ensuresE)
  then show ?thesis by (simp add: attoHTTPParseURLParam_def room_def)
qed

end

section \<open>The two sources\<close>

text \<open>GET: the characters of the URL buffer from \<open>url_params\<close> on, up to the end of the buffer.\<close>

definition get_chars :: "'io http \<Rightarrow> string" where
  "get_chars s = (case url_params s of None \<Rightarrow> []
     | Some p \<Rightarrow> take (64 - unat (url_params_start s)) (drop p (url s)))"

definition get_ok :: "nat \<Rightarrow> 'io http \<Rightarrow> bool" where
  "get_ok n s \<longleftrightarrow> http_method s = METHOD_GET \<and> length (url s) = 64 \<and>
     (unat (url_params_start s) < 64 \<longrightarrow> url_params s = Some (unat (url_params_start s))) \<and>
     unat (url_params_start s) + n < 2 ^ 16"

interpretation url_source: param_source E get_ok get_chars for E :: "'io env"
proof
  fix n and s :: "'io http"
  assume ok: "get_ok (Suc n) s"
  let ?s = "s\<lparr>url_params_start := url_params_start s + 1\<rparr>"
  have "unat (url_params_start s) + 1 < 2 ^ 16" using ok by (simp add: get_ok_def)
  then have st: "unat (url_params_start s + 1) = unat (url_params_start s) + 1"
    by (simp add: unat_word_ariths)
  have lt: "url_params_start s < of_nat ATTOHTTP_URL_BUFFER_SIZE \<longleftrightarrow> unat (url_params_start s) < 64"
    by (simp add: word_less_nat_alt)
  show "\<exists>s'. (\<forall>c0. attoHTTPParseURLParamChar E c0 s = returns (1, c, s')) \<and> get_ok n s' \<and> get_chars s' = cs"
    if "get_chars s = c # cs" for c cs
  proof -
    have b: "unat (url_params_start s) < 64"
    proof (rule ccontr)
      assume "\<not> unat (url_params_start s) < 64"
      with that show False by (simp add: get_chars_def split: option.splits)
    qed
    then have p: "url_params s = Some (unat (url_params_start s))" using ok by (simp add: get_ok_def)
    have "drop (unat (url_params_start s)) (url s) =
        url s ! unat (url_params_start s) # drop (unat (url_params_start s) + 1) (url s)"
      using b ok by (simp add: get_ok_def Cons_nth_drop_Suc)
    moreover have "64 - unat (url_params_start s) = Suc (64 - (unat (url_params_start s) + 1))" using b by simp
    ultimately have c: "c = url s ! unat (url_params_start s)"
      "cs = take (64 - (unat (url_params_start s) + 1)) (drop (unat (url_params_start s) + 1) (url s))"
      using that by (simp_all add: get_chars_def p)
    show ?thesis
      by (rule exI [of _ "?s\<lparr>url_params := Some (unat (url_params_start s) + 1)\<rparr>"])
        (use ok b p st lt c in \<open>simp add: attoHTTPParseURLParamChar_def Let_def get_ok_def get_chars_def\<close>)
  qed
  show "\<exists>s'. (\<forall>c0. \<exists>c. attoHTTPParseURLParamChar E c0 s = returns (0, c, s')) \<and> get_ok n s' \<and> get_chars s' = []"
    if "get_chars s = []"
  proof -
    have "\<not> unat (url_params_start s) < 64" using that ok by (auto simp: get_chars_def get_ok_def)
    then show ?thesis
      by (intro exI [of _ ?s])
        (use ok st lt in \<open>auto simp: attoHTTPParseURLParamChar_def Let_def get_ok_def get_chars_def split: option.splits\<close>)
  qed
qed (simp add: get_ok_def)

text \<open>The other methods: the body, without white space and question marks.\<close>

definition skipped :: "char \<Rightarrow> bool" where
  "skipped c \<longleftrightarrow> isspace c \<or> c = CHR ''?''"

definition body_chars :: "(handle \<Rightarrow> 'io \<Rightarrow> string) \<Rightarrow> 'io http \<Rightarrow> string" where
  "body_chars pending s = filter (\<lambda>c. \<not> skipped c) (input_of pending s)"

context byte_source
begin

lemma skip_body:
  "inp s = bl @ r \<Longrightarrow> \<forall>c \<in> set bl. skipped c \<Longrightarrow> r = [] \<or> \<not> skipped (hd r) \<Longrightarrow>
   \<exists>s'. (\<forall>c0. \<exists>c. url_param_skip E c0 s = returns (if r = [] then 0 else 1, c, s') \<and> (r \<noteq> [] \<longrightarrow> c = hd r)) \<and>
     inp s' = tl r \<and> io_frame s s'"
proof (induction bl arbitrary: s)
  case Nil
  show ?case
  proof (cases r)
    case Nil
    with \<open>inp s = [] @ r\<close> have "inp s = []" by simp
    then obtain s' oc where "\<And>c0. attoHTTPReadC E c0 s = returns (0, case oc of None \<Rightarrow> c0 | Some b \<Rightarrow> b, s')"
      "rds s s'" "inp s' = []" by (rule ReadC_Nil) auto
    then show ?thesis
      using Nil by (intro exI [of _ s']) (simp add: url_param_skip.simps [of E] reads_io_frame)
  next
    case (Cons b t)
    with \<open>inp s = [] @ r\<close> have "inp s = b # t" by simp
    then obtain s' where "\<And>c0. attoHTTPReadC E c0 s = returns (1, b, s')" "rds s s'" "inp s' = t"
      by (rule ReadC_Cons) auto
    then show ?thesis
      using Cons Nil.prems(3)
      by (intro exI [of _ s']) (simp add: url_param_skip.simps [of E] reads_io_frame skipped_def)
  qed
next
  case (Cons b bl)
  then have "inp s = b # (bl @ r)" by simp
  then obtain s1 where s1: "\<And>c0. attoHTTPReadC E c0 s = returns (1, b, s1)" "rds s s1" "inp s1 = bl @ r"
    by (rule ReadC_Cons) auto
  from Cons.IH [OF s1(3)] Cons.prems(2,3) obtain s' where
    s': "\<And>c0. \<exists>c. url_param_skip E c0 s1 = returns (if r = [] then 0 else 1, c, s') \<and> (r \<noteq> [] \<longrightarrow> c = hd r)"
    "inp s' = tl r" "io_frame s1 s'" by auto
  have "url_param_skip E c0 s = url_param_skip E b s1" for c0
    using s1(1) Cons.prems(2) by (simp add: url_param_skip.simps [of E c0] skipped_def)
  with s'(1) [of b] s'(2,3) s1(2) show ?case
    by (intro exI [of _ s']) (auto intro: io_frame_trans reads_io_frame)
qed

end

text \<open>\<open>pending\<close> and \<open>sent\<close> do not occur in the parser: they only say what the transport delivers.\<close>

definition form_ok :: "nat \<Rightarrow> 'io http \<Rightarrow> bool" where
  "form_ok n s \<longleftrightarrow> http_method s \<in> {METHOD_POST, METHOD_PUT, METHOD_PATCH, METHOD_DELETE} \<and>
     contenttype s = APPLICATION_XWWWFORMURLENCODED"

sublocale byte_source \<subseteq> body_source: param_source E form_ok "body_chars pending"
proof
  fix n and s :: "'io http"
  assume m: "form_ok (Suc n) s"
  let ?bl = "takeWhile skipped (inp s)" and ?r = "dropWhile skipped (inp s)"
  have f: "body_chars pending s = filter (\<lambda>c. \<not> skipped c) ?r"
  proof -
    have "filter (\<lambda>c. \<not> skipped c) (?bl @ ?r) = filter (\<lambda>c. \<not> skipped c) ?r"
      unfolding filter_append by (simp add: filter_empty_conv) (meson set_takeWhileD)
    then show ?thesis by (simp add: body_chars_def)
  qed
  have "?r = [] \<or> \<not> skipped (hd ?r)" using hd_dropWhile by blast
  moreover have "inp s = ?bl @ ?r" by simp
  moreover have "\<forall>c \<in> set ?bl. skipped c" by (meson set_takeWhileD)
  ultimately obtain s' where
    s': "\<And>c0. \<exists>c. url_param_skip E c0 s = returns (if ?r = [] then 0 else 1, c, s') \<and> (?r \<noteq> [] \<longrightarrow> c = hd ?r)"
    "inp s' = tl ?r" "io_frame s s'"
    using skip_body [of s ?bl ?r] by blast
  have m': "form_ok n s'" using io_frame_fields [OF s'(3)] m by (simp add: form_ok_def)
  have g: "attoHTTPParseURLParamChar E c0 s = url_param_skip E c0 s" for c0
    using m by (auto simp: attoHTTPParseURLParamChar_def form_ok_def)
  show "\<exists>s'. (\<forall>c0. attoHTTPParseURLParamChar E c0 s = returns (1, c, s')) \<and>
      form_ok n s' \<and> body_chars pending s' = cs" if "body_chars pending s = c # cs" for c cs
  proof -
    have ne: "?r \<noteq> []" using that unfolding f by (metis filter.simps(1) list.distinct(1))
    then obtain t where t: "?r = hd ?r # t" by (cases ?r) auto
    moreover have "\<not> skipped (hd ?r)" using hd_dropWhile [OF ne] .
    ultimately have "c = hd ?r" "cs = filter (\<lambda>c. \<not> skipped c) t"
      using that unfolding f by (metis filter.simps(2) list.inject)+
    moreover have "tl ?r = t" using t by (metis list.sel(3))
    ultimately show ?thesis
      using s' m' ne by (intro exI [of _ s']) (auto simp: g body_chars_def)
  qed
  show "\<exists>s'. (\<forall>c0. \<exists>c. attoHTTPParseURLParamChar E c0 s = returns (0, c, s')) \<and>
      form_ok n s' \<and> body_chars pending s' = []" if "body_chars pending s = []"
  proof -
    have "?r = []"
    proof (rule ccontr)
      assume "?r \<noteq> []"
      then have "hd ?r \<in> set ?r" "\<not> skipped (hd ?r)" by (simp, rule hd_dropWhile)
      with that f show False by (simp add: filter_empty_conv)
    qed
    with s' m' show ?thesis by (intro exI [of _ s']) (auto simp: g body_chars_def)
  qed
qed (simp add: form_ok_def)

end
