(* ===== verification/JsonParams.thy ===== *)
theory JsonParams
  imports UrlParams
begin

text \<open>
  Parameters in JSON encoding, \<^verbatim>\<open>attoHTTPParseJSONParam\<close> of \<^verbatim>\<open>src/src/attohttp.c\<close>, and the
  choice between the two encodings, \<^verbatim>\<open>attoHTTPParseParam\<close>.
\<close>

section \<open>Definitions\<close>

text \<open>
  The locals of \<^verbatim>\<open>attoHTTPParseJSONParam\<close>. \<open>jp_stop\<close> is set by a \<^verbatim>\<open>break\<close> of the loop.
\<close>

record jparam =
  jp_c :: char
  jp_name :: string
  jp_i :: nat
  jp_nl :: nat
  jp_value :: string
  jp_j :: nat
  jp_vl :: nat
  jp_sq :: bool
  jp_dq :: bool
  jp_divider :: bool
  jp_stop :: bool

text \<open>The buffer writes, guarded so that the last byte of each array stays free.\<close>

definition json_put :: "char \<Rightarrow> jparam \<Rightarrow> jparam run" where
  "json_put c p =
     (if jp_nl p > 0 then
        (if jp_nl p > 1 then
           rbind (store (jp_name p) (jp_i p) c) (\<lambda>b.
           returns (p\<lparr>jp_name := b, jp_i := jp_i p + 1, jp_nl := jp_nl p - 1\<rparr>))
         else returns p)
      else
        (if jp_vl p > 1 then
           rbind (store (jp_value p) (jp_j p) c) (\<lambda>b.
           returns (p\<lparr>jp_value := b, jp_j := jp_j p + 1, jp_vl := jp_vl p - 1\<rparr>))
         else returns p))"

text \<open>The brackets inside a value, after the character was stored.\<close>

definition json_nesting :: "char \<Rightarrow> jparam \<Rightarrow> 'io http \<Rightarrow> jparam \<times> 'io http" where
  "json_nesting c p s =
     (let s = (if c = CHR ''{'' then s\<lparr>cblevel := cblevel s + 1\<rparr> else s);
          s = (if c = CHR ''}'' then s\<lparr>cblevel := cblevel s - 1\<rparr> else s)
      in if c = CHR ''}'' \<and> cblevel s \<le> 1 then (p\<lparr>jp_stop := True\<rparr>, s)
         else
           let s = (if c = CHR ''['' then s\<lparr>sblevel := sblevel s + 1\<rparr> else s);
               s = (if c = CHR '']'' then s\<lparr>sblevel := sblevel s - 1\<rparr> else s)
           in if c = CHR '']'' \<and> sblevel s = 1 then (p\<lparr>jp_stop := True\<rparr>, s) else (p, s))"

text \<open>The chain of conditions for one character \<open>c\<close>, in the order of the source.\<close>

definition json_step :: "char \<Rightarrow> jparam \<Rightarrow> 'io http \<Rightarrow> (jparam \<times> 'io http) run" where
  "json_step c p s =
     (let level = cblevel s + sblevel s in
      if c = CHR '':'' \<and> cblevel s = 1 \<and> sblevel s = 0 \<and> \<not> jp_sq p \<and> \<not> jp_dq p then
        returns (p\<lparr>jp_nl := 0, jp_divider := True\<rparr>, s)
      else if isspace c \<and> \<not> jp_sq p \<and> \<not> jp_dq p \<and> level \<le> 1 then returns (p, s)
      else if c = CHR '','' \<and> level = 1 then returns (p\<lparr>jp_stop := True\<rparr>, s)
      else if c = CHR 0x27 \<and> level \<le> 1 \<and> \<not> jp_dq p then returns (p\<lparr>jp_sq := \<not> jp_sq p\<rparr>, s)
      else if c = CHR 0x22 \<and> level \<le> 1 \<and> \<not> jp_sq p then returns (p\<lparr>jp_dq := \<not> jp_dq p\<rparr>, s)
      else if c = CHR ''{'' \<and> level = 0 then
        returns (p, s\<lparr>cblevel := cblevel s + 1,
                      baselevel := (if baselevel s = NUL then c else baselevel s)\<rparr>)
      else if c = CHR ''}'' \<and> cblevel s \<le> 1 \<and> baselevel s = CHR ''{'' then
        returns (p\<lparr>jp_stop := True\<rparr>, attoHTTPPushC c (s\<lparr>cblevel := cblevel s - 1\<rparr>))
      else if c = CHR ''['' \<and> level = 0 then
        returns (p, s\<lparr>sblevel := sblevel s + 1,
                      baselevel := (if baselevel s = NUL then c else baselevel s)\<rparr>)
      else if c = CHR '']'' \<and> sblevel s = 1 \<and> baselevel s = CHR ''['' then
        returns (p\<lparr>jp_stop := True\<rparr>, s\<lparr>sblevel := sblevel s - 1\<rparr>)
      else rbind (json_put c p) (\<lambda>p. returns (json_nesting c p s)))"

partial_function (option) attoHTTPParseJSONParam_loop ::
    "'io env \<Rightarrow> jparam \<Rightarrow> 'io http \<Rightarrow> (jparam \<times> 'io http) run" where
  [code]: "attoHTTPParseJSONParam_loop E p s =
     rbind (attoHTTPReadC E (jp_c p) s) (\<lambda>(ret, c, s).
       if ret > 0 \<and> c \<noteq> NUL then
         rbind (json_step c (p\<lparr>jp_c := c\<rparr>) s) (\<lambda>(p, s).
           if \<not> jp_stop p \<and> jp_vl p > 0 then attoHTTPParseJSONParam_loop E p s
           else returns (p, s))
       else returns (p\<lparr>jp_c := c\<rparr>, s))"

text \<open>What follows the loop: an anonymous value gets a running number as its name.\<close>

definition json_finish ::
    "nat \<Rightarrow> nat \<Rightarrow> jparam \<Rightarrow> 'io http \<Rightarrow> (bool \<times> string \<times> string \<times> 'io http) run" where
  "json_finish nl vl p s =
     rbind (store (jp_value p) (jp_j p) NUL) (\<lambda>val.
     rbind (store (jp_name p) (jp_i p) NUL) (\<lambda>name.
     if \<not> jp_divider p \<and> jp_i p \<noteq> 0 then
       rbind (strncpy val name vl) (\<lambda>val.
       rbind (snprintf name nl (show_int (uint (counter s)))) (\<lambda>name.
       returns (True, name, val, s\<lparr>counter := counter s + 1\<rparr>)))
     else returns (jp_nl p = 0, name, val, s)))"

definition attoHTTPParseJSONParam ::
    "'io env \<Rightarrow> string \<Rightarrow> nat \<Rightarrow> string \<Rightarrow> nat \<Rightarrow> 'io http \<Rightarrow>
     (bool \<times> string \<times> string \<times> 'io http) run" where
  "attoHTTPParseJSONParam E name name_len val value_len s =
     rbind (attoHTTPParseJSONParam_loop E
              \<lparr>jp_c = junk E ParseJSONParam_c 0 (io s), jp_name = name, jp_i = 0, jp_nl = name_len,
               jp_value = val, jp_j = 0, jp_vl = value_len, jp_sq = False, jp_dq = False,
               jp_divider = False, jp_stop = False\<rparr> s) (\<lambda>(p, s).
     json_finish name_len value_len p s)"

definition attoHTTPParseParam ::
    "'io env \<Rightarrow> string \<Rightarrow> 8 word \<Rightarrow> string \<Rightarrow> 8 word \<Rightarrow> 'io http \<Rightarrow>
     (bool \<times> string \<times> string \<times> 'io http) run" where
  "attoHTTPParseParam E name name_len val value_len s =
     rbind (store name 0 NUL) (\<lambda>name.
     rbind (store val 0 NUL) (\<lambda>val.
     case http_method s of
       METHOD_GET \<Rightarrow> attoHTTPParseURLParam E name name_len val value_len s
     | METHOD_NOTSUPPORTED \<Rightarrow> returns (False, name, val, s)
     | _ \<Rightarrow>
         (if contenttype s = APPLICATION_XWWWFORMURLENCODED
          then attoHTTPParseURLParam E name name_len val value_len s
          else attoHTTPParseJSONParam E name (unat name_len) val (unat value_len) s)))"

section \<open>Safety\<close>

text \<open>
  Neither array is written at or past the length the caller gave, and the function returns, on
  any input. The indices stay below the arrays' ends because a byte is stored only while more
  than one is left.
\<close>

definition jroom :: "nat \<Rightarrow> nat \<Rightarrow> jparam \<Rightarrow> bool" where
  "jroom a b p \<longleftrightarrow> length (jp_name p) = a \<and> length (jp_value p) = b \<and> jp_i p < a \<and> jp_j p < b \<and>
     jp_i p + jp_nl p \<le> a \<and> jp_j p + jp_vl p \<le> b"

lemma jroom_updates [simp]:
  "jroom a b (p\<lparr>jp_c := c\<rparr>) = jroom a b p" "jroom a b (p\<lparr>jp_stop := x\<rparr>) = jroom a b p"
  "jroom a b (p\<lparr>jp_sq := x\<rparr>) = jroom a b p" "jroom a b (p\<lparr>jp_dq := x\<rparr>) = jroom a b p"
  "jroom a b p \<Longrightarrow> jroom a b (p\<lparr>jp_nl := 0, jp_divider := x\<rparr>)"
  by (simp_all add: jroom_def)

lemma json_put_room: "jroom a b p \<Longrightarrow> ensures (json_put c p) (jroom a b)"
  by (auto simp: json_put_def jroom_def)

lemma json_nesting_room: "jroom a b p \<Longrightarrow> json_nesting c p s = (p', s') \<Longrightarrow> jroom a b p'"
  by (auto simp: json_nesting_def Let_def split: if_splits)

lemma json_step_room:
  assumes "jroom a b p"
  shows "ensures (json_step c p s) (\<lambda>(p', s'). jroom a b p' \<and>
    (\<not> jp_stop p' \<longrightarrow> io s' = io s \<and> extra_c s' = extra_c s \<and> read_h s' = read_h s))"
proof -
  have "ensures (json_put c p) (\<lambda>q. jroom a b (fst (json_nesting c q s)) \<and>
      (let s' = snd (json_nesting c q s) in io s' = io s \<and> extra_c s' = extra_c s \<and> read_h s' = read_h s))"
    by (rule ensures_mono [OF json_put_room [OF assms]]) (auto simp: json_nesting_def Let_def)
  then show ?thesis
    using assms by (auto simp: json_step_def Let_def split_def elim!: ensures_mono)
qed

context byte_source
begin

lemma json_loop_total:
  "jroom a b p \<Longrightarrow> ensures (attoHTTPParseJSONParam_loop E p s) (\<lambda>(p', s'). jroom a b p')"
proof (induction "length (inp s)" arbitrary: p s rule: less_induct)
  case less
  obtain r c s1 where 1: "attoHTTPReadC E (jp_c p) s = returns (r, c, s1)"
    "r = 1 \<and> inp s = c # inp s1 \<or> r = 0"
    using ReadC_ensures [of "jp_c p" s] by (auto elim!: ensuresE)
  show ?case
  proof (cases "r = 1 \<and> c \<noteq> NUL")
    case False
    with 1 less.prems show ?thesis by (auto simp: attoHTTPParseJSONParam_loop.simps [of E p])
  next
    case True
    obtain q s2 where 2: "json_step c (p\<lparr>jp_c := c\<rparr>) s1 = returns (q, s2)" "jroom a b q"
      "\<not> jp_stop q \<longrightarrow> inp s2 = inp s1"
      using json_step_room [of a b "p\<lparr>jp_c := c\<rparr>" c s1] less.prems
      by (auto elim!: ensuresE simp: input_of_def)
    have "length (inp s1) < length (inp s)" using 1(2) True by auto
    then have "ensures (attoHTTPParseJSONParam_loop E q s2) (\<lambda>(p', s'). jroom a b p')" if "\<not> jp_stop q"
      using less.hyps [of s2 q] that 2 by simp
    with 1 2 True show ?thesis by (auto simp: attoHTTPParseJSONParam_loop.simps [of E p])
  qed
qed

end

lemma json_finish_total:
  assumes "jroom (length name) (length val) p" and "nl \<le> length name" and "vl \<le> length val"
  shows "ensures (json_finish nl vl p s) (\<lambda>(r, name', val', s').
    length name' = length name \<and> length val' = length val)"
proof -
  let ?v = "(jp_value p)[jp_j p := NUL]" and ?n = "(jp_name p)[jp_i p := NUL]"
  have l: "length ?v = length val" "length ?n = length name" "jp_i p < length name" "jp_j p < length val"
    using assms(1) by (simp_all add: jroom_def)
  have "NUL \<in> set ?n" using assms(1) by (simp add: jroom_def set_update_memI)
  then have "terminated ?n" by (simp add: terminated_def)
  then obtain v where v: "strncpy ?v ?n vl = returns v"
    using assms(3) l by (simp add: strncpy_def)
  have n: "\<exists>n. snprintf ?n nl x = returns n" for x
    using assms(2) l by (auto simp: snprintf_def)
  then obtain n where n: "snprintf ?n nl (show_int (uint (counter s))) = returns n" by blast
  from length_strncpy [OF v] length_snprintf [OF n] l v n show ?thesis
    using assms(1) by (auto simp: json_finish_def jroom_def)
qed

context byte_source
begin

lemma ParseJSONParam_total:
  assumes "nl \<le> length name" and "vl \<le> length val" and "name \<noteq> []" and "val \<noteq> []"
  shows "ensures (attoHTTPParseJSONParam E name nl val vl s) (\<lambda>(r, name', val', s').
    length name' = length name \<and> length val' = length val)"
proof -
  let ?p = "\<lparr>jp_c = junk E ParseJSONParam_c 0 (io s), jp_name = name, jp_i = 0, jp_nl = nl,
    jp_value = val, jp_j = 0, jp_vl = vl, jp_sq = False, jp_dq = False, jp_divider = False, jp_stop = False\<rparr>"
  have "jroom (length name) (length val) ?p" using assms by (simp add: jroom_def)
  from json_loop_total [OF this, of s] obtain q s1 where
    "attoHTTPParseJSONParam_loop E ?p s = returns (q, s1)" "jroom (length name) (length val) q"
    by (auto elim!: ensuresE)
  with json_finish_total [OF this(2) assms(1,2), of s1] show ?thesis
    by (simp add: attoHTTPParseJSONParam_def)
qed

end

end
