(* ===== verification/JsonText.thy ===== *)
theory JsonText
  imports JsonParams
begin

text \<open>
  What \<^verbatim>\<open>attoHTTPParseJSONParam\<close> makes of the text of a JSON object or array: a scanner reads the
  text of one item, white space and both kinds of quotation marks included, and one call
  of the function returns what the scanner collects, cut to the caller's buffers.
\<close>

section \<open>Scanning the text of an item\<close>

text \<open>
  Where in an item the scanner is: inside single or double quotation marks, inside a nested list
  or object, behind the colon. A nested value is copied as it is.
\<close>

datatype nesting = Flat | InList | InObject

record scan_state =
  sc_sq :: bool
  sc_dq :: bool
  sc_nest :: nesting
  sc_divided :: bool

definition scan_start :: scan_state where
  "scan_start = \<lparr>sc_sq = False, sc_dq = False, sc_nest = Flat, sc_divided = False\<rparr>"

text \<open>
  One character of an item of an array (\<open>arr\<close>) or of an object: whether it is data, and the next
  state. \<open>None\<close> is for the characters that end an item.
\<close>

definition scan_step :: "bool \<Rightarrow> char \<Rightarrow> scan_state \<Rightarrow> (bool \<times> scan_state) option" where
  "scan_step arr c st =
     (if c = NUL \<or> c = CHR ''}'' then None
      else if sc_nest st \<noteq> Flat then
        (if c = CHR ''{'' \<or> c = CHR ''['' then None
         else if c = CHR '']'' then
           (if sc_nest st = InList then Some (True, st\<lparr>sc_nest := Flat\<rparr>) else None)
         else Some (True, st))
      else if c = CHR '':'' \<and> \<not> arr \<and> \<not> sc_sq st \<and> \<not> sc_dq st then Some (False, st\<lparr>sc_divided := True\<rparr>)
      else if isspace c \<and> \<not> sc_sq st \<and> \<not> sc_dq st then Some (False, st)
      else if c = CHR '','' \<or> c = CHR '']'' then None
      else if c = CHR 0x27 \<and> \<not> sc_dq st then Some (False, st\<lparr>sc_sq := \<not> sc_sq st\<rparr>)
      else if c = CHR 0x22 \<and> \<not> sc_sq st then Some (False, st\<lparr>sc_dq := \<not> sc_dq st\<rparr>)
      else if c = CHR ''['' then (if arr then None else Some (True, st\<lparr>sc_nest := InList\<rparr>))
      else if c = CHR ''{'' then Some (True, st\<lparr>sc_nest := InObject\<rparr>)
      else Some (True, st))"

text \<open>The state after a text, and the data before and behind the colon.\<close>

fun scan :: "bool \<Rightarrow> scan_state \<Rightarrow> string \<Rightarrow> (scan_state \<times> string \<times> string) option" where
  "scan arr st [] = Some (st, [], [])"
| "scan arr st (c # w) =
     (case scan_step arr c st of
        None \<Rightarrow> None
      | Some (b, st') \<Rightarrow>
          (case scan arr st' w of
             None \<Rightarrow> None
           | Some (q, n, v) \<Rightarrow>
               Some (q, if b then (if sc_divided st then (n, c # v) else (c # n, v)) else (n, v))))"

lemma scan_append:
  "scan arr st (x @ y) =
     (case scan arr st x of
        None \<Rightarrow> None
      | Some (q, n, v) \<Rightarrow>
          (case scan arr q y of
             None \<Rightarrow> None
           | Some (q', n', v') \<Rightarrow> Some (q', n @ n', v @ v')))"
  by (induction x arbitrary: st) (auto split: option.split prod.split)

lemma scan_step_keeps:
  "scan_step arr c st = Some (b, st') \<Longrightarrow> sc_divided st \<Longrightarrow> sc_divided st'"
  by (auto simp: scan_step_def split: if_splits)

lemma scan_divided: "scan arr st w = Some (q, n, v) \<Longrightarrow> sc_divided st \<Longrightarrow> n = [] \<and> sc_divided q"
  by (induction w arbitrary: st n v)
    (auto split: option.splits prod.splits if_splits dest: scan_step_keeps)

section \<open>The text of an object and of an array\<close>

text \<open>A value in double or single quotation marks, without any, or a list.\<close>

datatype jvalue = Quoted string | Single string | Bare string | Listed string

fun jvalue_chars :: "jvalue \<Rightarrow> string" where
  "jvalue_chars (Quoted v) = v"
| "jvalue_chars (Single v) = v"
| "jvalue_chars (Bare v) = v"
| "jvalue_chars (Listed v) = CHR ''['' # v @ '']''"

fun jvalue_text :: "jvalue \<Rightarrow> string" where
  "jvalue_text (Quoted v) = CHR 0x22 # v @ [CHR 0x22]"
| "jvalue_text (Single v) = CHR 0x27 # v @ [CHR 0x27]"
| "jvalue_text (Bare v) = v"
| "jvalue_text (Listed v) = CHR ''['' # v @ '']''"

text \<open>Characters that can stand in a list, in a string, and in a value without quotation marks.\<close>

definition json_inner :: "char \<Rightarrow> bool" where
  "json_inner c \<longleftrightarrow> c \<noteq> NUL \<and> c \<noteq> CHR ''{'' \<and> c \<noteq> CHR ''}'' \<and> c \<noteq> CHR ''['' \<and> c \<noteq> CHR '']''"

definition json_plain :: "char \<Rightarrow> bool" where
  "json_plain c \<longleftrightarrow> json_inner c \<and> c \<noteq> CHR '',''"

definition json_bare :: "char \<Rightarrow> bool" where
  "json_bare c \<longleftrightarrow> json_plain c \<and> \<not> isspace c \<and> c \<noteq> CHR '':'' \<and> c \<noteq> CHR 0x22 \<and> c \<noteq> CHR 0x27"

fun jvalue_ok :: "jvalue \<Rightarrow> bool" where
  "jvalue_ok (Quoted v) = list_all (\<lambda>c. json_plain c \<and> c \<noteq> CHR 0x22) v"
| "jvalue_ok (Single v) = list_all (\<lambda>c. json_plain c \<and> c \<noteq> CHR 0x27) v"
| "jvalue_ok (Bare v) = list_all json_bare v"
| "jvalue_ok (Listed v) = list_all json_inner v"

fun is_listed :: "jvalue \<Rightarrow> bool" where
  "is_listed (Listed v) = True"
| "is_listed v = False"

text \<open>White space may stand around every token.\<close>

record jmember =
  jm_before :: string
  jm_name :: jvalue
  jm_mid :: string
  jm_gap :: string
  jm_value :: jvalue
  jm_after :: string

definition spaces :: "string \<Rightarrow> bool" where
  "spaces x \<longleftrightarrow> list_all isspace x"

definition name_text :: "jmember \<Rightarrow> string" where
  "name_text m = jm_before m @ jvalue_text (jm_name m) @ jm_mid m @ CHR '':'' # jm_gap m"

definition member_text :: "jmember \<Rightarrow> string" where
  "member_text m = name_text m @ jvalue_text (jm_value m) @ jm_after m"

definition name_ok :: "jmember \<Rightarrow> bool" where
  "name_ok m \<longleftrightarrow> spaces (jm_before m) \<and> spaces (jm_mid m) \<and> spaces (jm_gap m) \<and>
     jvalue_ok (jm_name m) \<and> \<not> is_listed (jm_name m)"

definition member_ok :: "jmember \<Rightarrow> bool" where
  "member_ok m \<longleftrightarrow> name_ok m \<and> jvalue_ok (jm_value m) \<and> spaces (jm_after m)"

text \<open>An item of an array, with the white space before and after it.\<close>

type_synonym jitem = "string \<times> jvalue \<times> string"

definition item_text :: "jitem \<Rightarrow> string" where
  "item_text x = (case x of (a, v, b) \<Rightarrow> a @ jvalue_text v @ b)"

definition item_chars :: "jitem \<Rightarrow> string" where
  "item_chars x = jvalue_chars (fst (snd x))"

definition item_ok :: "jitem \<Rightarrow> bool" where
  "item_ok x = (case x of (a, v, b) \<Rightarrow> spaces a \<and> spaces b \<and> jvalue_ok v \<and> \<not> is_listed v \<and> jvalue_chars v \<noteq> [])"

fun separated :: "('a \<Rightarrow> string) \<Rightarrow> 'a list \<Rightarrow> string" where
  "separated f [] = []"
| "separated f [m] = f m"
| "separated f (m # m' # ms) = f m @ CHR '','' # separated f (m' # ms)"

definition object_text :: "jmember list \<Rightarrow> string" where
  "object_text ms = CHR ''{'' # separated member_text ms @ ''}''"

text \<open>Members with the commas that end them.\<close>

definition members_before :: "jmember list \<Rightarrow> string" where
  "members_before ms = concat (map (\<lambda>m. member_text m @ '','') ms)"

definition array_text :: "jitem list \<Rightarrow> string" where
  "array_text xs = CHR ''['' # separated item_text xs @ '']''"

lemma scan_spaces:
  "spaces x \<Longrightarrow> sc_nest st = Flat \<Longrightarrow> \<not> sc_sq st \<Longrightarrow> \<not> sc_dq st \<Longrightarrow> scan arr st x = Some (st, [], [])"
proof (induction x)
  case (Cons c x)
  moreover from Cons.prems have "isspace c" "spaces x" by (simp_all add: spaces_def)
  moreover from this have "scan_step arr c st = Some (False, st)"
    using Cons.prems by (auto simp: scan_step_def isspace_def)
  ultimately show ?case by simp
qed simp

lemma scan_data:
  "\<forall>c \<in> set x. scan_step arr c st = Some (True, st) \<Longrightarrow>
   scan arr st x = Some (st, if sc_divided st then ([], x) else (x, []))"
  by (induction x) simp_all

lemma scan_value:
  assumes "jvalue_ok v" and "is_listed v \<longrightarrow> \<not> arr" and "sc_nest st = Flat" and "\<not> sc_sq st" and "\<not> sc_dq st"
  shows "scan arr st (jvalue_text v) =
    Some (st, if sc_divided st then ([], jvalue_chars v) else (jvalue_chars v, []))"
proof (cases v)
  case (Quoted x)
  have "scan arr (st\<lparr>sc_dq := True\<rparr>) x =
      Some (st\<lparr>sc_dq := True\<rparr>, if sc_divided (st\<lparr>sc_dq := True\<rparr>) then ([], x) else (x, []))"
    using assms(1,3,4) Quoted
    by (intro scan_data) (auto simp: scan_step_def list_all_iff json_plain_def json_inner_def)
  then show ?thesis using assms(3-5) Quoted by (auto simp: scan_append scan_step_def isspace_def)
next
  case (Single x)
  have "scan arr (st\<lparr>sc_sq := True\<rparr>) x =
      Some (st\<lparr>sc_sq := True\<rparr>, if sc_divided (st\<lparr>sc_sq := True\<rparr>) then ([], x) else (x, []))"
    using assms(1,3,5) Single
    by (intro scan_data) (auto simp: scan_step_def list_all_iff json_plain_def json_inner_def)
  then show ?thesis using assms(3-5) Single by (auto simp: scan_append scan_step_def isspace_def)
next
  case (Bare x)
  have "scan arr st x = Some (st, if sc_divided st then ([], x) else (x, []))"
    using assms(1,3) Bare
    by (intro scan_data) (auto simp: scan_step_def list_all_iff json_bare_def json_plain_def json_inner_def)
  then show ?thesis using Bare by simp
next
  case (Listed x)
  have "scan arr (st\<lparr>sc_nest := InList\<rparr>) x =
      Some (st\<lparr>sc_nest := InList\<rparr>, if sc_divided (st\<lparr>sc_nest := InList\<rparr>) then ([], x) else (x, []))"
    using assms(1) Listed
    by (intro scan_data) (auto simp: scan_step_def list_all_iff json_inner_def)
  then show ?thesis using assms(2-5) Listed by (auto simp: scan_append scan_step_def isspace_def)
qed

lemma scan_name:
  assumes "name_ok m"
  shows "scan False scan_start (name_text m) =
    Some (scan_start\<lparr>sc_divided := True\<rparr>, jvalue_chars (jm_name m), [])"
proof -
  have "scan_step False (CHR '':'') scan_start = Some (False, scan_start\<lparr>sc_divided := True\<rparr>)"
    by (simp add: scan_step_def scan_start_def)
  with assms show ?thesis
    by (simp add: name_text_def scan_append scan_value scan_spaces name_ok_def scan_start_def)
qed

lemma scan_member:
  assumes "member_ok m"
  shows "scan False scan_start (member_text m) =
    Some (scan_start\<lparr>sc_divided := True\<rparr>, jvalue_chars (jm_name m), jvalue_chars (jm_value m))"
proof -
  have m: "name_ok m" "jvalue_ok (jm_value m)" "spaces (jm_after m)" using assms by (simp_all add: member_ok_def)
  let ?st = "scan_start\<lparr>sc_divided := True\<rparr>"
  have "scan False ?st (jvalue_text (jm_value m)) = Some (?st, [], jvalue_chars (jm_value m))"
    "scan False ?st (jm_after m) = Some (?st, [], [])"
    using scan_value [OF m(2), of False ?st] scan_spaces [OF m(3), of ?st False] by (simp_all add: scan_start_def)
  then show ?thesis by (simp add: member_text_def scan_append scan_name [OF m(1)])
qed

text \<open>A nested object up to its closing brace, and a quoted value up to a comma in it.\<close>

lemma scan_nested:
  assumes "name_ok m" and "list_all json_inner x"
  shows "scan False scan_start (name_text m @ CHR ''{'' # x) =
    Some (scan_start\<lparr>sc_divided := True, sc_nest := InObject\<rparr>, jvalue_chars (jm_name m), CHR ''{'' # x)"
proof -
  have "scan False (scan_start\<lparr>sc_divided := True, sc_nest := InObject\<rparr>) x =
      Some (scan_start\<lparr>sc_divided := True, sc_nest := InObject\<rparr>, [], x)"
    using assms(2) scan_data [of x False "scan_start\<lparr>sc_divided := True, sc_nest := InObject\<rparr>"]
    by (auto simp: scan_step_def list_all_iff json_inner_def)
  then show ?thesis
    by (simp add: scan_append scan_name [OF assms(1)]) (simp add: scan_step_def scan_start_def isspace_def)
qed

lemma scan_open_quote:
  assumes "name_ok m" and "list_all (\<lambda>c. json_plain c \<and> c \<noteq> CHR 0x22) x"
  shows "scan False scan_start (name_text m @ CHR 0x22 # x) =
    Some (scan_start\<lparr>sc_divided := True, sc_dq := True\<rparr>, jvalue_chars (jm_name m), x)"
proof -
  have "scan False (scan_start\<lparr>sc_divided := True, sc_dq := True\<rparr>) x =
      Some (scan_start\<lparr>sc_divided := True, sc_dq := True\<rparr>, [], x)"
    using assms(2) scan_data [of x False "scan_start\<lparr>sc_divided := True, sc_dq := True\<rparr>"]
    by (auto simp: scan_step_def scan_start_def list_all_iff json_plain_def json_inner_def)
  then show ?thesis
    by (simp add: scan_append scan_name [OF assms(1)]) (simp add: scan_step_def scan_start_def isspace_def)
qed

lemma scan_item:
  assumes "item_ok x"
  shows "scan True scan_start (item_text x) = Some (scan_start, item_chars x, [])"
  using assms by (cases x)
    (simp add: item_text_def item_chars_def item_ok_def scan_append scan_value scan_spaces scan_start_def)

lemma jvalue_chars_no_NUL: "jvalue_ok v \<Longrightarrow> NUL \<notin> set (jvalue_chars v)"
  by (cases v) (auto simp: list_all_iff json_plain_def json_bare_def json_inner_def)

end
