(* ===== verification/Demo.thy ===== *)
theory Demo
  imports WrapperEsp8266 Lifecycle Admission JsonText
begin

text \<open>
  A concrete server for concrete runs: the buffers as the C start-up code leaves them, with one
  page registered, and a connected ESP8266 session that has received a given request.
\<close>

definition blank_page :: page where
  "blank_page = \<lparr>page_url = replicate 32 NUL, page_content = None, page_size = 0, page_type = TEXT_HTML\<rparr>"

definition index_page :: page where
  "index_page = \<lparr>page_url = ''/index.html'' @ replicate 21 NUL, page_content = Some ''Default'',
     page_size = 7, page_type = TEXT_HTML\<rparr>"

definition demo_session :: "string \<Rightarrow> wire session" where
  "demo_session x = Abs_session (0,
     \<lparr>connections = [\<lparr>cn_buffer = x, cn_length = of_nat (length x), cn_ptr = 0, cn_active = 1\<rparr>],
      espconns = [0 \<mapsto> Some 0], local_port = 80, net = (\<lambda>_. [])\<rparr>)"

definition demo_env :: "authmode \<Rightarrow> wire session env" where
  "demo_env m = session_env wire_api (\<lambda>_ _. 0) (\<lambda>cb mm a cmds ids cl il s. returns (STATUS_ACCEPTED, s))
     m False (\<lambda>_ _ _. CHR ''Z'')"

definition demo_http :: "page list \<Rightarrow> 'io \<Rightarrow> 'io http" where
  "demo_http ps x = \<lparr>http_method = METHOD_NOTSUPPORTED, version = VUNKNOWN, url = replicate 64 NUL,
     extra_c = 0, url_params = None, url_params_start = 0, url_len = 0, read_h = 0, write_h = 0,
     headersDone = False, headersSent = False, firstlineSent = False, returnCode = STATUS_RUNKNOWN,
     accept = 0, contenttype = TEXT_HTML, contentlength = 0, pages = ps @ replicate (8 - length ps) blank_page,
     defaultPage = blank_page, defaultCallback = None, ssePage = replicate 32 NUL, cblevel = 0,
     sblevel = 0, baselevel = NUL, counter = 0, authenticated = 0, io = x\<rparr>"

lemma session_of_demo:
  assumes "length x < 2 ^ 16"
  shows "session_pending h (demo_session x) = x" and "session_sent (\<lambda>a w. w a) h (demo_session x) = []"
proof -
  let ?st = "\<lparr>connections = [\<lparr>cn_buffer = x, cn_length = of_nat (length x), cn_ptr = 0, cn_active = 1\<rparr>],
      espconns = [0 \<mapsto> Some 0], local_port = 80, net = (\<lambda>_. [])\<rparr> :: wire esp"
  have u: "unat (of_nat (length x) :: 16 word) = length x"
    using assms by (simp add: unat_of_nat_small)
  then have "connected 0 ?st" by (simp add: connected_def)
  then have r: "Rep_session (demo_session x) = (0, ?st)" by (simp add: demo_session_def)
  show "session_pending h (demo_session x) = x" "session_sent (\<lambda>a w. w a) h (demo_session x) = []"
    using u by (simp_all add: session_pending_def session_sent_def r received_def)
qed

text \<open>The same with a user's check that accepts one string of credentials.\<close>

definition demo_check :: "authtype \<Rightarrow> string \<Rightarrow> int" where
  "demo_check a c = (if a = BASIC_AUTH \<and> c = ''dTpw'' then 1 else 0)"

definition keyed_env :: "authmode \<Rightarrow> wire session env" where
  "keyed_env m = session_env wire_api (\<lambda>a c. demo_check a (strz c))
     (\<lambda>cb mm a cmds ids cl il s. returns (STATUS_ACCEPTED, s)) m False (\<lambda>_ _ _. CHR ''Z'')"

lemma keyed_channel: "byte_channel (keyed_env m) session_pending (session_sent (\<lambda>a w. w a))"
  unfolding keyed_env_def by (rule wl.session_channel)

lemma keyed_env_fields [simp]:
  "authMode (keyed_env m) = m" "gzipPages (keyed_env m) = False"
  "callback (keyed_env m) cb mm acc cmds ids cl il s = returns (STATUS_ACCEPTED, s)"
  by (simp_all add: keyed_env_def session_env_def)

lemma demo_channel: "byte_channel (demo_env m) session_pending (session_sent (\<lambda>a w. w a))"
  unfolding demo_env_def by (rule wl.session_channel)

lemma demo_env_fields [simp]:
  "authMode (demo_env m) = m" "gzipPages (demo_env m) = False"
  "checkAuth (demo_env m) a c i = returns (0, i)"
  "callback (demo_env m) cb mm acc cmds ids cl il s = returns (STATUS_ACCEPTED, s)"
  by (simp_all add: demo_env_def session_env_def)

lemma demo_admitted: "x = m @ SP # tok @ SP # rest \<Longrightarrow> admitted (demo_env NO_AUTH) m tok x"
  by (simp add: admitted_open)

text \<open>Two blocks of headers, with and without the right credentials.\<close>

definition good_headers :: "header list" where
  "good_headers = [(''Host'', ''x''), (''AUTHORIZATION'', ''Basic dTpw'')]"

definition bad_headers :: "header list" where
  "bad_headers = [(''Host'', ''x''), (''AUTHORIZATION'', ''Basic dTp4'')]"

lemma keyed_check: "auth_is (keyed_env m) demo_check"
  by (simp add: auth_is_def keyed_env_def session_env_def)

lemma demo_headers:
  "\<forall>h \<in> set good_headers. header_ok h" "authorised (request_info BASIC_BUILD demo_check good_headers)"
  "\<forall>h \<in> set bad_headers. header_ok h" "\<not> authorised (request_info BASIC_BUILD demo_check bad_headers)"
  by code_simp+

lemma demo_version:
  "\<forall>c \<in> set ''HTTP/1.0''. \<not> isspace c" "NUL \<notin> set ''HTTP/1.0''" "''HTTP/1.0'' \<noteq> []" "length ''HTTP/1.0'' \<le> 8"
  by (simp_all add: isspace_def)

lemma keyed_admitted:
  "admitted (keyed_env BASIC_BUILD) m tok (request_text m tok ''HTTP/1.0'' good_headers content)"
  by (rule admitted_headers [OF demo_version demo_headers(1) keyed_check]) (simp add: demo_headers(2))

lemma demo_callback: "callback_ok (demo_env m)"
  by (simp add: callback_ok_def demo_env_def session_env_def)

lemma demo_denies: "m \<noteq> NO_AUTH \<Longrightarrow> denies (demo_env m)"
  by (auto simp: denies_def)

lemma blank_page_ok: "page_ok blank_page" "page_ok index_page"
  by (simp_all add: page_ok_def blank_page_def index_page_def)

lemma demo_server_ok:
  assumes "length ps \<le> 8" and "\<forall>p \<in> set ps. page_ok p"
  shows "server_ok (demo_http ps x)"
  using assms blank_page_ok by (auto simp: server_ok_def demo_http_def terminated_def)

lemma demo_fields [simp]:
  "io (demo_http ps x) = x" "ssePage (demo_http ps x) = replicate 32 NUL"
  "defaultCallback (demo_http ps x) = None" "defaultPage (demo_http ps x) = blank_page"
  "pages (demo_http ps x) = ps @ replicate (8 - length ps) blank_page"
  by (simp_all add: demo_http_def)

lemma strz_replicate [simp]: "strz (replicate n NUL) = []"
  by (cases n) simp_all

lemma blank_page_matches: "page_content blank_page = None" "\<not> page_matches k blank_page"
  by (simp_all add: blank_page_def page_matches_def)

lemma find_blank: "find (page_matches k) (replicate n blank_page) = None"
  by (induction n) (auto simp: blank_page_matches)

lemma page_at_updates:
  "page_at (s\<lparr>ssePage := x\<rparr>) tok = page_at s tok" "page_at (s\<lparr>defaultCallback := cb\<rparr>) tok = page_at s tok"
  by (simp_all add: page_at_def page_of_def cong: if_cong)

lemma demo_page_at:
  "page_at (demo_http [index_page] x) ''/index.html'' = Some index_page"
  "page_at (demo_http [index_page] x) ''/other'' = None"
  "page_at (demo_http [index_page] x) ''/led?a=1&b=x%26y'' = None"
  "page_at (demo_http [index_page] x) ''/led'' = None"
  "page_at (demo_http [index_page] x) ''/index.html?key=secret'' = Some index_page"
  "page_at (demo_http [index_page] x) ''/status?a=1'' = None"
  by (simp_all add: page_at_def page_of_def blank_page_matches find_blank path_part_def page_key_def)
    (simp_all add: page_matches_def index_page_def page_key_def)

lemma demo_status_lines:
  "status_line 404 = ''HTTP/1.0 404 Not Found'' @ [CR, LF]"
  "status_line 501 = ''HTTP/1.0 501 Not Implemented'' @ [CR, LF]"
  by code_simp+

lemma demo_keeps: "callback_keeps (demo_env m)"
  by (simp add: callback_keeps_def)

lemma demo_booted:
  obtains s where "booted (demo_env m) s" and "defaultCallback s = None" and "page_content (defaultPage s) = None"
proof -
  have "sized (demo_http [] (demo_session []))"
    by (simp add: sized_def demo_http_def blank_page_def)
  from Init_ok [OF this] obtain s where "attoHTTPInit (demo_env m) (demo_http [] (demo_session [])) = returns s"
    "defaultCallback s = None" "page_content (defaultPage s) = None" by (auto elim!: ensuresE)
  with \<open>sized _\<close> show ?thesis by (auto intro: that boot)
qed

definition esp_idle :: "wire esp" where
  "esp_idle = \<lparr>connections = [\<lparr>cn_buffer = [], cn_length = 0, cn_ptr = 0, cn_active = 0\<rparr>],
     espconns = Map.empty, local_port = 80, net = (\<lambda>_. [])\<rparr>"

lemma esp_idle_Init:
  obtains s0 where "esp_WrapperInit wire_api E port (demo_http [] esp_idle) = returns s0" and "io s0 = esp_idle"
proof -
  let ?s = "demo_http [] esp_idle"
  have "sized ?s" by (simp add: sized_def demo_http_def blank_page_def)
  from Init_ok [OF this] obtain t where t: "attoHTTPInit E ?s = returns t" by (auto elim!: ensuresE)
  have "io t = esp_idle" using Init_io [OF t] by (simp add: demo_http_def)
  then have "esp_WrapperInit wire_api E port ?s = returns (t\<lparr>io := esp_idle\<rparr>)"
    unfolding esp_WrapperInit_def t
    by (simp add: Let_def attoHTTPClearServerBuffer_def esp_idle_def wire_api_def)
  then show thesis by (rule that) simp
qed

text \<open>The text of a member in one line.\<close>

definition demo_member :: "string \<Rightarrow> jvalue \<Rightarrow> string \<Rightarrow> string \<Rightarrow> jvalue \<Rightarrow> string \<Rightarrow> jmember" where
  "demo_member a n b c v d =
     \<lparr>jm_before = a, jm_name = n, jm_mid = b, jm_gap = c, jm_value = v, jm_after = d\<rparr>"

end
