(* ===== verification/SocketApi.thy ===== *)
theory SocketApi
  imports Lifecycle Admission
begin

text \<open>
  What the socket wrappers (\<^verbatim>\<open>src/src/wrapper_unix_sockets.h\<close>, \<^verbatim>\<open>src/src/wrapper_win32_sockets.h\<close>)
  use of the operating system: the functions as a record of parameters over the state \<open>'n\<close> of the
  system, and the laws a connected stream socket obeys. The read loop that both wrappers have
  is treated once.
\<close>

section \<open>The functions of the system\<close>

datatype errno = EINTR | EAGAIN | ErrOther nat

text \<open>
  \<open>sk_select A sock active timeout n\<close> waits for the one socket that is in the set if \<open>active\<close>; \<open>None\<close>
  is no timeout. Its result is the return value, \<open>errno\<close>, whether the socket is in the set
  afterwards, and the timeout that \<^verbatim>\<open>select\<close> leaves in the caller's structure. \<open>sk_recv\<close> reads one
  byte, \<open>sk_send\<close> sends one. \<open>sk_time\<close> is the clock in seconds; \<open>sk_startup\<close> and \<open>sk_cleanup\<close> are
  \<^verbatim>\<open>WSAStartup\<close> and \<^verbatim>\<open>WSACleanup\<close>.
\<close>

record 'n sockapi =
  sk_socket :: "'n \<Rightarrow> int \<times> 'n"
  sk_bind :: "int \<Rightarrow> 16 word \<Rightarrow> 'n \<Rightarrow> int \<times> 'n"
  sk_listen :: "int \<Rightarrow> 'n \<Rightarrow> int \<times> 'n"
  sk_select :: "int \<Rightarrow> bool \<Rightarrow> int option \<Rightarrow> 'n \<Rightarrow> int \<times> errno \<times> bool \<times> int option \<times> 'n"
  sk_accept :: "int \<Rightarrow> 'n \<Rightarrow> int \<times> 'n"
  sk_recv :: "int \<Rightarrow> 'n \<Rightarrow> int \<times> char option \<times> 'n"
  sk_send :: "int \<Rightarrow> char \<Rightarrow> 'n \<Rightarrow> int \<times> errno \<times> 'n"
  sk_close :: "int \<Rightarrow> 'n \<Rightarrow> 'n"
  sk_time :: "'n \<Rightarrow> int"
  sk_sleep :: "'n \<Rightarrow> 'n"
  sk_startup :: "'n \<Rightarrow> int \<times> 'n"
  sk_cleanup :: "'n \<Rightarrow> 'n"

section \<open>A connected socket\<close>

text \<open>
  The documented behaviour: a call may be interrupted by a signal, finitely often (\<open>intr\<close> counts how
  often from now on, before the next call that gets through); then \<^verbatim>\<open>select\<close> reports the socket as
  readable when there is data or the peer has closed the connection, or 0 when the time is over,
  \<^verbatim>\<open>recv\<close> delivers the bytes of the peer in order and then 0, and \<^verbatim>\<open>send\<close> sends the byte.
\<close>

locale stream_socket =
  fixes A :: "'n sockapi"
    and arriving :: "int \<Rightarrow> 'n \<Rightarrow> string"
    and transmitted :: "int \<Rightarrow> 'n \<Rightarrow> string"
    and intr :: "'n \<Rightarrow> nat"
  assumes select_intr: "0 < intr n \<Longrightarrow> \<exists>t' n'. sk_select A k True (Some t) n = (-1, EINTR, True, Some t', n') \<and>
      arriving k n' = arriving k n \<and> transmitted k n' = transmitted k n \<and> intr n' < intr n"
    and select_ready: "intr n = 0 \<Longrightarrow> arriving k n \<noteq> [] \<Longrightarrow> \<exists>e t' n'. sk_select A k True (Some t) n = (1, e, True, t', n') \<and>
      arriving k n' = arriving k n \<and> transmitted k n' = transmitted k n"
    and select_idle: "intr n = 0 \<Longrightarrow> arriving k n = [] \<Longrightarrow> \<exists>r e t' n'. sk_select A k True (Some t) n = (r, e, r = 1, t', n') \<and>
      (r = 0 \<or> r = 1) \<and> arriving k n' = [] \<and> transmitted k n' = transmitted k n"
    and recv_data: "arriving k n = c # cs \<Longrightarrow> \<exists>n'. sk_recv A k n = (1, Some c, n') \<and>
      arriving k n' = cs \<and> transmitted k n' = transmitted k n"
    and recv_end: "arriving k n = [] \<Longrightarrow> \<exists>b n'. sk_recv A k n = (0, b, n') \<and>
      arriving k n' = [] \<and> transmitted k n' = transmitted k n"
    and send_intr: "0 < intr n \<Longrightarrow> \<exists>e n'. sk_send A k c n = (-1, e, n') \<and> (e = EINTR \<or> e = EAGAIN) \<and>
      arriving k n' = arriving k n \<and> transmitted k n' = transmitted k n \<and> intr n' < intr n"
    and send_done: "intr n = 0 \<Longrightarrow> \<exists>e n'. sk_send A k c n = (1, e, n') \<and>
      arriving k n' = arriving k n \<and> transmitted k n' = transmitted k n @ [c]"

text \<open>
  During a request the transport state of the server is that of the system: both arguments of
  \<^verbatim>\<open>attoHTTPExecute\<close> point to the variable \<^verbatim>\<open>newSock\<close> of \<^verbatim>\<open>attoHTTPWrapperMain\<close>, which nothing assigns
  meanwhile, so its value \<open>k\<close> is a parameter of the environment. A socket that is not positive
  delivers nothing.
\<close>

definition conn_pending :: "(int \<Rightarrow> 'n \<Rightarrow> string) \<Rightarrow> int \<Rightarrow> handle \<Rightarrow> 'n \<Rightarrow> string" where
  "conn_pending arr k h n = (if k > 0 then arr k n else [])"

definition conn_sent :: "(int \<Rightarrow> 'n \<Rightarrow> string) \<Rightarrow> int \<Rightarrow> handle \<Rightarrow> 'n \<Rightarrow> string" where
  "conn_sent out k h n = out k n"

definition conn_env ::
    "('n \<Rightarrow> (int \<times> char option \<times> 'n) run) \<Rightarrow> (char \<Rightarrow> 'n \<Rightarrow> (int \<times> 'n) run) \<Rightarrow> 'n env \<Rightarrow> 'n env" where
  "conn_env get put U = U\<lparr>getByte := (\<lambda>_. get), setByte := (\<lambda>_. put)\<rparr>"

lemma conn_env_fields [simp]:
  "getByte (conn_env get put U) h = get" "setByte (conn_env get put U) h = put"
  "checkAuth (conn_env get put U) = checkAuth U" "callback (conn_env get put U) = callback U"
  "authMode (conn_env get put U) = authMode U" "gzipPages (conn_env get put U) = gzipPages U"
  by (simp_all add: conn_env_def)

section \<open>The loop of attoHTTPGetByte\<close>

text \<open>
  The body of \<^verbatim>\<open>do ... while (ret < 0)\<close>, which is the same in both wrappers, with \<open>loop\<close> for what
  follows.
\<close>

abbreviation loop_body ::
    "'n sockapi \<Rightarrow> int \<Rightarrow> bool \<Rightarrow> int option \<Rightarrow> char option \<Rightarrow> 'n \<Rightarrow>
     (int \<Rightarrow> bool \<Rightarrow> int option \<Rightarrow> char option \<Rightarrow> 'n \<Rightarrow> (int \<times> char option \<times> 'n) run) \<Rightarrow> (int \<times> char option \<times> 'n) run" where
  "loop_body A k active t b n loop \<equiv>
     (case sk_select A k active t n of (r, e, active', t', n) \<Rightarrow>
      let ret = int16 r in
      rbind (if ret < 0 then
               (if e \<noteq> EINTR then faults ProcessExit else returns (ret, b, n))
             else if ret > 0 \<and> active' then
               (case sk_recv A k n of (r, b', n) \<Rightarrow>
                returns (int16 r, (case b' of Some _ \<Rightarrow> b' | None \<Rightarrow> b), n))
             else returns (ret, b, n)) (\<lambda>(ret, b, n).
      if ret < 0 then loop k active' t' b n else returns (ret, b, n)))"

lemma loop_body_mono:
  assumes body: "loop_body A k a t b n L = Some y"
    and le: "\<And>a t b n. L k a t b n = Some y \<Longrightarrow> M k a t b n = Some y"
  shows "loop_body A k a t b n M = Some y"
proof -
  obtain r e a' t' n1 where s: "sk_select A k a t n = (r, e, a', t', n1)" by (metis prod.exhaust)
  show ?thesis
    using body unfolding s Let_def prod.case by (rule rbind_Some_mono) (auto split: if_splits intro: le)
qed

locale read_loop = stream_socket A arriving transmitted intr
  for A :: "'n sockapi" and arriving transmitted intr +
  fixes loop :: "int \<Rightarrow> bool \<Rightarrow> int option \<Rightarrow> char option \<Rightarrow> 'n \<Rightarrow> (int \<times> char option \<times> 'n) run"
  assumes loop_unfold: "loop k active t b n = loop_body A k active t b n loop"
begin

lemma loop_delivers:
  "arriving k n = c # cs \<Longrightarrow> \<exists>n'. loop k True (Some t) b n = returns (1, Some c, n') \<and>
     arriving k n' = cs \<and> transmitted k n' = transmitted k n"
proof (induction "intr n" arbitrary: n t rule: less_induct)
  case less
  show ?case
  proof (cases "intr n = 0")
    case True
    obtain e t' n1 where 1: "sk_select A k True (Some t) n = (1, e, True, t', n1)"
      "arriving k n1 = c # cs" "transmitted k n1 = transmitted k n"
      using select_ready [OF True, of k t] less.prems by auto
    obtain n2 where "sk_recv A k n1 = (1, Some c, n2)" "arriving k n2 = cs" "transmitted k n2 = transmitted k n1"
      using recv_data [OF 1(2)] by blast
    with 1 show ?thesis by (subst loop_unfold) simp
  next
    case False
    then obtain t' n1 where 1: "sk_select A k True (Some t) n = (-1, EINTR, True, Some t', n1)"
      "arriving k n1 = c # cs" "transmitted k n1 = transmitted k n" "intr n1 < intr n"
      using select_intr [of n k t] less.prems by auto
    from less.hyps [OF 1(4,2), of t'] 1(1,3) show ?thesis by (subst loop_unfold) simp
  qed
qed

lemma loop_ends:
  "arriving k n = [] \<Longrightarrow> \<exists>b' n'. loop k True (Some t) b n = returns (0, b', n') \<and>
     arriving k n' = [] \<and> transmitted k n' = transmitted k n"
proof (induction "intr n" arbitrary: n t rule: less_induct)
  case less
  show ?case
  proof (cases "intr n = 0")
    case True
    obtain r e t' n1 where 1: "sk_select A k True (Some t) n = (r, e, r = 1, t', n1)" "r = 0 \<or> r = 1"
      "arriving k n1 = []" "transmitted k n1 = transmitted k n"
      using select_idle [OF True less.prems, of t] by blast
    obtain b' n2 where 2: "sk_recv A k n1 = (0, b', n2)" "arriving k n2 = []" "transmitted k n2 = transmitted k n1"
      using recv_end [OF 1(3)] by blast
    from 1(2) show ?thesis
    proof
      assume "r = 0"
      with 1 show ?thesis by (subst loop_unfold) simp
    next
      assume "r = 1"
      with 1 2 show ?thesis by (subst loop_unfold) simp
    qed
  next
    case False
    then obtain t' n1 where 1: "sk_select A k True (Some t) n = (-1, EINTR, True, Some t', n1)"
      "arriving k n1 = []" "transmitted k n1 = transmitted k n" "intr n1 < intr n"
      using select_intr [of n k t] less.prems by auto
    from less.hyps [OF 1(4,2), of t'] 1(1,3) show ?thesis by (subst loop_unfold) simp
  qed
qed

end

section \<open>The channel\<close>

text \<open>\<^verbatim>\<open>attoHTTPGetByte\<close> around its loop.\<close>

definition conn_get ::
    "(int \<Rightarrow> bool \<Rightarrow> int option \<Rightarrow> char option \<Rightarrow> 'n \<Rightarrow> (int \<times> char option \<times> 'n) run) \<Rightarrow>
     int \<Rightarrow> 'n \<Rightarrow> (int \<times> char option \<times> 'n) run" where
  "conn_get loop k n =
     (if k > 0 then rbind (loop k True (Some 1) None n) (\<lambda>(ret, b, n). returns (int8 ret, b, n))
      else returns (0, None, n))"

context read_loop
begin

lemma conn_channel:
  assumes auth: "auth_quiet U"
    and put: "\<And>c n. \<exists>n'. put c n = returns (1, n') \<and> arriving k n' = arriving k n \<and>
      transmitted k n' = transmitted k n @ [c]"
  shows "byte_channel (conn_env (conn_get loop k) put U) (conn_pending arriving k) (conn_sent transmitted k)"
proof unfold_locales
  fix h :: handle and i :: 'n and c :: char and cs :: string
  let ?E = "conn_env (conn_get loop k) put U"
  show "\<exists>i'. getByte ?E h i = returns (1, Some c, i') \<and> conn_pending arriving k h i' = cs \<and>
      (\<forall>g. conn_sent transmitted k g i' = conn_sent transmitted k g i)"
    if "conn_pending arriving k h i = c # cs"
  proof -
    have k: "k > 0" "arriving k i = c # cs" using that by (auto simp: conn_pending_def split: if_splits)
    from loop_delivers [OF k(2), of 1 None] k(1) show ?thesis
      by (auto simp: conn_get_def conn_pending_def conn_sent_def)
  qed
  show "\<exists>oc i'. getByte ?E h i = returns (0, oc, i') \<and> conn_pending arriving k h i' = [] \<and>
      (\<forall>g. conn_sent transmitted k g i' = conn_sent transmitted k g i)"
    if "conn_pending arriving k h i = []"
  proof (cases "k > 0")
    case True
    then have "arriving k i = []" using that by (simp add: conn_pending_def)
    from loop_ends [OF this, of 1 None] True show ?thesis
      by (auto simp: conn_get_def conn_pending_def conn_sent_def)
  qed (simp add: conn_get_def conn_pending_def)
  show "\<exists>i'. setByte ?E h c i = returns (1, i') \<and> conn_sent transmitted k h i' = conn_sent transmitted k h i @ [c] \<and>
      (\<forall>g. conn_pending arriving k g i' = conn_pending arriving k g i)"
    using put [of c i] by (auto simp: conn_pending_def conn_sent_def)
  show "ensures (checkAuth ?E a cred i) (\<lambda>(r, i'). (\<forall>g. conn_pending arriving k g i' = conn_pending arriving k g i) \<and>
      (\<forall>g. conn_sent transmitted k g i' = conn_sent transmitted k g i))" for a cred
    using auth by (force simp: auth_quiet_def ensures_def)
qed

end

section \<open>A system for concrete runs\<close>

text \<open>
  One peer per socket with the bytes it sends, what was sent to it, the interruptions to come, the
  clock and the sockets that were closed.
\<close>

record toy =
  ty_in :: "int \<Rightarrow> string"
  ty_out :: "int \<Rightarrow> string"
  ty_intr :: nat
  ty_clock :: int
  ty_closed :: "int list"

definition toy_api :: "toy sockapi" where
  "toy_api = \<lparr>sk_socket = (\<lambda>n. (3, n)), sk_bind = (\<lambda>s p n. (if ty_clock n \<ge> 2 then 0 else -1, n)),
     sk_listen = (\<lambda>s n. (0, n)),
     sk_select = (\<lambda>s a t n. if ty_intr n > 0 then (-1, EINTR, a, t, n\<lparr>ty_intr := ty_intr n - 1\<rparr>)
        else (1, EAGAIN, True, t, n)),
     sk_accept = (\<lambda>s n. (4, n)),
     sk_recv = (\<lambda>s n. case ty_in n s of [] \<Rightarrow> (0, None, n) | c # cs \<Rightarrow> (1, Some c, n\<lparr>ty_in := (ty_in n)(s := cs)\<rparr>)),
     sk_send = (\<lambda>s c n. if ty_intr n > 0 then (-1, EAGAIN, n\<lparr>ty_intr := ty_intr n - 1\<rparr>)
        else (1, EAGAIN, n\<lparr>ty_out := (ty_out n)(s := ty_out n s @ [c])\<rparr>)),
     sk_close = (\<lambda>s n. n\<lparr>ty_closed := ty_closed n @ [s]\<rparr>), sk_time = ty_clock,
     sk_sleep = (\<lambda>n. n\<lparr>ty_clock := ty_clock n + 1\<rparr>), sk_startup = (\<lambda>n. (0, n)), sk_cleanup = (\<lambda>n. n)\<rparr>"

interpretation ty: stream_socket toy_api "\<lambda>s n. ty_in n s" "\<lambda>s n. ty_out n s" ty_intr
  by unfold_locales (simp_all add: toy_api_def)

definition toy_peer :: "string \<Rightarrow> nat \<Rightarrow> toy" where
  "toy_peer x i = \<lparr>ty_in = (\<lambda>s. if s = 4 then x else []), ty_out = (\<lambda>_. []), ty_intr = i, ty_clock = 0, ty_closed = []\<rparr>"

end
