(* ===== verification/WrapperUnix.thy ===== *)
theory WrapperUnix
  imports SocketApi
begin

text \<open>
  The unix sockets transport, \<^verbatim>\<open>src/src/wrapper_unix_sockets.h\<close>: \<^verbatim>\<open>attoHTTPGetByte\<close> and
  \<^verbatim>\<open>attoHTTPSetByte\<close>, which give the server a byte channel over a connected socket, and
  \<^verbatim>\<open>attoHTTPWrapperInit\<close>, \<^verbatim>\<open>attoHTTPWrapperMain\<close> and \<^verbatim>\<open>attoHTTPWrapperEnd\<close>.
\<close>

section \<open>Definitions\<close>

text \<open>The loop of \<^verbatim>\<open>attoHTTPGetByte\<close>; \<open>active\<close> and \<open>t\<close> are what \<^verbatim>\<open>select\<close> left in its arguments.\<close>

partial_function (option) unix_GetByte_loop ::
    "'n sockapi \<Rightarrow> int \<Rightarrow> bool \<Rightarrow> int option \<Rightarrow> char option \<Rightarrow> 'n \<Rightarrow> (int \<times> char option \<times> 'n) run" where
  [code]: "unix_GetByte_loop A sock active t b n =
     (case sk_select A sock active t n of (r, e, active', t', n) \<Rightarrow>
      let ret = int16 r in
      rbind (if ret < 0 then
               (if e \<noteq> EINTR then faults ProcessExit else returns (ret, b, n))
             else if ret > 0 \<and> active' then
               (case sk_recv A sock n of (r, b', n) \<Rightarrow>
                returns (int16 r, (case b' of Some _ \<Rightarrow> b' | None \<Rightarrow> b), n))
             else returns (ret, b, n)) (\<lambda>(ret, b, n).
      if ret < 0 then unix_GetByte_loop A sock active' t' b n else returns (ret, b, n)))"

definition unix_GetByte :: "'n sockapi \<Rightarrow> int \<Rightarrow> 'n \<Rightarrow> (int \<times> char option \<times> 'n) run" where
  "unix_GetByte A sock n =
     (if sock > 0 then
        rbind (unix_GetByte_loop A sock True (Some 1) None n) (\<lambda>(ret, b, n). returns (int8 ret, b, n))
      else returns (0, None, n))"

partial_function (option) unix_SetByte_loop ::
    "'n sockapi \<Rightarrow> int \<Rightarrow> char \<Rightarrow> 'n \<Rightarrow> (int \<times> 'n) run" where
  [code]: "unix_SetByte_loop A sock byte n =
     (case sk_send A sock byte n of (r, e, n) \<Rightarrow>
      let ret = int16 r in
      if ret < 0 \<and> e \<noteq> EINTR \<and> e \<noteq> EAGAIN then returns (ret, n)
      else if ret \<le> 0 then unix_SetByte_loop A sock byte n else returns (ret, n))"

definition unix_SetByte :: "'n sockapi \<Rightarrow> int \<Rightarrow> char \<Rightarrow> 'n \<Rightarrow> (int \<times> 'n) run" where
  "unix_SetByte A sock byte n = unix_SetByte_loop A sock byte n"

text \<open>The environment of a request in this build; \<open>U\<close> has what the user supplies.\<close>

definition unix_env :: "'n sockapi \<Rightarrow> 'n env \<Rightarrow> int \<Rightarrow> 'n env" where
  "unix_env A U newSock = conn_env (unix_GetByte A newSock) (unix_SetByte A newSock) U"

lemma unix_env_fields [simp]:
  "authMode (unix_env A U k) = authMode U" "gzipPages (unix_env A U k) = gzipPages U"
  "callback_ok (unix_env A U k) = callback_ok U" "checkAuth (unix_env A U k) = checkAuth U"
  by (simp_all add: unix_env_def callback_ok_def)

text \<open>The first component is \<^verbatim>\<open>attoHTTPUnixSock\<close>.\<close>

definition unix_WrapperEnd :: "'n sockapi \<Rightarrow> int \<Rightarrow> 'n \<Rightarrow> int \<times> 'n" where
  "unix_WrapperEnd A sock n = (-1, sk_close A sock n)"

partial_function (option) unix_bind_loop ::
    "'n sockapi \<Rightarrow> int \<Rightarrow> 16 word \<Rightarrow> int \<Rightarrow> int \<Rightarrow> 'n \<Rightarrow> (int \<times> 'n) run" where
  [code]: "unix_bind_loop A sock port t ret n =
     (if ret \<noteq> 0 \<and> t > sk_time A n - 60 then
        (case sk_bind A sock port n of (ret, n) \<Rightarrow>
         unix_bind_loop A sock port t ret (if ret \<noteq> 0 then sk_sleep A n else n))
      else returns (ret, n))"

definition unix_WrapperInit ::
    "'n sockapi \<Rightarrow> 'n env \<Rightarrow> 16 word \<Rightarrow> 'n http \<Rightarrow> (int \<times> 'n http) run" where
  "unix_WrapperInit A U port s =
     rbind (attoHTTPInit U s) (\<lambda>s.
     case sk_socket A (io s) of (sock, n) \<Rightarrow>
     if sock = -1 then faults ProcessExit else
     rbind (unix_bind_loop A sock port (int32 (sk_time A n)) (-1) n) (\<lambda>(ret, n).
     if ret = 0 then
       (case sk_listen A sock n of (r, n) \<Rightarrow>
        if r < 0 then faults ProcessExit else returns (sock, s\<lparr>io := n\<rparr>))
     else faults ProcessExit))"

text \<open>\<open>var\<close> is the address of the local variable \<^verbatim>\<open>newSock\<close>.\<close>

definition unix_WrapperMain ::
    "'n sockapi \<Rightarrow> 'n env \<Rightarrow> handle \<Rightarrow> int \<Rightarrow> 'n http \<Rightarrow> 'n http run" where
  "unix_WrapperMain A U var sock s =
     (if sock > 0 then
        (case sk_select A sock True None (io s) of (ret, e, active, _, n) \<Rightarrow>
         if ret < 0 \<and> e \<noteq> EINTR then faults ProcessExit
         else if ret > 0 \<and> active then
           (case sk_accept A sock n of (r, n) \<Rightarrow>
            let newSock = int16 r in
            if newSock < 0 then faults ProcessExit
            else rbind (attoHTTPExecute (unix_env A U newSock) var var (s\<lparr>io := n\<rparr>)) (\<lambda>(_, s).
              returns (s\<lparr>io := sk_close A newSock (io s)\<rparr>)))
         else returns (s\<lparr>io := n\<rparr>))
      else returns s)"

text \<open>The loop of the main program, which calls \<^verbatim>\<open>attoHTTPWrapperMain\<close> again and again: \<open>m\<close> rounds.\<close>

primrec unix_serve :: "'n sockapi \<Rightarrow> 'n env \<Rightarrow> handle \<Rightarrow> int \<Rightarrow> nat \<Rightarrow> 'n http \<Rightarrow> 'n http run" where
  "unix_serve A U var sock 0 s = returns s"
| "unix_serve A U var sock (Suc m) s = rbind (unix_WrapperMain A U var sock s) (unix_serve A U var sock m)"

section \<open>The byte channel\<close>

sublocale stream_socket \<subseteq> unix_read: read_loop A arriving transmitted intr "unix_GetByte_loop A"
  by unfold_locales (rule unix_GetByte_loop.simps)

context stream_socket
begin

lemma SetByte_loop_sends:
  "\<exists>n'. unix_SetByte_loop A k c n = returns (1, n') \<and>
     arriving k n' = arriving k n \<and> transmitted k n' = transmitted k n @ [c]"
proof (induction "intr n" arbitrary: n rule: less_induct)
  case less
  show ?case
  proof (cases "intr n = 0")
    case True
    obtain e n1 where "sk_send A k c n = (1, e, n1)" "arriving k n1 = arriving k n"
      "transmitted k n1 = transmitted k n @ [c]"
      using send_done [OF True] by blast
    then show ?thesis by (subst unix_SetByte_loop.simps) simp
  next
    case False
    then obtain e n1 where 1: "sk_send A k c n = (-1, e, n1)" "e = EINTR \<or> e = EAGAIN"
      "arriving k n1 = arriving k n" "transmitted k n1 = transmitted k n" "intr n1 < intr n"
      using send_intr [of n k c] by auto
    from less.hyps [OF 1(5)] 1 show ?thesis by (subst unix_SetByte_loop.simps) auto
  qed
qed

lemma unix_channel:
  assumes "auth_quiet U"
  shows "byte_channel (unix_env A U k) (conn_pending arriving k) (conn_sent transmitted k)"
proof -
  have "unix_GetByte A k = conn_get (unix_GetByte_loop A) k"
    by (rule ext) (simp add: unix_GetByte_def conn_get_def)
  then show ?thesis
    unfolding unix_env_def using unix_read.conn_channel [OF assms, of "unix_SetByte A k" k] SetByte_loop_sends
    by (simp add: unix_SetByte_def)
qed

text \<open>
  One call of \<^verbatim>\<open>attoHTTPWrapperMain\<close> with a connection waiting serves exactly that connection: the
  request is executed on it, and then it is closed.
\<close>

lemma unix_Main_serves:
  assumes sock: "sock > 0" and sel: "sk_select A sock True None (io s) = (1, e, True, t, n1)"
    and acc: "sk_accept A sock n1 = (k, n2)" "0 \<le> k" "k < 2 ^ 15"
    and ex: "attoHTTPExecute (unix_env A U k) var var (s\<lparr>io := n2\<rparr>) = returns (rc, s1)"
  shows "unix_WrapperMain A U var sock s = returns (s1\<lparr>io := sk_close A k (io s1)\<rparr>)"
proof -
  have "int16 k = k" "\<not> int16 k < 0" using acc by (simp_all add: int16_id)
  then show ?thesis using sock sel acc ex by (simp add: unix_WrapperMain_def)
qed

lemma unix_Main_page:
  assumes U: "auth_quiet U" "callback_ok U" and s: "server_ok s" and sock: "sock > 0"
    and sel: "sk_select A sock True None (io s) = (1, e, True, t, n1)"
    and acc: "sk_accept A sock n1 = (k, n2)" "0 < k" "k < 2 ^ 15"
    and input: "admitted U ''GET'' tok (arriving k n2)"
    and tok: "\<forall>c \<in> set tok. \<not> isblank c" "NUL \<notin> set tok" "tok \<noteq> []"
    and p: "page_at s tok = Some p" "page_content p = Some b"
  shows "\<exists>s' n'. unix_WrapperMain A U var sock s = returns s' \<and> server_ok s' \<and> io s' = sk_close A k n' \<and>
    transmitted k n' = transmitted k n2 @ status_line 200 @
      page_headers (page_type p) (page_size p) (gzipPages U) @ take (unat (page_size p)) b"
proof -
  let ?s = "s\<lparr>io := n2\<rparr>"
  have ok: "server_ok ?s" using s by simp
  have i: "admitted (unix_env A U k) ''GET'' tok (conn_pending arriving k var (io ?s))"
    using admitted_env [OF _ _ input, of "unix_env A U k"] acc(2) by (simp add: conn_pending_def)
  have at: "page_at ?s tok = Some p" using p(1) by (simp add: page_at_def page_of_def cong: if_cong)
  note ch = unix_channel [OF U(1), of k]
  obtain s1 where s1: "attoHTTPExecute (unix_env A U k) var var ?s = returns (STATUS_OK, s1)"
    "transmitted k (io s1) = transmitted k n2 @ status_line 200 @
      page_headers (page_type p) (page_size p) (gzipPages U) @ take (unat (page_size p)) b"
    using byte_channel.admitted_page [OF ch ok i tok at p(2), of var] by (auto simp: conn_sent_def)
  have "callback_ok (unix_env A U k)" using U(2) by simp
  then have "server_ok s1"
    using byte_channel.Execute_total [OF ch ok, of var var] s1(1) by simp
  with unix_Main_serves [OF sock sel acc(1) _ acc(3) s1(1)] acc(2) s1(2) show ?thesis by auto
qed

lemma unix_Main_total:
  assumes U: "auth_quiet U" "callback_ok U" and s: "server_ok s" and sock: "sock > 0"
    and sel: "sk_select A sock True None (io s) = (1, e, True, t, n1)"
    and acc: "sk_accept A sock n1 = (k, n2)" "0 \<le> k" "k < 2 ^ 15"
  shows "\<exists>s' n'. unix_WrapperMain A U var sock s = returns s' \<and> server_ok s' \<and> io s' = sk_close A k n'"
proof -
  have "server_ok (s\<lparr>io := n2\<rparr>)" using s by simp
  from byte_channel.Execute_total [OF unix_channel [OF U(1)] this, of k var var] U(2) obtain rc s1 where
    1: "attoHTTPExecute (unix_env A U k) var var (s\<lparr>io := n2\<rparr>) = returns (rc, s1)" "server_ok s1"
    by (auto elim!: ensuresE)
  from unix_Main_serves [OF sock sel acc 1(1)] 1(2) show ?thesis by auto
qed

end

text \<open>
  A listening socket that works: waiting for a connection may be interrupted, and a connection that
  is reported is accepted, with a descriptor of 16 bits.
\<close>

locale listening = stream_socket +
  fixes sock :: int
  assumes listen_pos: "sock > 0"
    and listen_select: "\<exists>r e b t n'. sk_select A sock True None n = (r, e, b, t, n') \<and> (0 \<le> r \<or> e = EINTR)"
    and listen_accept: "\<exists>k n'. sk_accept A sock n = (k, n') \<and> 0 \<le> k \<and> k < 2 ^ 15"
begin

lemma Main_returns:
  assumes U: "auth_quiet U" "callback_ok U" and s: "server_ok s"
  shows "\<exists>s'. unix_WrapperMain A U var sock s = returns s' \<and> server_ok s'"
proof -
  obtain r e b t n1 where 1: "sk_select A sock True None (io s) = (r, e, b, t, n1)" "0 \<le> r \<or> e = EINTR"
    using listen_select by blast
  obtain k n2 where 2: "sk_accept A sock n1 = (k, n2)" "0 \<le> k" "k < 2 ^ 15"
    using listen_accept by blast
  have k: "int16 k = k" using 2 by (simp add: int16_id)
  have "server_ok (s\<lparr>io := n2\<rparr>)" using s by simp
  from byte_channel.Execute_total [OF unix_channel [OF U(1)] this, of k var var] U(2) obtain rc s1 where
    "attoHTTPExecute (unix_env A U k) var var (s\<lparr>io := n2\<rparr>) = returns (rc, s1)" "server_ok s1"
    by (auto elim!: ensuresE)
  with 1 2 k s listen_pos show ?thesis by (auto simp: unix_WrapperMain_def Let_def)
qed

lemma serve_returns:
  assumes U: "auth_quiet U" "callback_ok U" and s: "server_ok s"
  shows "\<exists>s'. unix_serve A U var sock m s = returns s' \<and> server_ok s'"
  using s
proof (induction m arbitrary: s)
  case (Suc m)
  from Main_returns [OF U Suc.prems] obtain s1 where "unix_WrapperMain A U var sock s = returns s1" "server_ok s1"
    by blast
  with Suc.IH [OF this(2)] show ?case by simp
qed simp

end

interpretation ty: listening toy_api "\<lambda>s n. ty_in n s" "\<lambda>s n. ty_out n s" ty_intr 3
  by unfold_locales (auto simp: toy_api_def)

section \<open>Opening the port\<close>

text \<open>
  \<^verbatim>\<open>attoHTTPWrapperInit\<close> tries to bind the port for at most a minute, if the clock runs while the
  process sleeps and does not go back while it binds. \<open>retry\<close> is an attempt that failed: the call of
  \<^verbatim>\<open>bind\<close> and the second of sleep behind it. \<open>bind_outcome\<close>: after \<open>k\<close> of them the loop has either used
  up its time or the next attempt succeeds.
\<close>

definition retry :: "'n sockapi \<Rightarrow> int \<Rightarrow> 16 word \<Rightarrow> 'n \<Rightarrow> 'n" where
  "retry A sock port n = sk_sleep A (snd (sk_bind A sock port n))"

definition bind_outcome :: "'n sockapi \<Rightarrow> int \<Rightarrow> 16 word \<Rightarrow> int \<Rightarrow> 'n \<Rightarrow> nat \<Rightarrow> int \<Rightarrow> 'n \<Rightarrow> bool" where
  "bind_outcome A sock port t n k r n' \<longleftrightarrow>
     (\<forall>j < k. fst (sk_bind A sock port ((retry A sock port ^^ j) n)) \<noteq> 0) \<and>
     (let m = (retry A sock port ^^ k) n in
      if sk_time A m \<ge> t + 60 then r \<noteq> 0 else r = 0 \<and> sk_bind A sock port m = (0, n'))"

lemma bind_outcome_retry:
  assumes "bind_outcome A sock port t (retry A sock port n) k r n'" and "fst (sk_bind A sock port n) \<noteq> 0"
  shows "bind_outcome A sock port t n (Suc k) r n'"
proof -
  let ?f = "retry A sock port"
  have p: "(?f ^^ Suc j) n = (?f ^^ j) (?f n)" for j by (simp add: funpow_swap1)
  have "\<forall>j < Suc k. fst (sk_bind A sock port ((?f ^^ j) n)) \<noteq> 0"
  proof (intro allI impI)
    fix j
    assume "j < Suc k"
    then show "fst (sk_bind A sock port ((?f ^^ j) n)) \<noteq> 0"
      using assms p by (cases j) (auto simp: bind_outcome_def)
  qed
  then show ?thesis using assms(1) unfolding bind_outcome_def p by simp
qed

lemma bind_loop_ends:
  assumes sleep: "\<And>n. sk_time A n < sk_time A (sk_sleep A n)"
    and bind: "\<And>n. sk_time A n \<le> sk_time A (snd (sk_bind A sock port n))"
  shows "ret \<noteq> 0 \<Longrightarrow> \<exists>k r n'. unix_bind_loop A sock port t ret n = returns (r, n') \<and> bind_outcome A sock port t n k r n'"
proof (induction "nat (t + 60 - sk_time A n)" arbitrary: ret n rule: less_induct)
  case less
  show ?case
  proof (cases "t > sk_time A n - 60")
    case True
    obtain r n1 where b: "sk_bind A sock port n = (r, n1)" by fastforce
    show ?thesis
    proof (cases "r = 0")
      case True
      then have "unix_bind_loop A sock port t r n1 = returns (r, n1)" by (subst unix_bind_loop.simps) simp
      then have "unix_bind_loop A sock port t ret n = returns (r, n1)"
        using less.prems \<open>t > _\<close> b True by (subst unix_bind_loop.simps) simp
      moreover have "bind_outcome A sock port t n 0 r n1" using b True \<open>t > _\<close> by (simp add: bind_outcome_def)
      ultimately show ?thesis by blast
    next
      case False
      have f: "retry A sock port n = sk_sleep A n1" by (simp add: retry_def b)
      have "sk_time A n < sk_time A (sk_sleep A n1)" using bind [of n] sleep [of n1] b by simp
      then have "nat (t + 60 - sk_time A (sk_sleep A n1)) < nat (t + 60 - sk_time A n)" using True by linarith
      from less.hyps [OF this False] obtain k r' n' where
        1: "unix_bind_loop A sock port t r (sk_sleep A n1) = returns (r', n')"
        "bind_outcome A sock port t (sk_sleep A n1) k r' n'" by blast
      have "unix_bind_loop A sock port t ret n = returns (r', n')"
        using less.prems True False b 1(1) by (subst unix_bind_loop.simps) simp
      moreover have "bind_outcome A sock port t n (Suc k) r' n'"
        using bind_outcome_retry [of A sock port t n k r' n'] 1(2) f b False by simp
      ultimately show ?thesis by blast
    qed
  next
    case False
    then have "unix_bind_loop A sock port t ret n = returns (ret, n)" by (subst unix_bind_loop.simps) simp
    moreover have "bind_outcome A sock port t n 0 ret n" using False less.prems by (simp add: bind_outcome_def)
    ultimately show ?thesis by blast
  qed
qed

text \<open>The whole of \<^verbatim>\<open>attoHTTPWrapperInit\<close>: what it returns is a bound socket that listens.\<close>

lemma WrapperInit_ends:
  assumes sleep: "\<And>n. sk_time A n < sk_time A (sk_sleep A n)"
    and bind: "\<And>sock n. sk_time A n \<le> sk_time A (snd (sk_bind A sock port n))" and s: "sized s"
    and sock: "sk_socket A (io s) = (sock, n)"
  shows "sock = -1 \<and> unix_WrapperInit A U port s = faults ProcessExit \<or>
    sock \<noteq> -1 \<and> (\<exists>k. let attempt = (\<lambda>j. (retry A sock port ^^ j) n) in
      (\<forall>j < k. fst (sk_bind A sock port (attempt j)) \<noteq> 0) \<and>
      (if sk_time A (attempt k) \<ge> int32 (sk_time A n) + 60
       then unix_WrapperInit A U port s = faults ProcessExit
       else \<exists>n1 r n2. sk_bind A sock port (attempt k) = (0, n1) \<and> sk_listen A sock n1 = (r, n2) \<and>
         (if r < 0 then unix_WrapperInit A U port s = faults ProcessExit
          else \<exists>s'. unix_WrapperInit A U port s = returns (sock, s') \<and> io s' = n2 \<and> server_ok s')))"
proof (cases "sock = -1")
  case True
  obtain s1 where 1: "attoHTTPInit U s = returns s1" using Init_ok [OF s] by (auto elim!: ensuresE)
  have "io s1 = io s" by (rule Init_io [OF 1])
  with True sock show ?thesis by (simp add: unix_WrapperInit_def 1)
next
  case False
  obtain s1 where 1: "attoHTTPInit U s = returns s1" "server_ok s1" using Init_ok [OF s] by (auto elim!: ensuresE)
  have io1: "io s1 = io s" by (rule Init_io [OF 1(1)])
  let ?t = "int32 (sk_time A n)"
  have "\<exists>k r n'. unix_bind_loop A sock port ?t (-1) n = returns (r, n') \<and> bind_outcome A sock port ?t n k r n'"
    by (rule bind_loop_ends [OF sleep bind]) simp
  then obtain k r n' where 2: "unix_bind_loop A sock port ?t (-1) n = returns (r, n')"
    "bind_outcome A sock port ?t n k r n'" by blast
  obtain l n'' where 3: "sk_listen A sock n' = (l, n'')" by fastforce
  have W: "unix_WrapperInit A U port s = (if r = 0 then if l < 0 then faults ProcessExit
      else returns (sock, s1\<lparr>io := n''\<rparr>) else faults ProcessExit)"
    using False sock by (simp add: unix_WrapperInit_def 1(1) io1 2(1) 3)
  have "server_ok (s1\<lparr>io := n''\<rparr>)" using 1(2) by simp
  then show ?thesis
    using False 2(2) 3 unfolding bind_outcome_def Let_def W by (intro disjI2 conjI exI [of _ k]) auto
qed

text \<open>
  The start is kept in an \<^verbatim>\<open>int\<close>: once the clock has passed the range of that type, the minute is
  over before the first \<^verbatim>\<open>bind\<close>, and the port cannot be opened.
\<close>

lemma late_clock_bit: "2 ^ 31 \<le> (x :: int) \<Longrightarrow> x < 2 ^ 32 \<Longrightarrow> odd (x div 2 ^ 31)"
proof -
  assume "2 ^ 31 \<le> x" "x < 2 ^ 32"
  then have "x div 2 ^ 31 = 1" by (intro int_div_pos_eq [of _ _ _ "x - 2 ^ 31"]) simp_all
  then show ?thesis by simp
qed

lemma WrapperInit_late_clock:
  assumes "sized s" and "sk_socket A (io s) = (sock, n)" and "2 ^ 31 \<le> sk_time A n" and "sk_time A n < 2 ^ 32"
  shows "unix_WrapperInit A U port s = faults ProcessExit"
proof -
  obtain s1 where 1: "attoHTTPInit U s = returns s1" using Init_ok [OF assms(1)] by (auto elim!: ensuresE)
  have io1: "io s1 = io s" by (rule Init_io [OF 1])
  have "int32 (sk_time A n) < 0" 
    using late_clock_bit [OF assms(3,4)] by (simp add: int32_def signed_take_bit_negative_iff bit_iff_odd)
  then have "unix_bind_loop A sock port (int32 (sk_time A n)) (-1) n = returns (-1, n)"
    using assms(3) by (subst unix_bind_loop.simps) simp
  then show ?thesis using assms(2) by (simp add: unix_WrapperInit_def 1 io1)
qed

end
