(* ===== verification/WrapperWin32.thy ===== *)
theory WrapperWin32
  imports WrapperUnix
begin

text \<open>
  The Windows sockets transport, \<^verbatim>\<open>src/src/wrapper_win32_sockets.h\<close>. It differs from the unix one in
  \<^verbatim>\<open>attoHTTPSetByte\<close>, which sends once and does not look at the error, in the missing test of the
  listening socket in \<^verbatim>\<open>attoHTTPWrapperMain\<close> and in \<^verbatim>\<open>attoHTTPWrapperInit\<close>, which binds once.
\<close>

section \<open>Definitions\<close>

partial_function (option) win_GetByte_loop ::
    "'n sockapi \<Rightarrow> int \<Rightarrow> bool \<Rightarrow> int option \<Rightarrow> char option \<Rightarrow> 'n \<Rightarrow> (int \<times> char option \<times> 'n) run" where
  [code]: "win_GetByte_loop A sock active t b n =
     (case sk_select A sock active t n of (r, e, active', t', n) \<Rightarrow>
      let ret = int16 r in
      rbind (if ret < 0 then
               (if e \<noteq> EINTR then faults ProcessExit else returns (ret, b, n))
             else if ret > 0 \<and> active' then
               (case sk_recv A sock n of (r, b', n) \<Rightarrow>
                returns (int16 r, (case b' of Some _ \<Rightarrow> b' | None \<Rightarrow> b), n))
             else returns (ret, b, n)) (\<lambda>(ret, b, n).
      if ret < 0 then win_GetByte_loop A sock active' t' b n else returns (ret, b, n)))"

definition win_GetByte :: "'n sockapi \<Rightarrow> int \<Rightarrow> 'n \<Rightarrow> (int \<times> char option \<times> 'n) run" where
  "win_GetByte A sock n =
     (if sock > 0 then
        rbind (win_GetByte_loop A sock True (Some 1) None n) (\<lambda>(ret, b, n). returns (int8 ret, b, n))
      else returns (0, None, n))"

definition win_SetByte :: "'n sockapi \<Rightarrow> int \<Rightarrow> char \<Rightarrow> 'n \<Rightarrow> (int \<times> 'n) run" where
  "win_SetByte A sock byte n =
     (case sk_send A sock byte n of (r, _, n) \<Rightarrow> returns (uint16 r, n))"

definition win_env :: "'n sockapi \<Rightarrow> 'n env \<Rightarrow> int \<Rightarrow> 'n env" where
  "win_env A U newSock = conn_env (win_GetByte A newSock) (win_SetByte A newSock) U"

definition win_WrapperInit ::
    "'n sockapi \<Rightarrow> 'n env \<Rightarrow> 16 word \<Rightarrow> 'n http \<Rightarrow> (int \<times> 'n http) run" where
  "win_WrapperInit A U port s =
     rbind (attoHTTPInit U s) (\<lambda>s.
     case sk_startup A (io s) of (r, n) \<Rightarrow>
     if r \<noteq> 0 then faults ProcessExit else
     (case sk_socket A n of (sock, n) \<Rightarrow>
     if sock = -1 then faults ProcessExit else
     (case sk_bind A sock port n of (r, n) \<Rightarrow>
     if r \<noteq> 0 then faults ProcessExit else
     (case sk_listen A sock n of (r, n) \<Rightarrow>
     if r < 0 then faults ProcessExit else returns (sock, s\<lparr>io := n\<rparr>)))))"

definition win_WrapperMain ::
    "'n sockapi \<Rightarrow> 'n env \<Rightarrow> handle \<Rightarrow> int \<Rightarrow> 'n http \<Rightarrow> 'n http run" where
  "win_WrapperMain A U var sock s =
     (case sk_select A sock True None (io s) of (ret, e, active, _, n) \<Rightarrow>
      if ret < 0 \<and> e \<noteq> EINTR then faults ProcessExit
      else if ret > 0 \<and> active then
        (case sk_accept A sock n of (r, n) \<Rightarrow>
         let newSock = int16 r in
         if newSock < 0 then faults ProcessExit
         else rbind (attoHTTPExecute (win_env A U newSock) var var (s\<lparr>io := n\<rparr>)) (\<lambda>(_, s).
           returns (s\<lparr>io := sk_close A newSock (io s)\<rparr>)))
      else returns (s\<lparr>io := n\<rparr>))"

definition win_WrapperEnd :: "'n sockapi \<Rightarrow> int \<Rightarrow> 'n \<Rightarrow> 'n" where
  "win_WrapperEnd A sock n = sk_cleanup A (sk_close A sock n)"

section \<open>The byte channel\<close>

sublocale stream_socket \<subseteq> win_read: read_loop A arriving transmitted intr "win_GetByte_loop A"
  by unfold_locales (rule win_GetByte_loop.simps)

text \<open>A byte whose \<^verbatim>\<open>send\<close> fails is lost: the error is returned, and nobody tries again.\<close>

lemma win_SetByte_lost:
  assumes "sk_send A k c (io s) = (-1, e, n)"
  shows "attoHTTPWriteC (win_env A U k) c s = returns (-1, s\<lparr>io := n\<rparr>)"
  by (simp add: attoHTTPWriteC_def win_env_def win_SetByte_def assms)

context stream_socket
begin

lemma WriteC_interrupted:
  assumes "0 < intr (io s)"
  shows "\<exists>n n'. attoHTTPWriteC (win_env A U k) c s = returns (-1, s\<lparr>io := n\<rparr>) \<and> transmitted k n = transmitted k (io s) \<and>
    attoHTTPWriteC (unix_env A U k) c s = returns (1, s\<lparr>io := n'\<rparr>) \<and> transmitted k n' = transmitted k (io s) @ [c]"
proof -
  obtain e n where 1: "sk_send A k c (io s) = (-1, e, n)" "transmitted k n = transmitted k (io s)"
    using send_intr [OF assms] by blast
  obtain n' where 2: "unix_SetByte_loop A k c (io s) = returns (1, n')" "transmitted k n' = transmitted k (io s) @ [c]"
    using SetByte_loop_sends by blast
  have "attoHTTPWriteC (unix_env A U k) c s = returns (1, s\<lparr>io := n'\<rparr>)"
    by (simp add: attoHTTPWriteC_def unix_env_def unix_SetByte_def 2(1))
  with win_SetByte_lost [OF 1(1), of U] 1(2) 2(2) show ?thesis by blast
qed

end

text \<open>A byte channel needs a system in which no call fails.\<close>

locale steady_socket = stream_socket +
  assumes steady: "intr n = 0"
begin

lemma win_channel:
  assumes "auth_quiet U"
  shows "byte_channel (win_env A U k) (conn_pending arriving k) (conn_sent transmitted k)"
proof -
  have "win_GetByte A k = conn_get (win_GetByte_loop A) k"
    by (rule ext) (simp add: win_GetByte_def conn_get_def)
  moreover have "\<exists>n'. win_SetByte A k c n = returns (1, n') \<and> arriving k n' = arriving k n \<and>
      transmitted k n' = transmitted k n @ [c]" for c n
    using send_done [OF steady, of k c n] by (auto simp: win_SetByte_def)
  ultimately show ?thesis
    unfolding win_env_def using win_read.conn_channel [OF assms] by simp
qed

end

text \<open>
  The two loops of \<^verbatim>\<open>attoHTTPGetByte\<close> are the same; where no call fails the two transports are.
\<close>

lemma win_GetByte_loop_unix:
  "win_GetByte_loop A k a t b n = Some y \<Longrightarrow> unix_GetByte_loop A k a t b n = Some y"
proof (rule win_GetByte_loop.raw_induct [where P = "\<lambda>A k a t b n y. unix_GetByte_loop A k a t b n = Some y"])
  fix loop A k a t b n y
  assume "\<And>A k a t b n y. loop A k a t b n = Some y \<Longrightarrow> unix_GetByte_loop A k a t b n = Some y"
    and "loop_body A k a t b n (loop A) = Some y"
  then show "unix_GetByte_loop A k a t b n = Some y"
    by (subst unix_GetByte_loop.simps, elim loop_body_mono) blast
qed

lemma unix_GetByte_loop_win:
  "unix_GetByte_loop A k a t b n = Some y \<Longrightarrow> win_GetByte_loop A k a t b n = Some y"
proof (rule unix_GetByte_loop.raw_induct [where P = "\<lambda>A k a t b n y. win_GetByte_loop A k a t b n = Some y"])
  fix loop A k a t b n y
  assume "\<And>A k a t b n y. loop A k a t b n = Some y \<Longrightarrow> win_GetByte_loop A k a t b n = Some y"
    and "loop_body A k a t b n (loop A) = Some y"
  then show "win_GetByte_loop A k a t b n = Some y"
    by (subst win_GetByte_loop.simps, elim loop_body_mono) blast
qed

lemma GetByte_eq: "win_GetByte A = unix_GetByte A"
proof -
  have "win_GetByte_loop A k a t b n = unix_GetByte_loop A k a t b n" for k a t b n
    using win_GetByte_loop_unix [of A k a t b n] unix_GetByte_loop_win [of A k a t b n]
    by (cases "win_GetByte_loop A k a t b n"; cases "unix_GetByte_loop A k a t b n") auto
  then show ?thesis by (intro ext) (simp add: win_GetByte_def unix_GetByte_def)
qed

context steady_socket
begin

lemma env_eq: "win_env A U k = unix_env A U k"
proof -
  have "win_SetByte A k c n = unix_SetByte A k c n" for c n
    using send_done [OF steady, of k c n]
    by (subst unix_SetByte_def, subst unix_SetByte_loop.simps) (auto simp: win_SetByte_def)
  then have "win_SetByte A k = unix_SetByte A k" by (intro ext)
  then show ?thesis by (simp add: win_env_def unix_env_def GetByte_eq)
qed

lemma Main_eq: "sock > 0 \<Longrightarrow> win_WrapperMain A U var sock s = unix_WrapperMain A U var sock s"
  unfolding win_WrapperMain_def unix_WrapperMain_def env_eq by simp

end

definition steady_api :: "toy sockapi" where
  "steady_api = toy_api\<lparr>sk_select := (\<lambda>s a t n. (1, EAGAIN, True, t, n)),
     sk_send := (\<lambda>s c n. (1, EAGAIN, n\<lparr>ty_out := (ty_out n)(s := ty_out n s @ [c])\<rparr>))\<rparr>"

interpretation st: steady_socket steady_api "\<lambda>s n. ty_in n s" "\<lambda>s n. ty_out n s" "\<lambda>_. 0"
  by unfold_locales (simp_all add: steady_api_def toy_api_def)

end
