(* ===== verification/WrapperParticle.thy ===== *)
theory WrapperParticle
  imports Lifecycle Admission
begin

text \<open>
  The particle.io transport, \<^verbatim>\<open>src/src/wrapper_particle_io.cpp\<close>, over the \<^verbatim>\<open>TCPClient\<close> and \<^verbatim>\<open>TCPServer\<close>
  classes of the platform, whose operations are parameters. It is a byte channel while the client
  stays connected. When the client goes away it returns -1, which the server does not expect: a
  request that is cut off in its URL is never finished.
\<close>

unbundle bit_operations_syntax

section \<open>Definitions\<close>

text \<open>
  The state \<open>'n\<close> is that of the platform with the client of the request. \<open>pc_accept\<close> is
  \<^verbatim>\<open>w_server->available()\<close> with the test of the client it gives.
\<close>

record 'n particle =
  pc_server :: "16 word \<Rightarrow> 'n \<Rightarrow> 'n"
  pc_begin :: "'n \<Rightarrow> 'n"
  pc_delete :: "'n \<Rightarrow> 'n"
  pc_accept :: "'n \<Rightarrow> bool \<times> 'n"
  pc_connected :: "'n \<Rightarrow> bool \<times> 'n"
  pc_available :: "'n \<Rightarrow> int \<times> 'n"
  pc_read :: "'n \<Rightarrow> int \<times> 'n"
  pc_write :: "char \<Rightarrow> 'n \<Rightarrow> int \<times> 'n"
  pc_flush :: "'n \<Rightarrow> 'n"
  pc_stop :: "'n \<Rightarrow> 'n"
  pc_millis :: "'n \<Rightarrow> 32 word \<times> 'n"

definition particle_WrapperInit ::
    "'n particle \<Rightarrow> 'n env \<Rightarrow> 16 word \<Rightarrow> 'n http \<Rightarrow> 'n http run" where
  "particle_WrapperInit A E port s =
     rbind (attoHTTPInit E s) (\<lambda>s.
     returns (s\<lparr>io := pc_begin A (pc_server A port (io s))\<rparr>))"

definition particle_WrapperMain ::
    "'n particle \<Rightarrow> 'n env \<Rightarrow> handle \<Rightarrow> 'n http \<Rightarrow> 'n http run" where
  "particle_WrapperMain A E client s =
     (case pc_accept A (io s) of (b, n) \<Rightarrow>
      let s = s\<lparr>io := n\<rparr> in
      rbind (if b then
               rbind (attoHTTPExecute E client client s) (\<lambda>(_, s).
               returns (s\<lparr>io := pc_flush A (io s)\<rparr>))
             else returns s) (\<lambda>s.
      returns (s\<lparr>io := pc_stop A (io s)\<rparr>)))"

definition particle_WrapperEnd :: "'n particle \<Rightarrow> 'n \<Rightarrow> 'n" where
  "particle_WrapperEnd A n = pc_delete A n"

definition particle_poll :: "'n particle \<Rightarrow> char option \<Rightarrow> 'n \<Rightarrow> int \<times> char option \<times> 'n" where
  "particle_poll A b n =
     (case pc_available A n of (a, n) \<Rightarrow>
      if a > 0 then
        (case pc_read A n of (c, n) \<Rightarrow>
         if c \<ge> 0 then (1, Some (char_of (c AND 255)), n) else (0, b, n))
      else (0, b, n))"

partial_function (option) particle_GetByte_loop ::
    "'n particle \<Rightarrow> 32 word \<Rightarrow> char option \<Rightarrow> 'n \<Rightarrow> (int \<times> char option \<times> 'n) run" where
  [code]: "particle_GetByte_loop A timeout b n =
     (case particle_poll A b n of (ret, b, n) \<Rightarrow>
      if ret = 0 then
        (case pc_millis A n of (m, n) \<Rightarrow>
         if timeout > m then particle_GetByte_loop A timeout b n else returns (ret, b, n))
      else returns (ret, b, n))"

definition particle_GetByte :: "'n particle \<Rightarrow> 'n \<Rightarrow> (int \<times> char option \<times> 'n) run" where
  "particle_GetByte A n =
     (case pc_millis A n of (m, n) \<Rightarrow>
      let timeout = m + 1000 in
      case pc_connected A n of (b, n) \<Rightarrow>
      if b then particle_GetByte_loop A timeout None n else returns (-1, None, n))"

definition particle_SetByte :: "'n particle \<Rightarrow> char \<Rightarrow> 'n \<Rightarrow> (int \<times> 'n) run" where
  "particle_SetByte A byte n = (case pc_write A byte n of (r, n) \<Rightarrow> returns (uint16 r, n))"

definition particle_env :: "'n particle \<Rightarrow> 'n env \<Rightarrow> 'n env" where
  "particle_env A U = U\<lparr>getByte := (\<lambda>_. particle_GetByte A), setByte := (\<lambda>_. particle_SetByte A)\<rparr>"

lemma particle_env_fields [simp]:
  "authMode (particle_env A U) = authMode U" "gzipPages (particle_env A U) = gzipPages U"
  "callback_ok (particle_env A U) = callback_ok U" "checkAuth (particle_env A U) = checkAuth U"
  by (simp_all add: particle_env_def callback_ok_def)

section \<open>The client\<close>

text \<open>
  The documented behaviour of a client: \<^verbatim>\<open>available\<close> counts the bytes that arrived, \<^verbatim>\<open>read\<close> takes the
  next, \<^verbatim>\<open>write\<close> sends a byte, and the clock changes nothing.
\<close>

locale tcp_stream =
  fixes A :: "'n particle"
    and arriving :: "'n \<Rightarrow> string"
    and transmitted :: "'n \<Rightarrow> string"
  assumes available: "\<exists>k n'. pc_available A n = (k, n') \<and> (k > 0 \<longleftrightarrow> arriving n \<noteq> []) \<and>
      arriving n' = arriving n \<and> transmitted n' = transmitted n"
    and read_byte: "arriving n = c # cs \<Longrightarrow> \<exists>n'. pc_read A n = (of_char c, n') \<and>
      arriving n' = cs \<and> transmitted n' = transmitted n"
    and millis: "\<exists>m n'. pc_millis A n = (m, n') \<and> arriving n' = arriving n \<and> transmitted n' = transmitted n"
    and write_byte: "\<exists>n'. pc_write A c n = (1, n') \<and> arriving n' = arriving n \<and> transmitted n' = transmitted n @ [c]"
begin

lemma poll_data:
  assumes "arriving n = c # cs"
  shows "\<exists>n'. particle_poll A b n = (1, Some c, n') \<and> arriving n' = cs \<and> transmitted n' = transmitted n"
proof -
  obtain k n1 where 1: "pc_available A n = (k, n1)" "k > 0" "arriving n1 = c # cs" "transmitted n1 = transmitted n"
    using available [of n] assms by auto
  obtain n2 where 2: "pc_read A n1 = (of_char c, n2)" "arriving n2 = cs" "transmitted n2 = transmitted n1"
    using read_byte [OF 1(3)] by blast
  have "(of_char c :: int) AND 255 = take_bit 8 (of_char c)"
    by (simp add: take_bit_eq_mask mask_eq_exp_minus_1)
  also have "\<dots> = of_char c"
    by (rule take_bit_int_eq_self) simp_all
  finally have "(of_char c :: int) AND 255 = of_char c" .
  with 1 2 show ?thesis by (simp add: particle_poll_def)
qed

lemma poll_none:
  assumes "arriving n = []"
  shows "\<exists>n'. particle_poll A b n = (0, b, n') \<and> arriving n' = [] \<and> transmitted n' = transmitted n"
  using available [of n] assms by (auto simp: particle_poll_def)

lemma GetByte_data:
  assumes "arriving n = c # cs" and "\<And>n. arriving n \<noteq> [] \<Longrightarrow> \<exists>n'. pc_connected A n = (True, n') \<and>
      arriving n' = arriving n \<and> transmitted n' = transmitted n"
  shows "\<exists>n'. particle_GetByte A n = returns (1, Some c, n') \<and> arriving n' = cs \<and> transmitted n' = transmitted n"
proof -
  obtain m n1 where 1: "pc_millis A n = (m, n1)" "arriving n1 = c # cs" "transmitted n1 = transmitted n"
    using millis [of n] assms(1) by auto
  obtain n2 where 2: "pc_connected A n1 = (True, n2)" "arriving n2 = c # cs" "transmitted n2 = transmitted n1"
    using assms(2) [of n1] 1(2) by auto
  obtain n3 where "particle_poll A None n2 = (1, Some c, n3)" "arriving n3 = cs" "transmitted n3 = transmitted n2"
    using poll_data [OF 2(2)] by blast
  with 1 2 show ?thesis
    by (simp add: particle_GetByte_def) (subst particle_GetByte_loop.simps, simp)
qed

end

text \<open>
  A client that stays connected. Polling does not stop the clock: while nothing arrives, the time
  of every deadline comes.
\<close>

definition poll_clock :: "'n particle \<Rightarrow> 'n \<Rightarrow> 'n" where
  "poll_clock A n = snd (pc_millis A (snd (pc_available A n)))"

locale tcp_client = tcp_stream +
  assumes connected: "\<exists>n'. pc_connected A n = (True, n') \<and> arriving n' = arriving n \<and> transmitted n' = transmitted n"
    and deadline: "\<exists>k. \<not> timeout > fst (pc_millis A (snd (pc_available A ((poll_clock A ^^ k) n))))"
begin

lemma GetByte_loop_ends:
  "arriving n = [] \<Longrightarrow> \<not> timeout > fst (pc_millis A (snd (pc_available A ((poll_clock A ^^ k) n)))) \<Longrightarrow>
   \<exists>n'. particle_GetByte_loop A timeout b n = returns (0, b, n') \<and> arriving n' = [] \<and> transmitted n' = transmitted n"
proof (induction k arbitrary: n)
  case (0 n)
  obtain a n1 where 1: "pc_available A n = (a, n1)" "\<not> a > 0" "arriving n1 = []" "transmitted n1 = transmitted n"
    using available [of n] 0(1) by auto
  obtain m n2 where 2: "pc_millis A n1 = (m, n2)" "arriving n2 = []" "transmitted n2 = transmitted n1"
    using millis [of n1] 1(3) by auto
  from 0 1 2 show ?case by (subst particle_GetByte_loop.simps) (simp add: particle_poll_def)
next
  case (Suc k n)
  obtain a n1 where 1: "pc_available A n = (a, n1)" "\<not> a > 0" "arriving n1 = []" "transmitted n1 = transmitted n"
    using available [of n] Suc(2) by auto
  obtain m n2 where 2: "pc_millis A n1 = (m, n2)" "arriving n2 = []" "transmitted n2 = transmitted n1"
    using millis [of n1] 1(3) by auto
  have "poll_clock A n = n2" using 1(1) 2(1) by (simp add: poll_clock_def)
  then have "(poll_clock A ^^ Suc k) n = (poll_clock A ^^ k) n2" by (simp add: funpow_swap1)
  with Suc.IH [OF 2(2)] Suc(3) obtain n' where
    "particle_GetByte_loop A timeout b n2 = returns (0, b, n')" "arriving n' = []" "transmitted n' = transmitted n2"
    by auto
  with 1 2 show ?case by (subst particle_GetByte_loop.simps) (simp add: particle_poll_def)
qed

lemma particle_channel:
  assumes "\<And>a cred i. \<exists>r. checkAuth U a cred i = returns (r, i)"
  shows "byte_channel (particle_env A U) (\<lambda>_. arriving) (\<lambda>_. transmitted)"
proof unfold_locales
  fix h :: handle and i :: "'a" and c :: char and cs :: string
  show "\<exists>i'. getByte (particle_env A U) h i = returns (1, Some c, i') \<and> arriving i' = cs \<and>
      (\<forall>g. transmitted i' = transmitted i)"
    if "arriving i = c # cs"
    using GetByte_data [OF that] connected by (simp add: particle_env_def)
  show "\<exists>oc i'. getByte (particle_env A U) h i = returns (0, oc, i') \<and> arriving i' = [] \<and>
      (\<forall>g. transmitted i' = transmitted i)"
    if "arriving i = []"
  proof -
    obtain m n1 where 1: "pc_millis A i = (m, n1)" "arriving n1 = []" "transmitted n1 = transmitted i"
      using millis [of i] \<open>arriving i = []\<close> by auto
    obtain n2 where 2: "pc_connected A n1 = (True, n2)" "arriving n2 = []" "transmitted n2 = transmitted n1"
      using connected [of n1] 1(2) by auto
    obtain k where "\<not> m + 1000 > fst (pc_millis A (snd (pc_available A ((poll_clock A ^^ k) n2))))"
      using deadline by blast
    from GetByte_loop_ends [OF 2(2) this, of None] 1 2 show ?thesis
      by (auto simp: particle_env_def particle_GetByte_def)
  qed
  show "\<exists>i'. setByte (particle_env A U) h c i = returns (1, i') \<and> transmitted i' = transmitted i @ [c] \<and>
      (\<forall>g. arriving i' = arriving i)"
    using write_byte [of c i] by (auto simp: particle_env_def particle_SetByte_def)
  show "ensures (checkAuth (particle_env A U) a cred i) (\<lambda>(r, i'). (\<forall>g. arriving i' = arriving i) \<and>
      (\<forall>g. transmitted i' = transmitted i))" for a cred
    using assms [of a cred i] by (auto simp: particle_env_def)
qed

text \<open>One call of \<^verbatim>\<open>attoHTTPWrapperMain\<close> with a client that asks for a page.\<close>

lemma particle_Main_page:
  assumes U: "auth_quiet U" "callback_ok U" and s: "server_ok s"
    and acc: "pc_accept A (io s) = (True, n1)"
    and input: "admitted U ''GET'' tok (arriving n1)"
    and tok: "\<forall>c \<in> set tok. \<not> isblank c" "NUL \<notin> set tok" "tok \<noteq> []"
    and p: "page_at s tok = Some p" "page_content p = Some b"
  shows "\<exists>s' n'. particle_WrapperMain A (particle_env A U) client s = returns s' \<and> server_ok s' \<and>
    io s' = pc_stop A (pc_flush A n') \<and>
    transmitted n' = transmitted n1 @ status_line 200 @
      page_headers (page_type p) (page_size p) (gzipPages U) @ take (unat (page_size p)) b"
proof -
  let ?s = "s\<lparr>io := n1\<rparr>" and ?E = "particle_env A U"
  have ok: "server_ok ?s" using s by simp
  have f: "callback_ok ?E" using U by simp
  have at: "page_at ?s tok = Some p" using p(1) by (simp add: page_at_def page_of_def cong: if_cong)
  have i: "admitted ?E ''GET'' tok (arriving (io ?s))"
    using admitted_env [OF _ _ input, of ?E] by simp
  have ch: "byte_channel ?E (\<lambda>_. arriving) (\<lambda>_. transmitted)"
    using U(1) by (intro particle_channel) (simp add: auth_quiet_def)
  obtain s1 where s1: "attoHTTPExecute ?E client client ?s = returns (STATUS_OK, s1)"
    "transmitted (io s1) = transmitted n1 @ status_line 200 @
      page_headers (page_type p) (page_size p) (gzipPages U) @ take (unat (page_size p)) b"
    using byte_channel.admitted_page [OF ch ok i tok at p(2), of client] by auto
  have "server_ok s1" using byte_channel.Execute_total [OF ch ok f, of client client] s1(1) by simp
  with s1 acc show ?thesis by (simp add: particle_WrapperMain_def) blast
qed

end

end
