(* ===== verification/Disconnect.thy ===== *)
theory Disconnect
  imports WrapperParticle
begin

text \<open>
  A transport that returns -1 when the peer has gone, as the comment on \<^verbatim>\<open>attoHTTPGetByte\<close> in the
  wrappers allows (\<^verbatim>\<open>src/src/wrapper_particle_io.cpp\<close> does it). The loops of
  \<^verbatim>\<open>_attoHTTPParseURL\<close> in \<^verbatim>\<open>src/src/attohttp.c\<close> test the return value for being zero, so a request
  that is cut off in its URL keeps the server in them for ever.
\<close>

definition no_blank :: "string \<Rightarrow> bool" where
  "no_blank x \<longleftrightarrow> (\<forall>c \<in> set x. \<not> isblank c)"

locale dropping_source =
  fixes E :: "'io env"
    and pending :: "handle \<Rightarrow> 'io \<Rightarrow> string"
  assumes drop_Cons: "pending h i = c # cs \<Longrightarrow> \<exists>i'. getByte E h i = returns (1, Some c, i') \<and> pending h i' = cs"
    and drop_Nil: "pending h i = [] \<Longrightarrow> \<exists>i'. getByte E h i = returns (-1, None, i') \<and> pending h i' = []"
begin

abbreviation dinp :: "'io http \<Rightarrow> string" where "dinp \<equiv> input_of pending"

lemma ReadC_data:
  assumes "dinp s = c # cs"
  obtains s' where "\<And>c0. attoHTTPReadC E c0 s = returns (1, c, s')" and "io_frame s s'"
    and "dinp s' = cs" and "extra_c s' \<le> 0"
proof (cases "extra_c s > 0")
  case True
  with assms show ?thesis
    by (intro that [of "s\<lparr>extra_c := -1\<rparr>"]) (simp_all add: attoHTTPReadC_def input_of_def)
next
  case False
  with assms have "pending (read_h s) (io s) = c # cs" by (simp add: input_of_def)
  from drop_Cons [OF this] obtain i' where
    "getByte E (read_h s) (io s) = returns (1, Some c, i')" "pending (read_h s) i' = cs" by blast
  with False show ?thesis
    by (intro that [of "s\<lparr>io := i'\<rparr>"]) (simp_all add: attoHTTPReadC_def input_of_def)
qed

lemma ReadC_dropped:
  assumes "dinp s = []"
  obtains s' where "\<And>c0. attoHTTPReadC E c0 s = returns (-1, c0, s')" and "io_frame s s'"
    and "dinp s' = []"
proof -
  from assms have e: "extra_c s \<le> 0" "pending (read_h s) (io s) = []"
    by (auto simp: input_of_def split: if_splits)
  from drop_Nil [OF e(2)] obtain i' where
    "getByte E (read_h s) (io s) = returns (-1, None, i')" "pending (read_h s) i' = []" by blast
  with e show ?thesis
    by (intro that [of "s\<lparr>io := i'\<rparr>"]) (simp_all add: attoHTTPReadC_def input_of_def)
qed

text \<open>One read while no blank is left: it does not return 0 and does not find a blank.\<close>

lemma ReadC_no_blank:
  assumes "no_blank (dinp s)" and "\<not> isblank c0"
  obtains r c s' where "attoHTTPReadC E c0 s = returns (r, c, s')" and "r \<noteq> 0" and "\<not> isblank c"
    and "no_blank (dinp s')" and "io_frame s s'"
proof (cases "dinp s")
  case Nil
  then show ?thesis
    by (rule ReadC_dropped) (rule that [of "-1" c0], auto simp: assms no_blank_def)
next
  case (Cons c cs)
  then show ?thesis
    by (rule ReadC_data) (rule that [of 1 c], use assms Cons in \<open>auto simp: no_blank_def\<close>)
qed

text \<open>The loop that skips the rest of a long URL never ends.\<close>

lemma skip_diverges:
  assumes "ret \<noteq> 0" and "\<not> isblank c" and "no_blank (dinp s)"
  shows "attoHTTPParseURL_skip E ret c s = None"
proof -
  have "E' = E \<longrightarrow> ret \<noteq> 0 \<longrightarrow> \<not> isblank c \<longrightarrow> no_blank (dinp s) \<longrightarrow> False"
    if "attoHTTPParseURL_skip E' ret c s = Some y" for E' ret c s y
  proof (rule attoHTTPParseURL_skip.raw_induct [OF _ that], intro impI)
    fix skip E' ret c s y
    assume IH: "\<And>E' ret c s y. skip E' ret c s = Some y \<Longrightarrow>
        E' = E \<longrightarrow> ret \<noteq> 0 \<longrightarrow> \<not> isblank c \<longrightarrow> no_blank (dinp s) \<longrightarrow> False"
      and body: "(if ret \<noteq> 0 \<and> \<not> isblank c then rbind (attoHTTPReadC E' c s) (\<lambda>(ret, c, s). skip E' ret c s)
        else returns (ret, c, s)) = Some y"
      and E: "E' = E" "ret \<noteq> 0" "\<not> isblank c" "no_blank (dinp s)"
    obtain r c' s' where "attoHTTPReadC E c s = returns (r, c', s')" "r \<noteq> 0" "\<not> isblank c'" "no_blank (dinp s')"
      by (rule ReadC_no_blank [OF E(4,3)])
    with body E IH [of E r c' s' y] show False by simp
  qed
  then show ?thesis using assms by (cases "attoHTTPParseURL_skip E ret c s") auto
qed

text \<open>The loop that fills the URL buffer stops at the end of the buffer only.\<close>

lemma URL_loop_fills:
  "url_len s < 63 \<Longrightarrow> length (url s) = 64 \<Longrightarrow> no_blank (url s) \<Longrightarrow> no_blank (dinp s) \<Longrightarrow>
   \<exists>r s'. attoHTTPParseURL_loop E s = returns (r, s') \<and> r \<noteq> 0 \<and> url_len s' = 63 \<and>
     length (url s') = 64 \<and> no_blank (url s') \<and> no_blank (dinp s')"
proof (induction "63 - url_len s" arbitrary: s rule: less_induct)
  case less
  have nb: "\<not> isblank (url s ! url_len s)" using less.prems(1-3) by (simp add: no_blank_def)
  obtain r c s1 where 1: "attoHTTPReadC E (url s ! url_len s) s = returns (r, c, s1)" "r \<noteq> 0" "\<not> isblank c"
    "no_blank (dinp s1)" "io_frame s s1"
    by (rule ReadC_no_blank [OF less.prems(4) nb])
  have f: "url s1 = url s" "url_len s1 = url_len s" using io_frame_fields [OF 1(5)] by simp_all
  let ?u = "url_put c s1"
  have "set (url ?u) \<subseteq> insert (if c = CHR ''?'' then NUL else c) (set (url s))"
    by (simp add: f set_update_subset_insert)
  then have u: "no_blank (url ?u)" using 1(3) less.prems(3) by (auto simp: no_blank_def split: if_splits)
  have unf: "attoHTTPParseURL_loop E s =
      (if url_len s + 1 < 63 then attoHTTPParseURL_loop E ?u else returns (r, ?u))"
    using 1 less.prems by (subst ParseURL_loop_unfold) (simp_all add: f)
  show ?case
  proof (cases "url_len s + 1 < 63")
    case True
    have "\<exists>r s'. attoHTTPParseURL_loop E ?u = returns (r, s') \<and> r \<noteq> 0 \<and> url_len s' = 63 \<and>
        length (url s') = 64 \<and> no_blank (url s') \<and> no_blank (dinp s')"
      by (rule less.hyps) (use True u 1(4) less.prems in \<open>simp_all add: f del: url_put_fields(3)\<close>)
    with True show ?thesis by (simp add: unf)
  next
    case False
    then have "url_len ?u = 63" using less.prems(1) by (simp add: f)
    with False u 1 less.prems(2) show ?thesis
      by (intro exI [of _ r] exI [of _ ?u]) (simp add: unf f del: url_put_fields(3))
  qed
qed

text \<open>Skipping blanks when there is none.\<close>

lemma ParseSpace_token:
  assumes "dinp s = c # cs" and "\<not> isblank c" and "c \<noteq> NUL"
  obtains s' where "attoHTTPParseSpace E s = returns (1, s')" and "io_frame s s'" and "dinp s' = c # cs"
proof -
  obtain s1 where 1: "\<And>c0. attoHTTPReadC E c0 s = returns (1, c, s1)" "io_frame s s1" "dinp s1 = cs" "extra_c s1 \<le> 0"
    by (rule ReadC_data [OF assms(1)]) (rule that)
  have "attoHTTPParseSpace E s = returns (1, attoHTTPPushC c s1)"
    unfolding attoHTTPParseSpace_def by (subst attoHTTPParseSpace_loop.simps) (simp add: 1(1) assms(2))
  moreover have "dinp (attoHTTPPushC c s1) = c # cs" using input_of_pushC [OF 1(4)] 1(3) assms(3) by simp
  ultimately show ?thesis using that 1(2) by (blast intro: io_frame_trans io_frame_pushC)
qed

lemma ParseURL_diverges:
  assumes inp: "dinp s = tok" and tok: "tok \<noteq> []" "no_blank tok" "NUL \<notin> set tok"
    and u: "length (url s) = 64" "no_blank (url s)"
  shows "attoHTTPParseURL E s = None"
proof -
  obtain c cs where t: "tok = c # cs" using tok(1) by (cases tok) auto
  then have c: "\<not> isblank c" "c \<noteq> NUL" using tok(2,3) by (auto simp: no_blank_def)
  obtain s1 where 1: "attoHTTPParseSpace E s = returns (1, s1)" "io_frame s s1" "dinp s1 = tok"
    using ParseSpace_token [of s c cs] inp t c by metis
  let ?s = "s1\<lparr>url_len := 0\<rparr>"
  have "url ?s = url s" using io_frame_fields [OF 1(2)] by simp
  then obtain r s2 where 2: "attoHTTPParseURL_loop E ?s = returns (r, s2)" "r \<noteq> 0" "url_len s2 = 63"
    "length (url s2) = 64" "no_blank (url s2)" "no_blank (dinp s2)"
    using URL_loop_fills [of ?s] u 1(3) tok(2) by auto
  have "\<not> isblank (url s2 ! 63)" using 2(4,5) by (simp add: no_blank_def)
  from skip_diverges [OF 2(2) this 2(6)] show ?thesis
    by (simp add: attoHTTPParseURL_def 1(1) 2(1,3,4))
qed

lemma readInto_data:
  assumes "dinp s = c # cs" and "i < length buf"
  obtains s' where "readInto E buf i s = returns (1, buf[i := c], s')" and "io_frame s s'" and "dinp s' = cs"
  using assms by (auto elim!: ReadC_data simp: readInto_def)

lemma ParseMethod_GET:
  assumes "dinp s = ''GET '' @ tok"
  obtains s' where "attoHTTPParseMethod E s = returns (1, s'\<lparr>http_method := METHOD_GET\<rparr>)" and "io_frame s s'"
    and "dinp s' = tok"
proof -
  obtain s0 where 0: "attoHTTPParseSpace E s = returns (1, s0)" "io_frame s s0" "dinp s0 = ''GET '' @ tok"
    by (rule ParseSpace_token [of s "CHR ''G''" "''ET '' @ tok"]) (simp_all add: assms isblank_def)
  let ?b = "uninit E ParseMethod_buffer 10 s0"
  let ?b1 = "?b[0 := CHR ''G'']" let ?b2 = "?b1[1 := CHR ''E'']" let ?b3 = "?b2[2 := CHR ''T'']" let ?b4 = "?b3[3 := SP]"
  have l: "length ?b = 10" by simp
  obtain s1 where 1: "readInto E ?b 0 s0 = returns (1, ?b1, s1)" "io_frame s0 s1" "dinp s1 = ''ET '' @ tok"
    by (rule readInto_data [of s0 "CHR ''G''" "''ET '' @ tok" 0 ?b]) (simp_all add: 0(3))
  obtain s2 where 2: "readInto E ?b1 1 s1 = returns (1, ?b2, s2)" "io_frame s1 s2" "dinp s2 = ''T '' @ tok"
    by (rule readInto_data [of s1 "CHR ''E''" "''T '' @ tok" 1 ?b1]) (simp_all add: 1(3))
  obtain s3 where 3: "readInto E ?b2 2 s2 = returns (1, ?b3, s3)" "io_frame s2 s3" "dinp s3 = SP # tok"
    by (rule readInto_data [of s2 "CHR ''T''" "SP # tok" 2 ?b2]) (simp_all add: 2(3))
  obtain s4 where 4: "readInto E ?b3 3 s3 = returns (1, ?b4, s4)" "io_frame s3 s4" "dinp s4 = tok"
    by (rule readInto_data [of s3 SP tok 3 ?b3]) (simp_all add: 3(3))
  have nb: "\<not> isblank (CHR ''G'')" "\<not> isblank (CHR ''E'')" "\<not> isblank (CHR ''T'')" by (simp_all add: isblank_def)
  have "attoHTTPParseMethod_loop E ?b3 3 s3 = returns (1, ?b4, 3, s4)"
    by (subst attoHTTPParseMethod_loop.simps) (simp only: 4(1) rbind_simps prod.case, simp add: l)
  then have "attoHTTPParseMethod_loop E ?b2 2 s2 = returns (1, ?b4, 3, s4)"
    by (subst attoHTTPParseMethod_loop.simps) (simp only: 3(1) rbind_simps prod.case, simp add: l nb)
  then have "attoHTTPParseMethod_loop E ?b1 1 s1 = returns (1, ?b4, 3, s4)"
    by (subst attoHTTPParseMethod_loop.simps) (simp only: 2(1) rbind_simps prod.case, simp add: l nb numeral_2_eq_2)
  then have loop: "attoHTTPParseMethod_loop E ?b 0 s0 = returns (1, ?b4, 3, s4)"
    by (subst attoHTTPParseMethod_loop.simps) (simp only: 1(1) rbind_simps prod.case, simp add: l nb)
  obtain x where x: "?b4[3 := NUL] = ''GET'' @ NUL # x"
    using l by (cases ?b; simp) (rename_tac a r, case_tac r; simp; rename_tac a' r', case_tac r'; simp;
        rename_tac a'' r'', case_tac r''; simp)
  have b: "terminated (?b4[3 := NUL])" "strz (?b4[3 := NUL]) = ''GET''" unfolding x by simp_all
  have "length (?b4[3 := NUL]) = 10" by (simp add: l)
  from method_of_buffer_spec [OF b(1) this] have "method_of_buffer (?b4[3 := NUL]) = returns (Some METHOD_GET)"
    unfolding b(2) by (simp add: method_of_token_def)
  then have "attoHTTPParseMethod E s = returns (1, s4\<lparr>http_method := METHOD_GET\<rparr>)"
    using l by (simp add: attoHTTPParseMethod_def 0(1) loop)
  moreover have "io_frame s s4" using 0(2) 1(2) 2(2) 3(2) 4(2) by (blast intro: io_frame_trans)
  ultimately show ?thesis using that 4(3) by blast
qed

text \<open>A GET request that is cut off in its URL.\<close>

lemma Execute_cut_off:
  assumes inp: "pending rd (io s) = ''GET '' @ tok" and tok: "tok \<noteq> []" "no_blank tok" "NUL \<notin> set tok"
    and u: "length (url s) = 64" "no_blank (url s)"
  shows "attoHTTPExecute E rd wr s = None"
proof -
  let ?i = "attoHTTPInitRun E (s\<lparr>read_h := rd, write_h := wr\<rparr>)"
  have i: "dinp ?i = ''GET '' @ tok" "url ?i = url s" "returnCode ?i = STATUS_RUNKNOWN"
    using inp by (simp_all add: input_of_def attoHTTPInitRun_def)
  obtain s1 where 1: "attoHTTPParseMethod E ?i = returns (1, s1\<lparr>http_method := METHOD_GET\<rparr>)" "io_frame ?i s1" "dinp s1 = tok"
    by (rule ParseMethod_GET [OF i(1)])
  let ?s = "s1\<lparr>http_method := METHOD_GET\<rparr>"
  have "url ?s = url s" "returnCode ?s = STATUS_RUNKNOWN" "dinp ?s = tok"
    using io_frame_fields [OF 1(2)] i 1(3) by simp_all
  then have "attoHTTPParseURL E ?s = None" by (intro ParseURL_diverges [OF _ tok]) (simp_all add: u)
  with \<open>returnCode ?s = STATUS_RUNKNOWN\<close> show ?thesis
    unfolding Execute_phases 1(1) by (simp add: parsed_def)
qed

end

text \<open>A particle.io client that goes away when its bytes are used up.\<close>

locale tcp_dropped = tcp_stream +
  assumes connected_while: "\<exists>n'. pc_connected A n = (arriving n \<noteq> [], n') \<and>
    arriving n' = arriving n \<and> transmitted n' = transmitted n"

sublocale tcp_dropped \<subseteq> dropped: dropping_source "particle_env A U" "\<lambda>_. arriving" for U
proof
  fix h :: handle and i :: 'a and c cs
  show "\<exists>i'. getByte (particle_env A U) h i = returns (1, Some c, i') \<and> arriving i' = cs" if "arriving i = c # cs"
    using GetByte_data [OF that] connected_while by (force simp: particle_env_def)
  show "\<exists>i'. getByte (particle_env A U) h i = returns (-1, None, i') \<and> arriving i' = []" if e: "arriving i = []"
  proof -
    obtain m n1 where 1: "pc_millis A i = (m, n1)" "arriving n1 = []" using millis [of i] e by auto
    obtain n2 where "pc_connected A n1 = (False, n2)" "arriving n2 = []" using connected_while [of n1] 1(2) by auto
    with 1 show ?thesis by (simp add: particle_env_def particle_GetByte_def)
  qed
qed

context tcp_dropped
begin

lemma Main_cut_off:
  assumes acc: "pc_accept A (io s) = (True, n1)" and inp: "arriving n1 = ''GET '' @ tok"
    and tok: "tok \<noteq> []" "no_blank tok" "NUL \<notin> set tok" and u: "length (url s) = 64" "no_blank (url s)"
  shows "particle_WrapperMain A (particle_env A U) client s = None"
proof -
  have "attoHTTPExecute (particle_env A U) client client (s\<lparr>io := n1\<rparr>) = None"
    by (rule dropped.Execute_cut_off [OF _ tok]) (simp_all add: inp u)
  with acc show ?thesis by (simp add: particle_WrapperMain_def)
qed

end

section \<open>Clients for concrete runs\<close>

record client =
  cl_in :: string
  cl_out :: string
  cl_clock :: nat

definition client_api :: "bool \<Rightarrow> client particle" where
  "client_api stays = \<lparr>pc_server = (\<lambda>p n. n), pc_begin = (\<lambda>n. n), pc_delete = (\<lambda>n. n), pc_accept = (\<lambda>n. (True, n)),
     pc_connected = (\<lambda>n. (stays \<or> cl_in n \<noteq> [], n)), pc_available = (\<lambda>n. (int (length (cl_in n)), n)),
     pc_read = (\<lambda>n. case cl_in n of [] \<Rightarrow> (-1, n) | c # cs \<Rightarrow> (of_char c, n\<lparr>cl_in := cs\<rparr>)),
     pc_write = (\<lambda>c n. (1, n\<lparr>cl_out := cl_out n @ [c]\<rparr>)), pc_flush = (\<lambda>n. n), pc_stop = (\<lambda>n. n),
     pc_millis = (\<lambda>n. (of_nat (cl_clock n), n\<lparr>cl_clock := Suc (cl_clock n)\<rparr>))\<rparr>"

lemma client_clock: "cl_clock ((poll_clock (client_api b) ^^ k) n) = cl_clock n + k"
  by (induction k) (simp_all add: poll_clock_def client_api_def)

interpretation stays: tcp_client "client_api True" cl_in cl_out
proof
  fix timeout :: "32 word" and n :: client
  let ?k = "2 ^ 32 - 1 + 2 ^ 32 * (cl_clock n + 1) - cl_clock n"
  have "cl_clock n + ?k = 2 ^ 32 - 1 + 2 ^ 32 * (cl_clock n + 1)" by simp
  then have "(of_nat (cl_clock n + ?k) :: 32 word) = of_nat (2 ^ 32 - 1 + 2 ^ 32 * (cl_clock n + 1))" by (simp only:)
  also have "\<dots> = - 1"
  proof -
    have "(of_nat (2 ^ 32 * k) :: 32 word) = 0" for k by (subst word_of_nat_eq_0_iff) simp
    then show ?thesis by (simp only: of_nat_add) simp
  qed
  finally obtain k where k: "(of_nat (cl_clock n + k) :: 32 word) = - 1" by blast
  have clock: "fst (pc_millis (client_api True) (snd (pc_available (client_api True) s))) = of_nat (cl_clock s)" for s
    by (simp add: client_api_def)
  have "\<not> timeout > (- 1 :: 32 word)" by (simp add: not_less)
  then show "\<exists>k. \<not> timeout > fst (pc_millis (client_api True) (snd (pc_available (client_api True)
      ((poll_clock (client_api True) ^^ k) n))))"
    unfolding clock client_clock k [symmetric] by blast
qed (auto simp: client_api_def split: list.split)

interpretation drops: tcp_dropped "client_api False" cl_in cl_out
  by unfold_locales (auto simp: client_api_def split: list.split)

end
