(* ===== verification/DemoTransports.thy ===== *)
theory DemoTransports
  imports Demo WrapperWin32 Disconnect
begin

text \<open>
  A user of the socket and particle.io transports for concrete runs: the server of \<^verbatim>\<open>Demo\<close> with one
  page, on a system with one peer, or with one client.
\<close>

definition user_env :: "'io env" where
  "user_env = \<lparr>getByte = (\<lambda>_ n. returns (0, None, n)), setByte = (\<lambda>_ _ n. returns (0, n)),
     checkAuth = (\<lambda>_ _ n. returns (0, n)), callback = (\<lambda>_ _ _ _ _ _ _ s. returns (STATUS_ACCEPTED, s)),
     authMode = NO_AUTH, gzipPages = False, junk = (\<lambda>_ _ _. CHR ''Z'')\<rparr>"

lemma user_env_facts [simp]:
  "authMode user_env = NO_AUTH" "gzipPages user_env = False" "auth_quiet user_env" "callback_ok user_env"
  by (simp_all add: user_env_def auth_quiet_def callback_ok_def)

definition page_request :: string where
  "page_request = ''GET /index.html HTTP/1.0'' @ HTTPEOL @ HTTPEOL"

lemma page_request_shape:
  "admitted user_env ''GET'' ''/index.html'' page_request"
  "\<forall>c \<in> set ''/index.html''. \<not> isblank c" "NUL \<notin> set ''/index.html''" "''/index.html'' \<noteq> []"
proof -
  have "page_request = ''GET'' @ SP # ''/index.html'' @ SP # ''HTTP/1.0'' @ HTTPEOL @ HTTPEOL"
    by (simp add: page_request_def)
  then show "admitted user_env ''GET'' ''/index.html'' page_request"
    by (metis admitted_open user_env_facts(1))
qed (simp_all add: isblank_def)

definition page_answer :: string where
  "page_answer = status_line 200 @ page_headers TEXT_HTML 7 False @ ''Default''"

definition waiting_client :: "string \<Rightarrow> client" where
  "waiting_client x = \<lparr>cl_in = x, cl_out = [], cl_clock = 0\<rparr>"

lemma demo_site:
  "server_ok (demo_http [index_page] n)" "page_at (demo_http [index_page] n) ''/index.html'' = Some index_page"
  "page_content index_page = Some ''Default''"
  "status_line 200 @ page_headers (page_type index_page) (page_size index_page) (gzipPages user_env) @
    take (unat (page_size index_page)) ''Default'' = page_answer"
  by (rule demo_server_ok) (simp_all add: blank_page_ok demo_page_at, simp_all add: index_page_def page_answer_def)

end
