(* ===== verification/Params.thy ===== *)
theory Params
  imports JsonParams
begin

text \<open>
  The parameters as a REST callback reads them, by calling \<^verbatim>\<open>attoHTTPParseParam\<close> of
  \<^verbatim>\<open>src/src/attohttp.c\<close> until it returns 0: the list of parameters that comes out of a URL and of a
  form in the body.
\<close>

section \<open>A client\<close>

text \<open>
  At most \<open>k\<close> calls, with the same two buffers; each parameter is read as two C strings.
\<close>

fun read_params ::
    "'io env \<Rightarrow> nat \<Rightarrow> string \<Rightarrow> 8 word \<Rightarrow> string \<Rightarrow> 8 word \<Rightarrow> 'io http \<Rightarrow>
     ((string \<times> string) list \<times> 'io http) run" where
  "read_params E 0 name nl val vl s = returns ([], s)"
| "read_params E (Suc k) name nl val vl s =
     rbind (attoHTTPParseParam E name nl val vl s) (\<lambda>(found, name, val, s).
     if found then
       rbind (read_params E k name nl val vl s) (\<lambda>(ps, s).
       returns ((strz name, strz val) # ps, s))
     else returns ([], s))"

text \<open>\<open>k\<close> calls whatever they return, as a client that ignores the result makes them.\<close>

fun call_params ::
    "'io env \<Rightarrow> nat \<Rightarrow> string \<Rightarrow> 8 word \<Rightarrow> string \<Rightarrow> 8 word \<Rightarrow> 'io http \<Rightarrow> (string \<times> string \<times> 'io http) run" where
  "call_params E 0 name nl val vl s = returns (name, val, s)"
| "call_params E (Suc k) name nl val vl s =
     rbind (attoHTTPParseParam E name nl val vl s) (\<lambda>(_, name, val, s). call_params E k name nl val vl s)"

lemma read_params_found:
  assumes "attoHTTPParseParam E name nl val vl s = returns (True, splice name' 0 (x @ [NUL]), splice val' 0 (y @ [NUL]), s')"
    and "NUL \<notin> set x" and "NUL \<notin> set y"
  shows "read_params E (Suc k) name nl val vl s =
    rbind (read_params E k (splice name' 0 (x @ [NUL])) nl (splice val' 0 (y @ [NUL])) vl s') (\<lambda>(ps, s).
    returns ((x, y) # ps, s))"
proof -
  have "strz (splice b 0 (z @ [NUL])) = z" if "NUL \<notin> set z" for b z :: string
    using that by (simp add: splice_def)
  with assms show ?thesis by simp
qed

text \<open>Parameters that fit: the terminators need one more byte.\<close>

definition param_ok :: "nat \<Rightarrow> nat \<Rightarrow> string \<times> string \<Rightarrow> bool" where
  "param_ok nl vl p \<longleftrightarrow> fst p \<noteq> [] \<and> NUL \<notin> set (fst p) \<and> NUL \<notin> set (snd p) \<and>
     length (fst p) < nl \<and> length (snd p) < vl"

definition param_text :: "string \<times> string \<Rightarrow> string" where
  "param_text p = url_encode (fst p) @ CHR ''='' # url_encode (snd p)"

definition separated_text :: "((string \<times> string) \<times> char) list \<Rightarrow> string" where
  "separated_text ps = concat (map (\<lambda>(p, e). param_text p @ [e]) ps)"

section \<open>URL encoding\<close>

text \<open>A request whose method and content type lead \<^verbatim>\<open>attoHTTPParseParam\<close> to \<^verbatim>\<open>attoHTTPParseURLParam\<close>.\<close>

locale url_reader = param_source E ok chars for E :: "'io env" and ok and chars +
  assumes uses_url: "ok n s \<Longrightarrow> attoHTTPParseParam E name nl val vl s =
    rbind (store name 0 NUL) (\<lambda>name. rbind (store val 0 NUL) (\<lambda>val. attoHTTPParseURLParam E name nl val vl s))"
begin

lemma read_separated:
  "\<forall>(p, e) \<in> set ps. param_ok (unat nl) (unat vl) p \<and> (e = NUL \<or> e = CHR ''&'' \<or> isspace e) \<Longrightarrow>
   unat nl \<le> length name \<Longrightarrow> unat vl \<le> length val \<Longrightarrow>
   ok (length (separated_text ps) + n) s \<Longrightarrow> chars s = separated_text ps @ cs \<Longrightarrow>
   \<exists>name' val' s'. read_params E (length ps + k) name nl val vl s =
       rbind (read_params E k name' nl val' vl s') (\<lambda>(qs, s). returns (map fst ps @ qs, s)) \<and>
     length name' = length name \<and> length val' = length val \<and> ok n s' \<and> chars s' = cs"
proof (induction ps arbitrary: name val s)
  case Nil
  have "rbind r (\<lambda>(qs, s). returns (map fst [] @ qs, s)) = r" for r :: "((string \<times> string) list \<times> 'io http) run"
    by (cases r rule: run_cases) auto
  with Nil show ?case
    by (intro exI [of _ name] exI [of _ val] exI [of _ s]) (simp add: separated_text_def)
next
  case (Cons pe ps)
  obtain x y e where pe: "pe = ((x, y), e)" by (metis surj_pair)
  have x: "x \<noteq> []" "length x \<le> unat nl" "length x < length (name[0 := NUL])"
    and y: "length y < unat vl" "unat vl \<le> length (val[0 := NUL])"
    and z: "NUL \<notin> set x" "NUL \<notin> set y" and e: "e = NUL \<or> e = CHR ''&'' \<or> isspace e"
    using Cons.prems(1-3) by (auto simp: pe param_ok_def)
  have o: "ok (length (url_encode x @ CHR ''='' # url_encode y) + Suc (length (separated_text ps) + n)) s"
    using Cons.prems(4) by (simp add: pe separated_text_def param_text_def add_ac)
  have c: "chars s = url_encode x @ CHR ''='' # url_encode y @ e # (separated_text ps @ cs)"
    using Cons.prems(5) by (simp add: pe separated_text_def param_text_def)
  let ?n = "splice (name[0 := NUL]) 0 (x @ [NUL])" and ?v = "splice (val[0 := NUL]) 0 (y @ [NUL])"
  from param_separated [OF x y o c e] obtain s1 where
    1: "attoHTTPParseURLParam E (name[0 := NUL]) nl (val[0 := NUL]) vl s = returns (True, ?n, ?v, s1)"
    "ok (length (separated_text ps) + n) s1" "chars s1 = separated_text ps @ cs" by blast
  have "name \<noteq> []" "val \<noteq> []" using x(3) y by auto
  then have pp: "attoHTTPParseParam E name nl val vl s = returns (True, ?n, ?v, s1)"
    using 1(1) by (simp add: uses_url [OF Cons.prems(4)])
  have l: "length ?n = length name" "length ?v = length val" using x(3) y by simp_all
  have "\<exists>name' val' s'. read_params E (length ps + k) ?n nl ?v vl s1 =
       rbind (read_params E k name' nl val' vl s') (\<lambda>(qs, s). returns (map fst ps @ qs, s)) \<and>
     length name' = length ?n \<and> length val' = length ?v \<and> ok n s' \<and> chars s' = cs"
    by (rule Cons.IH [OF _ _ _ 1(2,3)]) (use Cons.prems(1-3) l in auto)
  then obtain name' val' s' where r: "read_params E (length ps + k) ?n nl ?v vl s1 =
      rbind (read_params E k name' nl val' vl s') (\<lambda>(qs, s). returns (map fst ps @ qs, s))"
    "length name' = length name" "length val' = length val" "ok n s'" "chars s' = cs" using l by auto
  have "read_params E (length (pe # ps) + k) name nl val vl s =
      rbind (read_params E k name' nl val' vl s') (\<lambda>(qs, s). returns (map fst (pe # ps) @ qs, s))"
    using read_params_found [OF pp z, of "length ps + k"] r(1)
    by (simp add: rbind_assoc pe case_prod_unfold)
  with r show ?case by blast
qed

lemma read_none:
  assumes "chars s = [] \<or> (\<exists>cs. chars s = NUL # cs)" and "ok (Suc n) s" and "0 < nl" and "name \<noteq> []" and "val \<noteq> []"
  shows "\<exists>s'. read_params E (Suc k) name nl val vl s = returns ([], s')"
proof -
  from param_none [OF assms(1,2,3), of "name[0 := NUL]" "val[0 := NUL]" vl] assms(4,5) obtain s' where
    "attoHTTPParseURLParam E (name[0 := NUL]) nl (val[0 := NUL]) vl s = returns (False, name[0 := NUL], val[0 := NUL], s')"
    by auto
  then show ?thesis using assms(4,5) by (simp add: uses_url [OF assms(2)])
qed

text \<open>All parameters of a text, which ends or is terminated after the last separator.\<close>

lemma read_all:
  assumes ps: "\<forall>(p, e) \<in> set ps. param_ok (unat nl) (unat vl) p \<and> (e = NUL \<or> e = CHR ''&'' \<or> isspace e)"
    and len: "unat nl \<le> length name" "unat vl \<le> length val" "0 < nl" "0 < vl"
    and ok: "ok (length (separated_text ps) + 1) s" and c: "chars s = separated_text ps @ cs"
    and cs: "cs = [] \<or> hd cs = NUL" and k: "length ps < k"
  shows "\<exists>s'. read_params E k name nl val vl s = returns (map fst ps, s')"
proof -
  obtain j where j: "k = length ps + Suc j" using k less_imp_Suc_add by fastforce
  from ok have ok': "ok (length (separated_text ps) + Suc 0) s" by simp
  from read_separated [OF ps len(1,2) ok' c, of "Suc j"] obtain name' val' s1 where
    1: "read_params E k name nl val vl s =
       rbind (read_params E (Suc j) name' nl val' vl s1) (\<lambda>(qs, s). returns (map fst ps @ qs, s))"
    "length name' = length name" "length val' = length val" "ok (Suc 0) s1" "chars s1 = cs"
    unfolding j by blast
  have "0 < unat nl" "0 < unat vl" using len by (simp_all add: word_less_nat_alt)
  then have "name' \<noteq> []" "val' \<noteq> []" using 1(2,3) len by auto
  moreover have "chars s1 = [] \<or> (\<exists>t. chars s1 = NUL # t)" using cs 1(5) by (cases cs) auto
  ultimately obtain s' where "read_params E (Suc j) name' nl val' vl s1 = returns ([], s')"
    using read_none [OF _ 1(4) len(3)] by blast
  with 1(1) show ?thesis by simp
qed

text \<open>The last parameter may be ended by the end of the text.\<close>

lemma read_unterminated:
  assumes p: "param_ok (unat nl) (unat vl) (x, y)" and len: "unat nl \<le> length name" "unat vl \<le> length val" "0 < nl"
    and ok: "ok (length (param_text (x, y)) + 2) s" and c: "chars s = param_text (x, y)"
  shows "\<exists>s'. read_params E (Suc (Suc k)) name nl val vl s = returns ([(x, y)], s')"
proof -
  have x: "x \<noteq> []" "length x \<le> unat nl" "length x < length (name[0 := NUL])"
    and y: "length y < unat vl" "unat vl \<le> length (val[0 := NUL])" and z: "NUL \<notin> set x" "NUL \<notin> set y"
    using p len by (auto simp: param_ok_def)
  have o: "ok (length (url_encode x @ CHR ''='' # url_encode y) + Suc 1) s" using ok by (simp add: param_text_def)
  have c': "chars s = url_encode x @ CHR ''='' # url_encode y" using c by (simp add: param_text_def)
  let ?n = "splice (name[0 := NUL]) 0 (x @ [NUL])" and ?v = "splice (val[0 := NUL]) 0 (y @ [NUL])"
  from param_last [OF x y o c'] obtain s1 where
    1: "attoHTTPParseURLParam E (name[0 := NUL]) nl (val[0 := NUL]) vl s = returns (True, ?n, ?v, s1)"
    "ok 1 s1" "chars s1 = []" by blast
  have "name \<noteq> []" "val \<noteq> []" using x(3) y by auto
  then have pp: "attoHTTPParseParam E name nl val vl s = returns (True, ?n, ?v, s1)"
    using 1(1) by (simp add: uses_url [OF ok])
  have "length ?n = length name" "length ?v = length val" using x(3) y by simp_all
  then have "?n \<noteq> []" "?v \<noteq> []" using \<open>name \<noteq> []\<close> \<open>val \<noteq> []\<close> by auto
  moreover have "ok (Suc 0) s1" "chars s1 = [] \<or> (\<exists>t. chars s1 = NUL # t)" using 1 by simp_all
  ultimately obtain s' where "read_params E (Suc k) ?n nl ?v vl s1 = returns ([], s')"
    using read_none [OF _ _ len(3)] by blast
  then have "read_params E (Suc (Suc k)) name nl val vl s = returns ([(x, y)], s')"
    using read_params_found [OF pp z, of "Suc k"] by simp
  then show ?thesis by blast
qed

lemma read_form:
  assumes ps: "\<forall>p \<in> set ps. param_ok (unat nl) (unat vl) p"
    and len: "unat nl \<le> length name" "unat vl \<le> length val" "0 < nl"
    and sep: "ps = qs @ [p]" "separated_text (map (\<lambda>p. (p, CHR ''&'')) qs) @ param_text p = f"
    and ok: "ok (length f + 2) s" and c: "chars s = f" and k: "length ps < k"
  shows "\<exists>s'. read_params E k name nl val vl s = returns (ps, s')"
proof -
  let ?q = "map (\<lambda>p. (p, CHR ''&'')) qs"
  have "length ?q + 2 \<le> k" using k sep(1) by simp
  then obtain j where "k = length ?q + 2 + j" unfolding le_iff_add by blast
  then have j: "k = length ?q + Suc (Suc j)" by simp
  have o: "ok (length (separated_text ?q) + (length (param_text p) + 2)) s"
    using ok by (simp add: sep(2) [symmetric] add_ac)
  have c': "chars s = separated_text ?q @ param_text p" using c sep(2) by simp
  have q: "\<forall>(p, e) \<in> set ?q. param_ok (unat nl) (unat vl) p \<and> (e = NUL \<or> e = CHR ''&'' \<or> isspace e)"
    using ps sep(1) by auto
  from read_separated [OF q len(1,2) o c', of "Suc (Suc j)"] obtain name' val' s1 where
    1: "read_params E k name nl val vl s =
       rbind (read_params E (Suc (Suc j)) name' nl val' vl s1) (\<lambda>(rs, s). returns (map fst ?q @ rs, s))"
    "length name' = length name" "length val' = length val" "ok (length (param_text p) + 2) s1"
    "chars s1 = param_text p" unfolding j by blast
  obtain x y where p: "p = (x, y)" by fastforce
  have "param_ok (unat nl) (unat vl) (x, y)" using ps sep(1) p by simp
  from read_unterminated [OF this _ _ len(3), of name' val' s1 j] 1 len p obtain s' where
    "read_params E (Suc (Suc j)) name' nl val' vl s1 = returns ([p], s')" by auto
  with 1(1) show ?thesis by (simp add: sep(1) comp_def)
qed

end

interpretation get_params: url_reader E get_ok get_chars for E :: "'io env"
  by unfold_locales (simp add: attoHTTPParseParam_def get_ok_def)

sublocale byte_source \<subseteq> form_params: url_reader E form_ok "body_chars pending"
  by unfold_locales (auto simp: attoHTTPParseParam_def form_ok_def)

text \<open>A form in the body: the parameters joined by ampersands.\<close>

fun form_text :: "(string \<times> string) list \<Rightarrow> string" where
  "form_text [] = []"
| "form_text [p] = param_text p"
| "form_text (p # ps) = param_text p @ CHR ''&'' # form_text ps"

lemma form_text_separated:
  "ps \<noteq> [] \<Longrightarrow> form_text ps @ [e] = separated_text (map (\<lambda>p. (p, CHR ''&'')) (butlast ps) @ [(last ps, e)])"
  by (induction ps rule: form_text.induct) (simp_all add: separated_text_def)

lemma form_text_last:
  "form_text (qs @ [p]) = separated_text (map (\<lambda>p. (p, CHR ''&'')) qs) @ param_text p"
proof (induction qs)
  case (Cons q qs)
  have "form_text (q # qs @ [p]) = param_text q @ CHR ''&'' # form_text (qs @ [p])"
    by (cases "qs @ [p]") auto
  with Cons show ?case by (simp add: separated_text_def)
qed (simp add: separated_text_def)

text \<open>The characters of a form.\<close>

definition query_char :: "char \<Rightarrow> bool" where
  "query_char c \<longleftrightarrow> c \<noteq> NUL \<and> c \<noteq> CHR ''?'' \<and> \<not> isspace c"

lemma query_char_simps [simp]: "query_char (CHR ''='')" "query_char (CHR ''&'')" "query_char (CHR ''%'')"
  by (simp_all add: query_char_def isspace_def)

lemma query_char_hex: "k < 16 \<Longrightarrow> query_char (hex_char k)"
  using hex_char_facts [of k]
  by (auto simp: query_char_def hex_digit_def)

lemma query_char_escape: "\<forall>c \<in> set (url_escape a). query_char c"
proof (cases "url_plain a")
  case True
  then show ?thesis
    by (simp add: url_escape_def url_plain_def query_char_def)
next
  case False
  have "of_char a div 16 < (16 :: nat)" "of_char a mod 16 < (16 :: nat)"
    using nat_of_char_less_256 [of a] by (simp_all add: less_mult_imp_div_less)
  then show ?thesis using False by (simp add: url_escape_def query_char_hex)
qed

lemma query_char_param: "\<forall>c \<in> set (param_text p). query_char c"
  using query_char_escape by (auto simp: param_text_def url_encode_def)

lemma query_char_form: "\<forall>c \<in> set (form_text ps). query_char c"
  by (induction ps rule: form_text.induct) (simp_all add: query_char_param ball_Un)

lemmas form_text_chars = query_char_form [rule_format, unfolded query_char_def]

text \<open>The separators of a form: ampersands between the parameters, \<open>e\<close> after the last.\<close>

definition joined :: "char \<Rightarrow> (string \<times> string) list \<Rightarrow> ((string \<times> string) \<times> char) list" where
  "joined e ps = map (\<lambda>p. (p, CHR ''&'')) (butlast ps) @ [(last ps, e)]"

lemma joined_facts:
  assumes "ps \<noteq> []"
  shows "map fst (joined e ps) = ps" and "separated_text (joined e ps) = form_text ps @ [e]"
    and "length (joined e ps) = length ps"
    and "(\<forall>(p, c) \<in> set (joined e ps). P p \<and> (c = NUL \<or> c = CHR ''&'' \<or> isspace c)) \<longleftrightarrow>
      (\<forall>p \<in> set ps. P p) \<and> (e = NUL \<or> e = CHR ''&'' \<or> isspace e)"
proof -
  show "map fst (joined e ps) = ps" "length (joined e ps) = length ps"
    using assms by (simp_all add: joined_def comp_def)
  show "separated_text (joined e ps) = form_text ps @ [e]"
    using form_text_separated [OF assms, of e] by (simp add: joined_def)
  have "set ps = insert (last ps) (set (butlast ps))"
    using assms by (metis append_butlast_last_id set_append insert_is_Un list.simps(15) Un_commute set_empty empty_set)
  then show "(\<forall>(p, c) \<in> set (joined e ps). P p \<and> (c = NUL \<or> c = CHR ''&'' \<or> isspace c)) \<longleftrightarrow>
      (\<forall>p \<in> set ps. P p) \<and> (e = NUL \<or> e = CHR ''&'' \<or> isspace e)"
    by (auto simp: joined_def)
qed

lemma separated_append: "separated_text (xs @ ys) = separated_text xs @ separated_text ys"
  by (simp add: separated_text_def)

text \<open>Any number of calls in a GET request, up to the wrap-around of the position in the URL.\<close>

lemma get_calls:
  assumes "get_ok (3 * length (get_chars s) + k) s" and "unat nl < length name" and "unat vl < length val"
    and "0 < nl \<or> 0 < vl"
  shows "ensures (call_params E k name nl val vl s) (\<lambda>(name', val', _).
    length name' = length name \<and> length val' = length val)"
  using assms(1-3)
proof (induction k arbitrary: name val s)
  case (Suc k)
  have ne: "name \<noteq> []" "val \<noteq> []" using Suc.prems(2,3) by auto
  have "get_ok (3 * length (get_chars s) + 1 + k) s" using Suc.prems(1) by simp
  from url_source.ParseURLParam_total [OF this, of nl "name[0 := NUL]" vl "val[0 := NUL]" E] Suc.prems assms(4)
  obtain r n1 v1 s1 where 1: "attoHTTPParseURLParam E (name[0 := NUL]) nl (val[0 := NUL]) vl s = returns (r, n1, v1, s1)"
    "length n1 = length name" "length v1 = length val" "get_ok (3 * length (get_chars s1) + k) s1"
    by (auto elim!: ensuresE)
  have "http_method s = METHOD_GET" using Suc.prems(1) by (simp add: get_ok_def)
  with 1(1) ne have "attoHTTPParseParam E name nl val vl s = returns (r, n1, v1, s1)"
    by (simp add: attoHTTPParseParam_def)
  with Suc.IH [OF 1(4), of n1 v1] 1(2,3) Suc.prems(2,3) show ?case by simp
qed simp

text \<open>A GET request whose query string is in the URL buffer, up to the end of the buffer.\<close>

definition holds_query :: "string \<Rightarrow> 'io http \<Rightarrow> bool" where
  "holds_query q s \<longleftrightarrow> http_method s = METHOD_GET \<and> length (url s) = 64 \<and>
     (\<exists>p \<le> 64. url_params s = Some p \<and> url_params_start s = of_nat p \<and> drop p (url s) = q)"

lemma holds_query_chars:
  assumes "holds_query q s"
  shows "get_chars s = q" and "n < 2 ^ 15 \<Longrightarrow> get_ok n s" and "length q \<le> 64"
proof -
  obtain p where p: "p \<le> 64" "url_params s = Some p" "url_params_start s = of_nat p" "drop p (url s) = q"
    and s: "http_method s = METHOD_GET" "length (url s) = 64"
    using assms by (auto simp: holds_query_def)
  have u: "unat (url_params_start s) = p" using p by (simp add: unat_of_nat_small)
  show "get_chars s = q" "length q \<le> 64" using p s u by (auto simp: get_chars_def)
  show "get_ok n s" if "n < 2 ^ 15" using that p(1,2) s u by (simp add: get_ok_def)
qed

lemma get_form:
  assumes q: "holds_query (form_text ps @ NUL # r) s" and r: "r = [] \<or> hd r = NUL"
    and ps: "\<forall>p \<in> set ps. param_ok (unat nl) (unat vl) p"
    and len: "unat nl \<le> length name" "unat vl \<le> length val" "0 < nl" "0 < vl" and k: "length ps < k"
  shows "\<exists>s'. read_params E k name nl val vl s = returns (ps, s')"
proof (cases "ps = []")
  case True
  have "length name \<noteq> 0" "length val \<noteq> 0" using len by (auto simp: word_less_nat_alt)
  then have "name \<noteq> []" "val \<noteq> []" by auto
  moreover have "get_chars s = [] \<or> (\<exists>cs. get_chars s = NUL # cs)" using holds_query_chars(1) [OF q] True by simp
  moreover have "get_ok (Suc 0) s" by (rule holds_query_chars(2) [OF q]) simp
  moreover obtain j where "k = Suc j" using k by (cases k) auto
  ultimately show ?thesis using True get_params.read_none [OF _ _ len(3)] by blast
next
  case False
  note j = joined_facts [OF False]
  have "length (form_text ps @ NUL # r) \<le> 64" by (rule holds_query_chars(3) [OF q])
  then have ok: "get_ok (length (separated_text (joined NUL ps)) + 1) s"
    by (intro holds_query_chars(2) [OF q]) (simp add: j(2))
  have c: "get_chars s = separated_text (joined NUL ps) @ r" by (simp add: holds_query_chars(1) [OF q] j(2))
  from get_params.read_all [OF _ len ok c r, of k] ps k show ?thesis by (simp add: j(1,3,4))
qed

text \<open>
  Behind the terminator the buffer still holds what an earlier, longer request left there, and
  it is read as parameters of this request.
\<close>

lemma get_form_stale:
  assumes q: "holds_query (form_text ps @ NUL # form_text qs @ NUL # r) s" and r: "r = [] \<or> hd r = NUL"
    and ps: "\<forall>p \<in> set (ps @ qs). param_ok (unat nl) (unat vl) p" and ne: "ps \<noteq> []" "qs \<noteq> []"
    and len: "unat nl \<le> length name" "unat vl \<le> length val" "0 < nl" "0 < vl" and k: "length (ps @ qs) < k"
  shows "\<exists>s'. read_params E k name nl val vl s = returns (ps @ qs, s')"
proof -
  let ?t = "joined NUL ps @ joined NUL qs"
  have t: "separated_text ?t = form_text ps @ NUL # form_text qs @ [NUL]" "map fst ?t = ps @ qs"
    "length ?t = length (ps @ qs)" by (simp_all add: separated_append joined_facts ne)
  have "length (form_text ps @ NUL # form_text qs @ NUL # r) \<le> 64" by (rule holds_query_chars(3) [OF q])
  then have ok: "get_ok (length (separated_text ?t) + 1) s"
    by (intro holds_query_chars(2) [OF q]) (simp add: t)
  have c: "get_chars s = separated_text ?t @ r" by (simp add: holds_query_chars(1) [OF q] t)
  have "\<forall>(p, e) \<in> set ?t. param_ok (unat nl) (unat vl) p \<and> (e = NUL \<or> e = CHR ''&'' \<or> isspace e)"
    using ps joined_facts(4) [OF ne(1), of NUL "param_ok (unat nl) (unat vl)"]
      joined_facts(4) [OF ne(2), of NUL "param_ok (unat nl) (unat vl)"] by auto
  from get_params.read_all [OF this len ok c r, of k] k show ?thesis by (simp only: t)
qed

context byte_source
begin

lemma read_body_form:
  assumes "http_method s \<in> {METHOD_POST, METHOD_PUT, METHOD_PATCH, METHOD_DELETE}"
    and "contenttype s = APPLICATION_XWWWFORMURLENCODED" and "inp s = sp @ form_text ps" and "ps \<noteq> []"
    and "\<forall>p \<in> set ps. param_ok (unat nl) (unat vl) p"
    and "unat nl \<le> length name" and "unat vl \<le> length val" and "0 < nl" and "length ps < k"
    and sp: "\<forall>c \<in> set sp. isspace c"
  shows "\<exists>s'. read_params E k name nl val vl s = returns (ps, s')"
proof -
  have "\<forall>c \<in> set sp. skipped c" using sp by (simp add: skipped_def)
  moreover have "\<forall>c \<in> set (form_text ps). \<not> skipped c" using query_char_form by (auto simp: skipped_def query_char_def)
  ultimately have c: "body_chars pending s = form_text ps" using assms(3) by (simp add: body_chars_def)
  have ok: "form_ok (length (form_text ps) + 2) s" using assms(1,2) by (simp add: form_ok_def)
  have ps: "ps = butlast ps @ [last ps]" using assms(4) by simp
  have "form_text ps = form_text (butlast ps @ [last ps])" using ps by simp
  then show ?thesis
    using form_params.read_form [OF assms(5-8) ps _ ok c assms(9)] by (simp only: form_text_last)
qed

end

end
