(* ===== verification/Queries.thy ===== *)
theory Queries
  imports Params Admission
begin

text \<open>
  A GET request with a query string, from the socket to the parameters: \<^verbatim>\<open>attoHTTPExecute\<close> calls
  the REST callback in a state in which \<^verbatim>\<open>attoHTTPParseParam\<close> gives the parameters of the query
  (\<^verbatim>\<open>src/src/attohttp.c\<close>).
\<close>

section \<open>The text of a query\<close>

lemma form_text_no_blank: "c \<in> set (form_text ps) \<Longrightarrow> \<not> isblank c"
  using form_text_chars [of c ps] isblank_isspace [of c] by blast

lemma query_at_none: "CHR ''?'' \<notin> set x \<Longrightarrow> query_at n q x = q"
  by (induction x arbitrary: n q) auto

lemma query_at_some:
  "CHR ''?'' \<notin> set x \<Longrightarrow> CHR ''?'' \<notin> set y \<Longrightarrow> query_at n q (x @ CHR ''?'' # y) = Some (n + length x + 1)"
  by (induction x arbitrary: n q) (simp_all add: query_at_none)

lemma url_byte_id: "CHR ''?'' \<notin> set x \<Longrightarrow> map url_byte x = x"
  by (induction x) (auto simp: url_byte_def)

section \<open>The request\<close>

text \<open>
  The position in the URL as the parser leaves it for the callback: 65000 calls do not wrap it around.
\<close>

lemma get_ok_params:
  assumes "http_method s = METHOD_GET" and "length (url s) = 64" and "params_ok s" and "k \<le> 65000"
  shows "get_ok (3 * length (get_chars s) + k) s"
proof -
  have u: "unat (url_params_start s) \<le> 64"
    using assms(3) by (auto simp: params_ok_def unat_of_nat_small split: option.splits)
  have "length (get_chars s) \<le> 64" by (auto simp: get_chars_def split: option.splits)
  then have "3 * length (get_chars s) + k < 65472" using assms(4) by linarith
  then have "unat (url_params_start s) + (3 * length (get_chars s) + k) < 2 ^ 16" using u by simp
  moreover have "url_params s = Some (unat (url_params_start s))" if "unat (url_params_start s) < 64"
    using assms(3) that by (auto simp: params_ok_def unat_of_nat_small split: option.splits)
  ultimately show ?thesis using assms(1,2) by (simp add: get_ok_def)
qed

definition query_url :: "string list \<Rightarrow> (string \<times> string) list \<Rightarrow> string" where
  "query_url segs ps = path_of segs @ CHR ''?'' # form_text ps"

lemma query_url_path:
  assumes "length (query_url segs ps) \<le> 63" and "CHR ''?'' \<notin> set (path_of segs)"
  shows "path_part (query_url segs ps) = path_of segs"
proof -
  have "take 63 (query_url segs ps) = query_url segs ps" using assms(1) by simp
  moreover have "takeWhile (\<lambda>c. c \<noteq> CHR ''?'') (query_url segs ps) = path_of segs"
    unfolding query_url_def by (subst takeWhile_append2) (use assms(2) in auto)
  ultimately show ?thesis by (simp add: path_part_def)
qed

context byte_channel
begin

text \<open>The state the callback is called in: behind the query is what the buffer held there before.\<close>

lemma Execute_query_state:
  assumes ok: "server_ok s" and input: "admitted E ''GET'' (query_url segs ps) (pending rd (io s))"
    and len: "length (query_url segs ps) \<le> 63"
    and path: "segs \<noteq> []" "\<forall>x \<in> set segs. segment x" "\<forall>c \<in> set (path_of segs). \<not> isblank c \<and> c \<noteq> CHR ''?''"
    and none: "page_at s (query_url segs ps) = None" "path_of segs \<noteq> strz (ssePage s)"
    and cb: "defaultCallback s = Some cb"
  shows "\<exists>d ks js. holds_query (form_text ps @ NUL # drop (length (query_url segs ps) + 1) (url s)) d \<and>
    map (\<lambda>k. strz (drop k (url d))) ks = take 3 (fst (alternate segs)) \<and>
    map (\<lambda>k. strz (drop k (url d))) js = take 3 (snd (alternate segs)) \<and>
    attoHTTPExecute E rd wr s =
      rbind (callback E cb METHOD_GET (accept d) (map Some ks @ replicate (3 - length ks) None)
        (map Some js @ replicate (3 - length js) None) (length ks) (length js) d) (\<lambda>(rc, s).
      after_find E 1 (s\<lparr>returnCode := rc\<rparr>))"
proof -
  let ?tok = "query_url segs ps" and ?path = "path_of segs"
  have q: "CHR ''?'' \<notin> set ?path" "CHR ''?'' \<notin> set (form_text ps)" using path(3) form_text_chars by blast+
  have NULp: "NUL \<notin> set ?path" using path(2) by (auto simp: path_of_def segment_def)
  have tok: "\<forall>c \<in> set ?tok. \<not> isblank c" "NUL \<notin> set ?tok" "?tok \<noteq> []"
    using path(3) form_text_chars form_text_no_blank NULp
    by (auto simp: query_url_def ball_Un isblank_def [of "CHR ''?''"])
  have pp: "path_part ?tok = ?path" using query_url_path [of segs ps] len q by simp
  have m: "method_of_token ''GET'' = Some METHOD_GET" by (simp add: method_of_token_def)
  have sse: "path_part ?tok \<noteq> strz (ssePage s) \<or> strz (ssePage s) = []" using none(2) pp by simp
  from admitted_rest_query [OF ok input m tok none(1) sse cb pp path(1,2)] obtain d ks js where
    d: "server_ok d" "http_method d = METHOD_GET" "url_params d = query_at 0 None (take 63 ?tok)" "params_ok d"
    "drop (length ?path) (url d) = drop (length ?path) (splice (url s) 0 (map url_byte (take 63 ?tok) @ [NUL]))"
    and seg: "map (\<lambda>k. strz (drop k (url d))) ks = take 3 (fst (alternate segs))"
      "map (\<lambda>k. strz (drop k (url d))) js = take 3 (snd (alternate segs))"
      "attoHTTPExecute E rd wr s =
      rbind (callback E cb METHOD_GET (accept d) (map Some ks @ replicate (3 - length ks) None)
        (map Some js @ replicate (3 - length js) None) (length ks) (length js) d) (\<lambda>(rc, s).
      after_find E 1 (s\<lparr>returnCode := rc\<rparr>))"
    by blast
  have t63: "take 63 ?tok = ?tok" using len by simp
  have up: "url_params d = Some (length ?path + 1)"
    using d(3) q unfolding t63 by (simp add: query_url_def query_at_some)
  let ?r = "drop (length ?tok + 1) (url s)"
  have u64: "length (url s) = 64" "length (url d) = 64" using ok d(1) by (simp_all add: server_ok_def)
  have ub: "map url_byte ?tok = ?path @ NUL # form_text ps"
    using q by (simp add: query_url_def url_byte_id) (simp add: url_byte_def)
  have "drop (length ?path) (url d) = NUL # form_text ps @ NUL # ?r"
    unfolding d(5) t63 ub by (simp add: splice_def query_url_def)
  then have "drop (length ?path + 1) (url d) = form_text ps @ NUL # ?r"
    by (metis drop_drop drop_Suc_Cons drop0 add.commute plus_1_eq_Suc)
  then have "holds_query (form_text ps @ NUL # ?r) d"
    using d(2,4) up u64 by (simp add: holds_query_def params_ok_def)
  with seg show ?thesis by blast
qed

lemma Execute_query:
  assumes ok: "server_ok s" and input: "admitted E ''GET'' (query_url segs ps) (pending rd (io s))"
    and len: "length (query_url segs ps) \<le> 62" and fresh: "url s ! (length (query_url segs ps) + 1) = NUL"
    and path: "segs \<noteq> []" "\<forall>x \<in> set segs. segment x" "\<forall>c \<in> set (path_of segs). \<not> isblank c \<and> c \<noteq> CHR ''?''"
    and none: "page_at s (query_url segs ps) = None" "path_of segs \<noteq> strz (ssePage s)"
    and cb: "defaultCallback s = Some cb"
    and ps: "\<forall>p \<in> set ps. param_ok (unat nl) (unat vl) p"
    and buf: "unat nl \<le> length name" "unat vl \<le> length val" "0 < nl" "0 < vl" and k: "length ps < k"
  shows "\<exists>d ks js s'. read_params E k name nl val vl d = returns (ps, s') \<and>
    map (\<lambda>k. strz (drop k (url d))) ks = take 3 (fst (alternate segs)) \<and>
    map (\<lambda>k. strz (drop k (url d))) js = take 3 (snd (alternate segs)) \<and>
    attoHTTPExecute E rd wr s =
      rbind (callback E cb METHOD_GET (accept d) (map Some ks @ replicate (3 - length ks) None)
        (map Some js @ replicate (3 - length js) None) (length ks) (length js) d) (\<lambda>(rc, s).
      after_find E 1 (s\<lparr>returnCode := rc\<rparr>))"
proof -
  let ?r = "drop (length (query_url segs ps) + 1) (url s)"
  have r: "?r \<noteq> []" "hd ?r = NUL"
    using fresh len ok by (simp_all add: hd_drop_conv_nth server_ok_def)
  have read: "\<exists>s'. read_params E k name nl val vl d = returns (ps, s')" if "holds_query (form_text ps @ NUL # ?r) d" for d
    using get_form [OF that _ ps buf k] r by blast
  have len': "length (query_url segs ps) \<le> 63" using len by simp
  from Execute_query_state [OF ok input len' path none cb, of wr] read show ?thesis by blast
qed

text \<open>
  A request for a page whose URL ends in the form of \<open>qs\<close>, then a shorter one whose query ends just
  before it: the second callback reads the parameters of both.
\<close>

lemma Execute_query_stale:
  assumes ok: "server_ok s" and first: "admitted E ''GET'' (x @ form_text qs) (pending rd (io s))"
    and x: "\<forall>c \<in> set x. \<not> isblank c" "NUL \<notin> set x" and len: "length (x @ form_text qs) \<le> 62"
    and fresh: "url s ! (length (x @ form_text qs) + 1) = NUL"
    and page: "page_at s (x @ form_text qs) = Some p" "page_content p = Some b"
    and x_len: "length x = length (query_url segs ps) + 1"
    and path: "segs \<noteq> []" "\<forall>x \<in> set segs. segment x" "\<forall>c \<in> set (path_of segs). \<not> isblank c \<and> c \<noteq> CHR ''?''"
    and none: "page_at s (query_url segs ps) = None" "path_of segs \<noteq> strz (ssePage s)"
    and cb: "defaultCallback s = Some cb"
    and ps: "\<forall>p \<in> set (ps @ qs). param_ok (unat nl) (unat vl) p" and ne: "ps \<noteq> []" "qs \<noteq> []"
    and buf: "unat nl \<le> length name" "unat vl \<le> length val" "0 < nl" "0 < vl" and k: "length (ps @ qs) < k"
  shows "\<exists>s1. attoHTTPExecute E rd wr s = returns (STATUS_OK, s1) \<and>
    (\<forall>n rd' wr'. admitted E ''GET'' (query_url segs ps) (pending rd' n) \<longrightarrow>
      (\<exists>d ks js s'. read_params E k name nl val vl d = returns (ps @ qs, s') \<and>
        map (\<lambda>k. strz (drop k (url d))) ks = take 3 (fst (alternate segs)) \<and>
        map (\<lambda>k. strz (drop k (url d))) js = take 3 (snd (alternate segs)) \<and>
        attoHTTPExecute E rd' wr' (s1\<lparr>io := n\<rparr>) =
          rbind (callback E cb METHOD_GET (accept d) (map Some ks @ replicate (3 - length ks) None)
            (map Some js @ replicate (3 - length js) None) (length ks) (length js) d) (\<lambda>(rc, s).
          after_find E 1 (s\<lparr>returnCode := rc\<rparr>))))"
proof -
  let ?tok = "x @ form_text qs"
  have tok: "\<forall>c \<in> set ?tok. \<not> isblank c" "NUL \<notin> set ?tok" "?tok \<noteq> []"
    using x x_len form_text_chars form_text_no_blank by fastforce+
  obtain s1 where s1: "attoHTTPExecute E rd wr s = returns (STATUS_OK, s1)" "server_ok s1"
    "url s1 = splice (url s) 0 (map url_byte (take 63 ?tok) @ [NUL])" "\<And>t. page_at s1 t = page_at s t"
    "ssePage s1 = ssePage s" "defaultCallback s1 = defaultCallback s"
    by (rule admitted_page_keeps [OF ok first tok page]) (rule that)
  let ?r = "drop (length ?tok + 1) (url s)"
  have t63: "take 63 ?tok = ?tok" using len by simp
  have q: "CHR ''?'' \<notin> set (form_text qs)" using form_text_chars by blast
  have u1: "url s1 = map url_byte x @ form_text qs @ NUL # ?r"
    unfolding s1(3) t63 using url_byte_id [OF q] by (simp add: splice_def)
  have behind: "drop (length (query_url segs ps) + 1) (url s1) = form_text qs @ NUL # ?r"
    unfolding u1 using x_len by simp
  have r: "?r \<noteq> []" "hd ?r = NUL"
    using fresh len ok by (simp_all add: hd_drop_conv_nth server_ok_def)
  have read: "\<exists>s'. read_params E k name nl val vl d = returns (ps @ qs, s')"
    if "holds_query (form_text ps @ NUL # form_text qs @ NUL # ?r) d" for d
    using get_form_stale [OF that _ ps ne buf k] r by blast
  have len': "length (query_url segs ps) \<le> 63" using len x_len by simp
  show ?thesis
  proof (rule exI [of _ s1], rule conjI [OF s1(1)], intro allI impI)
    fix n rd' wr'
    assume second: "admitted E ''GET'' (query_url segs ps) (pending rd' n)"
    let ?n = "s1\<lparr>io := n\<rparr>"
    have n: "server_ok ?n" "admitted E ''GET'' (query_url segs ps) (pending rd' (io ?n))"
      "page_at ?n (query_url segs ps) = None" "path_of segs \<noteq> strz (ssePage ?n)" "defaultCallback ?n = Some cb"
      "url ?n = url s1"
      using s1(2,4-6) second none cb using page_at_cong [of ?n s1] by simp_all
    from Execute_query_state [OF n(1,2) len' path n(3-5), of wr'] read
    show "\<exists>d ks js s'. read_params E k name nl val vl d = returns (ps @ qs, s') \<and>
        map (\<lambda>k. strz (drop k (url d))) ks = take 3 (fst (alternate segs)) \<and>
        map (\<lambda>k. strz (drop k (url d))) js = take 3 (snd (alternate segs)) \<and>
        attoHTTPExecute E rd' wr' ?n =
          rbind (callback E cb METHOD_GET (accept d) (map Some ks @ replicate (3 - length ks) None)
            (map Some js @ replicate (3 - length js) None) (length ks) (length js) d) (\<lambda>(rc, s).
          after_find E 1 (s\<lparr>returnCode := rc\<rparr>))"
      unfolding n(6) behind by blast
  qed
qed

end

end
