(* ===== verification/JsonCall.thy ===== *)
theory JsonCall
  imports JsonText
begin

text \<open>
  One call of \<^verbatim>\<open>attoHTTPParseJSONParam\<close>: its loop follows the scanner of \<open>JsonText\<close> character by
  character, and the function returns what the scanner collects.
\<close>

section \<open>The scanner and the loop\<close>

text \<open>The levels of brackets the code keeps, for a state of the scanner.\<close>

definition with_levels :: "bool \<Rightarrow> nesting \<Rightarrow> 'io http \<Rightarrow> 'io http" where
  "with_levels arr nest s = s\<lparr>
     cblevel := (if arr then 0 else 1) + (if nest = InObject then 1 else 0),
     sblevel := (if arr then 1 else 0) + (if nest = InList then 1 else 0)\<rparr>"

definition inside :: "bool \<Rightarrow> nesting \<Rightarrow> 'io http \<Rightarrow> bool" where
  "inside arr nest s \<longleftrightarrow>
     cblevel s = (if arr then 0 else 1) + (if nest = InObject then 1 else 0) \<and>
     sblevel s = (if arr then 1 else 0) + (if nest = InList then 1 else 0) \<and>
     baselevel s = (if arr then CHR ''['' else CHR ''{'') \<and> (arr \<longrightarrow> nest \<noteq> InList)"

text \<open>The locals of the code for a state of the scanner.\<close>

definition with_scan :: "scan_state \<Rightarrow> jparam \<Rightarrow> jparam" where
  "with_scan st p = p\<lparr>jp_sq := sc_sq st, jp_dq := sc_dq st, jp_divider := sc_divided st,
     jp_nl := (if sc_divided st then 0 else jp_nl p)\<rparr>"

definition follows :: "scan_state \<Rightarrow> jparam \<Rightarrow> bool" where
  "follows st p \<longleftrightarrow> jp_sq p = sc_sq st \<and> jp_dq p = sc_dq st \<and> jp_divider p = sc_divided st \<and>
     (sc_divided st \<longleftrightarrow> jp_nl p = 0) \<and> 0 < jp_vl p \<and> \<not> jp_stop p \<and>
     jp_i p + jp_nl p \<le> length (jp_name p) \<and> jp_j p + jp_vl p \<le> length (jp_value p)"

lemma with_levels_same: "inside arr nest s \<Longrightarrow> with_levels arr nest s = s"
  by (simp add: with_levels_def inside_def)

lemma with_scan_same:
  "follows st p \<Longrightarrow> with_scan st p = p"
  by (auto simp: with_scan_def follows_def)

lemma inside_with_levels:
  "inside arr nest s \<Longrightarrow> (arr \<longrightarrow> nest' \<noteq> InList) \<Longrightarrow> inside arr nest' (with_levels arr nest' s)"
  by (auto simp: inside_def with_levels_def)

lemma scan_step_nest: "scan_step True c st = Some (b, st') \<Longrightarrow> sc_nest st \<noteq> InList \<Longrightarrow> sc_nest st' \<noteq> InList"
  by (auto simp: scan_step_def split: if_splits)

lemma scan_step_ends:
  "scan_step arr c st = Some (b, st') \<Longrightarrow> c \<noteq> NUL \<and> c \<noteq> CHR ''}''"
  by (auto simp: scan_step_def split: if_splits)

text \<open>What one turn of the loop does with a character that the scanner takes.\<close>

definition taken :: "bool \<Rightarrow> char \<Rightarrow> bool \<Rightarrow> scan_state \<Rightarrow> jparam \<Rightarrow> 'io http \<Rightarrow> (jparam \<times> 'io http) run" where
  "taken arr c b st' p s =
     (if b then rbind (json_put c p) (\<lambda>p. returns (p, with_levels arr (sc_nest st') s))
      else returns (with_scan st' p, with_levels arr (sc_nest st') s))"

lemma levels_same:
  "cblevel s = 1 \<Longrightarrow> s\<lparr>cblevel := 1, sblevel := y\<rparr> = s\<lparr>sblevel := y\<rparr>"
  "sblevel s = 0 \<Longrightarrow> s\<lparr>cblevel := x, sblevel := 0\<rparr> = s\<lparr>cblevel := x\<rparr>"
  "sblevel s = 1 \<Longrightarrow> s\<lparr>cblevel := x, sblevel := 1\<rparr> = s\<lparr>cblevel := x\<rparr>"
  by simp_all

lemmas step_facts = scan_step_def json_step_def json_nesting_def inside_def follows_def with_scan_def with_levels_def
  taken_def

lemma isspace_not:
  "isspace c \<Longrightarrow> c \<noteq> NUL \<and> c \<noteq> CHR ''}'' \<and> c \<noteq> CHR '':''"
  "\<not> isspace NUL" "\<not> isspace (CHR 0x27)" "\<not> isspace (CHR 0x22)" "\<not> isspace (CHR ''['')" "\<not> isspace (CHR ''{'')"
  "\<not> isspace (CHR '']'')" "\<not> isspace (CHR ''}'')"
  by (auto simp: isspace_def)

lemma two_one: "\<not> (2 :: 8 word) \<le> 1"
  by (simp add: word_le_nat_alt)

lemma inside_level:
  "inside arr Flat s \<Longrightarrow> cblevel s + sblevel s = 1"
  "inside arr nest s \<Longrightarrow> nest \<noteq> Flat \<Longrightarrow> cblevel s + sblevel s = 2"
  "inside arr nest s \<Longrightarrow> nest \<noteq> Flat \<Longrightarrow> (cblevel s = 1 \<and> sblevel s = 0) = False"
  by (cases arr; simp add: inside_def) ((cases arr; cases nest; simp add: inside_def)+)

lemma step_flat:
  assumes "scan_step arr c st = Some (b, st')" and "inside arr Flat s" and "sc_nest st = Flat" and "follows st p"
  shows "json_step c p s = taken arr c b st' p s"
proof -
  consider "c = CHR '':''" "\<not> arr" "\<not> sc_sq st" "\<not> sc_dq st" | "isspace c" "\<not> sc_sq st" "\<not> sc_dq st"
    | "c = CHR 0x27" "\<not> sc_dq st" | "c = CHR 0x22" "\<not> sc_sq st" | "c = CHR ''[''" | "c = CHR ''{''"
    | "c \<noteq> CHR '':'' \<or> arr \<or> sc_sq st \<or> sc_dq st" "\<not> isspace c \<or> sc_sq st \<or> sc_dq st" "c \<noteq> CHR 0x27 \<or> sc_dq st"
      "c \<noteq> CHR 0x22 \<or> sc_sq st" "c \<noteq> CHR ''[''" "c \<noteq> CHR ''{''" by blast
  then show ?thesis
  proof cases
    case 1
    with assms(1,3) have "\<not> b" "st' = st\<lparr>sc_divided := True\<rparr>" by (simp_all add: scan_step_def)
    moreover have "with_levels arr Flat s = s" by (rule with_levels_same [OF assms(2)])
    moreover have "with_scan (st\<lparr>sc_divided := True\<rparr>) p = p\<lparr>jp_nl := 0, jp_divider := True\<rparr>"
      using assms(4) by (simp add: with_scan_def follows_def)
    ultimately show ?thesis
      using assms(2-) 1 by (simp add: json_step_def inside_def follows_def taken_def)
  next
    case 2
    with assms isspace_not(1) [OF 2(1)] have "\<not> b" "st' = st" by (simp_all add: scan_step_def)
    moreover have "with_levels arr Flat s = s" "with_scan st p = p"
      by (rule with_levels_same [OF assms(2)], rule with_scan_same [OF assms(4)])
    moreover have "json_step c p s = returns (p, s)"
      using 2 isspace_not(1) [OF 2(1)] inside_level(1) [OF assms(2)] assms(4)
      by (simp add: json_step_def follows_def)
    ultimately show ?thesis using assms(3) by (simp add: taken_def)
  next
    case 3
    with assms(1,3) have "\<not> b" "st' = st\<lparr>sc_sq := \<not> sc_sq st\<rparr>"
      by (simp_all add: scan_step_def isspace_not)
    moreover have "with_levels arr Flat s = s" by (rule with_levels_same [OF assms(2)])
    moreover have "with_scan (st\<lparr>sc_sq := \<not> sc_sq st\<rparr>) p = p\<lparr>jp_sq := \<not> jp_sq p\<rparr>"
      using assms(4) by (auto simp: with_scan_def follows_def)
    moreover have "json_step c p s = returns (p\<lparr>jp_sq := \<not> jp_sq p\<rparr>, s)"
      using 3 inside_level(1) [OF assms(2)] assms(4)
      by (simp add: json_step_def follows_def isspace_not)
    ultimately show ?thesis using assms(3) by (simp add: taken_def)
  next
    case 4
    with assms(1,3) have "\<not> b" "st' = st\<lparr>sc_dq := \<not> sc_dq st\<rparr>"
      by (simp_all add: scan_step_def isspace_not)
    moreover have "with_levels arr Flat s = s" by (rule with_levels_same [OF assms(2)])
    moreover have "with_scan (st\<lparr>sc_dq := \<not> sc_dq st\<rparr>) p = p\<lparr>jp_dq := \<not> jp_dq p\<rparr>"
      using assms(4) by (auto simp: with_scan_def follows_def)
    moreover have "json_step c p s = returns (p\<lparr>jp_dq := \<not> jp_dq p\<rparr>, s)"
      using 4 inside_level(1) [OF assms(2)] assms(4)
      by (simp add: json_step_def follows_def isspace_not)
    ultimately show ?thesis using assms(3) by (simp add: taken_def)
  next
    case 5
    with assms show ?thesis by (auto simp: step_facts levels_same isspace_not split: if_splits)
  next
    case 6
    with assms show ?thesis by (auto simp: step_facts levels_same isspace_not split: if_splits)
  next
    case 7
    have d: "c \<noteq> NUL" "c \<noteq> CHR ''}''" "c \<noteq> CHR '',''" "c \<noteq> CHR '']''" "b" "st' = st"
      using assms 7 by (auto simp: scan_step_def split: if_splits)
    have l: "with_levels arr (sc_nest st) s = s" using assms(2,3) with_levels_same by simp
    note d
    moreover have "\<not> (c = CHR '':'' \<and> cblevel s = 1 \<and> sblevel s = 0 \<and> \<not> sc_sq st \<and> \<not> sc_dq st)"
      using 7(1) assms(2) by (cases arr) (auto simp: inside_def)
    moreover have "jp_sq p = sc_sq st" "jp_dq p = sc_dq st" using assms(4) by (simp_all add: follows_def)
    ultimately have "json_step c p s = rbind (json_put c p) (\<lambda>p. returns (json_nesting c p s))"
      using 7 by (auto simp: json_step_def inside_level(1) [OF assms(2)])
    with d l 7 show ?thesis by (simp add: json_nesting_def taken_def)
  qed
qed

text \<open>Inside a nested list or object everything is data.\<close>

lemma step_nested:
  assumes "scan_step arr c st = Some (b, st')" and "inside arr (sc_nest st) s" and "sc_nest st \<noteq> Flat" and "follows st p"
  shows "json_step c p s = taken arr c b st' p s"
proof (cases "c = CHR '']''")
  case True
  have n: "sc_nest st = InList" "\<not> arr" "b" "st' = st\<lparr>sc_nest := Flat\<rparr>"
    using assms(1-3) True by (auto simp: scan_step_def inside_def split: if_splits)
  then have lv: "cblevel s = 1" "sblevel s = 1" "baselevel s = CHR ''{''" using assms(2) by (simp_all add: inside_def)
  then have "json_step c p s = rbind (json_put c p) (\<lambda>p. returns (p, s\<lparr>sblevel := 0\<rparr>))"
    by (simp add: True json_step_def json_nesting_def isspace_not)
  with n lv show ?thesis by (simp add: taken_def with_levels_def levels_same)
next
  case False
  have "c \<noteq> NUL" "c \<noteq> CHR ''}''" "c \<noteq> CHR ''{''" "c \<noteq> CHR ''[''" "b" "st' = st"
    using assms(1,3) False by (auto simp: scan_step_def split: if_splits)
  moreover have "with_levels arr (sc_nest st) s = s" by (rule with_levels_same [OF assms(2)])
  moreover have "sc_nest st = InList \<and> \<not> arr \<or> sc_nest st = InObject"
    using assms(2,3) by (cases "sc_nest st") (auto simp: inside_def)
  moreover have "json_step c p s = rbind (json_put c p) (\<lambda>p. returns (json_nesting c p s))"
    using calculation(1-4) False
    using inside_level(3) [OF assms(2,3)]
    by (auto simp add: json_step_def inside_level(2) [OF assms(2,3)] two_one)
  ultimately show ?thesis
    using False by (simp add: json_nesting_def taken_def)
qed

lemma step_taken:
  "scan_step arr c st = Some (b, st') \<Longrightarrow> inside arr (sc_nest st) s \<Longrightarrow> follows st p \<Longrightarrow>
   json_step c p s = taken arr c b st' p s"
  by (cases "sc_nest st = Flat") (simp add: step_flat, rule step_nested)

section \<open>A text through the loop\<close>

text \<open>The end of one turn of the loop.\<close>

definition json_more :: "'io env \<Rightarrow> jparam \<Rightarrow> 'io http \<Rightarrow> (jparam \<times> 'io http) run" where
  "json_more E p s =
     (if \<not> jp_stop p \<and> jp_vl p > 0 then attoHTTPParseJSONParam_loop E p s else returns (p, s))"

lemma json_more_simps [simp]:
  "jp_stop p \<Longrightarrow> json_more E p s = returns (p, s)"
  "\<not> jp_stop p \<Longrightarrow> jp_vl p > 0 \<Longrightarrow> json_more E p s = attoHTTPParseJSONParam_loop E p s"
  by (simp_all add: json_more_def)

text \<open>What stays the same while the body is read, and the number of nameless items so far.\<close>

definition same_request :: "'io http \<Rightarrow> 'io http \<Rightarrow> bool" where
  "same_request s s' \<longleftrightarrow> http_method s' = http_method s \<and> contenttype s' = contenttype s"

definition same_count :: "'io http \<Rightarrow> 'io http \<Rightarrow> bool" where
  "same_count s s' \<longleftrightarrow> same_request s s' \<and> counter s' = counter s"

lemma same_request_refl [simp]: "same_request s s"
  and same_request_trans: "same_request s t \<Longrightarrow> same_request t u \<Longrightarrow> same_request s u"
  by (simp_all add: same_request_def)

lemma same_count_refl [simp]: "same_count s s"
  and same_count_trans: "same_count s t \<Longrightarrow> same_count t u \<Longrightarrow> same_count s u"
  and same_count_request: "same_count s t \<Longrightarrow> same_request s t"
  and same_count_levels: "same_count s t \<Longrightarrow> same_count s (with_levels arr nest t)"
  by (auto simp: same_count_def same_request_def with_levels_def)

lemma reads_json:
  "reads p w s s' \<Longrightarrow> inside arr nest s' = inside arr nest s" "reads p w s s' \<Longrightarrow> same_count s s'"
  by (auto simp: inside_def same_count_def same_request_def reads_fields)

lemma input_of_levels:
  "input_of pending (with_levels arr nest s) = input_of pending s"
  "input_of pending (s\<lparr>baselevel := c\<rparr>) = input_of pending s"
  "input_of pending (s\<lparr>counter := k\<rparr>) = input_of pending s"
  by (simp_all add: input_of_def with_levels_def)

text \<open>\<open>got n v p q\<close>: from \<open>p\<close> to \<open>q\<close> the locals have taken the name \<open>n\<close> and the value \<open>v\<close>, as far as they fit.\<close>

definition got :: "string \<Rightarrow> string \<Rightarrow> jparam \<Rightarrow> jparam \<Rightarrow> bool" where
  "got n v p q \<longleftrightarrow>
     jp_name q = splice (jp_name p) (jp_i p) (take (jp_nl p - 1) n) \<and> jp_i q = jp_i p + length (take (jp_nl p - 1) n) \<and>
     jp_value q = splice (jp_value p) (jp_j p) (take (jp_vl p - 1) v) \<and> jp_j q = jp_j p + length (take (jp_vl p - 1) v)"

lemma got_Nil: "got [] [] p p"
  by (simp add: got_def)

lemma put_name:
  assumes "follows st p" and "\<not> sc_divided st"
  obtains q where "json_put c p = returns q" and "follows st q" and "\<And>n v r. got n v q r \<Longrightarrow> got (c # n) v p r"
proof (cases "jp_nl p > 1")
  case True
  let ?q = "p\<lparr>jp_name := (jp_name p)[jp_i p := c], jp_i := jp_i p + 1, jp_nl := jp_nl p - 1\<rparr>"
  have i: "jp_i p < length (jp_name p)" using assms True by (simp add: follows_def)
  obtain k where k: "jp_nl p = Suc (Suc k)" using less_imp_Suc_add [OF True] by auto
  show ?thesis
  proof (rule that [of ?q])
    show "json_put c p = returns ?q" using True i by (simp add: json_put_def)
    show "follows st ?q" using assms k by (simp add: follows_def)
    show "got (c # n) v p r" if "got n v ?q r" for n v r
      using that i k by (simp add: got_def splice_update)
  qed
next
  case False
  then have "jp_nl p = 1" using assms by (simp add: follows_def)
  then show ?thesis using assms by (intro that [of p]) (simp_all add: json_put_def got_def)
qed

lemma put_value:
  assumes "follows st p" and "sc_divided st"
  obtains q where "json_put c p = returns q" and "follows st q" and "\<And>v r. got [] v q r \<Longrightarrow> got [] (c # v) p r"
proof (cases "jp_vl p > 1")
  case True
  let ?q = "p\<lparr>jp_value := (jp_value p)[jp_j p := c], jp_j := jp_j p + 1, jp_vl := jp_vl p - 1\<rparr>"
  have n: "jp_nl p = 0" and j: "jp_j p < length (jp_value p)" using assms True by (simp_all add: follows_def)
  obtain k where k: "jp_vl p = Suc (Suc k)" using less_imp_Suc_add [OF True] by auto
  show ?thesis
  proof (rule that [of ?q])
    show "json_put c p = returns ?q" using True n j by (simp add: json_put_def)
    show "follows st ?q" using assms k by (simp add: follows_def)
    show "got [] (c # v) p r" if "got [] v ?q r" for v r
      using that j k by (simp add: got_def splice_update)
  qed
next
  case False
  then have "jp_vl p = 1" "jp_nl p = 0" using assms by (simp_all add: follows_def)
  then show ?thesis using assms by (intro that [of p]) (simp_all add: json_put_def got_def)
qed

lemma data_state: "scan_step arr c st = Some (True, st') \<Longrightarrow> st' = st\<lparr>sc_nest := sc_nest st'\<rparr>"
  by (auto simp: scan_step_def split: if_splits)

lemma follows_nest: "follows (st\<lparr>sc_nest := x\<rparr>) p = follows st p"
  by (simp add: follows_def)

lemma follows_data: "scan_step arr c st = Some (True, st') \<Longrightarrow> follows st' p = follows st p"
  using data_state follows_nest by metis

text \<open>A mark: nothing is stored.\<close>

lemma follows_mark:
  assumes "scan_step arr c st = Some (False, st')" and "follows st p"
  shows "follows st' (with_scan st' p)"
    and "(sc_divided st' \<longrightarrow> n = []) \<Longrightarrow> got n v (with_scan st' p) q \<Longrightarrow> got n v p q"
proof -
  have "sc_divided st \<Longrightarrow> sc_divided st'" using assms(1) by (rule scan_step_keeps)
  then show "follows st' (with_scan st' p)" using assms(2) by (auto simp: follows_def with_scan_def)
qed (cases "sc_divided st'"; simp add: got_def with_scan_def)

lemma follows_char: "follows st (p\<lparr>jp_c := c\<rparr>) = follows st p"
  and got_char: "got n v (p\<lparr>jp_c := c\<rparr>) q = got n v p q"
  by (simp_all add: follows_def got_def)

context byte_source
begin

lemma loop_next:
  assumes "inp s = c # cs" and "c \<noteq> NUL"
  obtains s1 where "rds s s1" and "inp s1 = cs" and "extra_c s1 \<le> 0"
    and "\<And>p. attoHTTPParseJSONParam_loop E p s = rbind (json_step c (p\<lparr>jp_c := c\<rparr>) s1) (\<lambda>(p, s). json_more E p s)"
proof -
  from assms(1) obtain s1 where s1: "\<And>c0. attoHTTPReadC E c0 s = returns (1, c, s1)" "rds s s1"
    "extra_c s1 \<le> 0" "inp s1 = cs" by (rule ReadC_Cons) auto
  then show ?thesis
    using assms(2) by (intro that [of s1]) (simp_all add: attoHTTPParseJSONParam_loop.simps [of E] json_more_def)
qed

text \<open>One character that the scanner takes.\<close>

lemma scan_next:
  assumes "inp s = c # cs" and step: "scan_step arr c st = Some (b, st')" and "inside arr (sc_nest st) s" and "follows st p"
  obtains q s1 where "attoHTTPParseJSONParam_loop E p s = attoHTTPParseJSONParam_loop E q s1"
    and "inside arr (sc_nest st') s1" and "follows st' q" and "same_count s s1" and "inp s1 = cs"
    and "\<forall>n v r. (sc_divided st' \<longrightarrow> n = []) \<longrightarrow> got n v q r \<longrightarrow>
      got (if b \<and> \<not> sc_divided st then c # n else n) (if b \<and> sc_divided st then c # v else v) p r"
proof -
  have nul: "c \<noteq> NUL" using scan_step_ends [OF step] by simp
  obtain s1 where 1: "rds s s1" "inp s1 = cs" "extra_c s1 \<le> 0"
    "\<And>p. attoHTTPParseJSONParam_loop E p s = rbind (json_step c (p\<lparr>jp_c := c\<rparr>) s1) (\<lambda>(p, s). json_more E p s)"
    by (rule loop_next [OF assms(1) nul]) (rule that)
  let ?p = "p\<lparr>jp_c := c\<rparr>" and ?s = "with_levels arr (sc_nest st') s1"
  have i: "inside arr (sc_nest st) s1" using reads_json(1) [OF 1(1)] assms(3) by simp
  have f: "follows st ?p" using assms(4) by (simp add: follows_char)
  have l: "attoHTTPParseJSONParam_loop E p s = rbind (taken arr c b st' ?p s1) (\<lambda>(p, s). json_more E p s)"
    by (simp only: 1(4) step_taken [OF step i f])
  have nest: "arr \<longrightarrow> sc_nest st' \<noteq> InList"
    using i step scan_step_nest [of c st b st'] by (cases arr) (simp_all add: inside_def)
  have s: "inside arr (sc_nest st') ?s" "same_count s ?s" "inp ?s = cs"
    using inside_with_levels [OF i] nest reads_json(2) [OF 1(1)] 1(2)
    by (simp_all add: same_count_levels input_of_levels)
  have more: "json_more E q ?s = attoHTTPParseJSONParam_loop E q ?s" if "follows st' q" for q
    using that by (simp add: follows_def)
  consider "b = False" | "b" "sc_divided st" | "b" "\<not> sc_divided st" by blast
  then show ?thesis
  proof cases
    case 1
    then have mark: "scan_step arr c st = Some (False, st')" using step by simp
    note m = follows_mark [OF mark f]
    show ?thesis
      by (rule that [of "with_scan st' ?p" ?s])
        (use 1 l s more [OF m(1)] m in \<open>auto simp: taken_def got_char\<close>)
  next
    case 2
    obtain q where q: "json_put c ?p = returns q" "follows st q" "\<And>v r. got [] v q r \<Longrightarrow> got [] (c # v) ?p r"
      by (rule put_value [OF f 2(2)]) (rule that)
    have d: "follows st' q" "sc_divided st'"
      using q(2) step 2 by (simp_all add: follows_data scan_step_keeps)
    show ?thesis
      by (rule that [of q ?s]) (use 2 l s more [OF d(1)] d q in \<open>auto simp: taken_def got_char\<close>)
  next
    case 3
    obtain q where q: "json_put c ?p = returns q" "follows st q" "\<And>n v r. got n v q r \<Longrightarrow> got (c # n) v ?p r"
      by (rule put_name [OF f 3(2)]) (rule that)
    have d: "follows st' q" using q(2) step 3 by (simp add: follows_data)
    show ?thesis
      by (rule that [of q ?s]) (use 3 l s more [OF d] d q in \<open>auto simp: taken_def got_char\<close>)
  qed
qed

text \<open>A whole text: what is collected behind it is added to what it gives.\<close>

lemma scan_run:
  "scan arr st w = Some (st', n, v) \<Longrightarrow> inp s = w @ cs \<Longrightarrow> inside arr (sc_nest st) s \<Longrightarrow> follows st p \<Longrightarrow>
   \<exists>q s'. attoHTTPParseJSONParam_loop E p s = attoHTTPParseJSONParam_loop E q s' \<and> inside arr (sc_nest st') s' \<and>
     follows st' q \<and> same_count s s' \<and> inp s' = cs \<and>
     (\<forall>n' v' r. (sc_divided st' \<longrightarrow> n' = []) \<longrightarrow> got n' v' q r \<longrightarrow> got (n @ n') (v @ v') p r)"
proof (induction w arbitrary: st n v s p)
  case Nil
  then show ?case by (intro exI [of _ p] exI [of _ s]) (simp add: got_Nil)
next
  case (Cons c w)
  obtain b st1 n1 v1 where 1: "scan_step arr c st = Some (b, st1)" "scan arr st1 w = Some (st', n1, v1)"
    "n = (if b \<and> \<not> sc_divided st then c # n1 else n1)" "v = (if b \<and> sc_divided st then c # v1 else v1)"
    using Cons.prems(1) by (auto split: option.splits prod.splits if_splits)
  have i: "inp s = c # (w @ cs)" using Cons.prems(2) by simp
  obtain q s1 where 2: "attoHTTPParseJSONParam_loop E p s = attoHTTPParseJSONParam_loop E q s1"
    "inside arr (sc_nest st1) s1" "follows st1 q" "same_count s s1" "inp s1 = w @ cs"
    "\<forall>n v r. (sc_divided st1 \<longrightarrow> n = []) \<longrightarrow> got n v q r \<longrightarrow>
      got (if b \<and> \<not> sc_divided st then c # n else n) (if b \<and> sc_divided st then c # v else v) p r"
    by (rule scan_next [OF i 1(1) Cons.prems(3,4)]) (rule that)
  from Cons.IH [OF 1(2) 2(5,2,3)] obtain r s' where 3:
    "attoHTTPParseJSONParam_loop E q s1 = attoHTTPParseJSONParam_loop E r s'" "inside arr (sc_nest st') s'"
    "follows st' r" "same_count s1 s'" "inp s' = cs"
    "\<forall>n' v' t. (sc_divided st' \<longrightarrow> n' = []) \<longrightarrow> got n' v' r t \<longrightarrow> got (n1 @ n') (v1 @ v') q t" by blast
  have "got (n @ n') (v @ v') p t" if "sc_divided st' \<longrightarrow> n' = []" "got n' v' r t" for n' v' t
  proof -
    have "got (n1 @ n') (v1 @ v') q t" using 3(6) that by blast
    moreover have "sc_divided st1 \<longrightarrow> n1 @ n' = []" using scan_divided [OF 1(2)] that(1) by simp
    ultimately have "got (if b \<and> \<not> sc_divided st then c # n1 @ n' else n1 @ n')
        (if b \<and> sc_divided st then c # v1 @ v' else v1 @ v') p t" using 2(6) by blast
    then show ?thesis unfolding 1(3,4) by (simp split: if_splits)
  qed
  with 2(1) 3 same_count_trans [OF 2(4) 3(4)] show ?case by (intro exI [of _ r] exI [of _ s']) simp
qed

end

section \<open>A call\<close>

definition body_start :: "'io http \<Rightarrow> bool" where
  "body_start s \<longleftrightarrow> cblevel s = 0 \<and> sblevel s = 0 \<and> baselevel s = NUL"

definition open_mark :: "bool \<Rightarrow> char" where
  "open_mark arr = (if arr then CHR ''['' else CHR ''{'')"

definition close_mark :: "bool \<Rightarrow> char" where
  "close_mark arr = (if arr then CHR '']'' else CHR ''}'')"

text \<open>
  A call has the text \<open>x\<close> of items before it: it is inside the object or array, or it is the first
  call and the opening bracket comes first, perhaps behind white space.
\<close>

definition at_text :: "(handle \<Rightarrow> 'io \<Rightarrow> string) \<Rightarrow> bool \<Rightarrow> 'io http \<Rightarrow> string \<Rightarrow> bool" where
  "at_text pending arr s x \<longleftrightarrow>
     inside arr Flat s \<and> input_of pending s = x \<or>
     body_start s \<and> (\<exists>sp. spaces sp \<and> input_of pending s = sp @ open_mark arr # x)"

text \<open>The state after an item that the comma or the closing bracket \<open>e\<close> ends.\<close>

definition after_item :: "(handle \<Rightarrow> 'io \<Rightarrow> string) \<Rightarrow> bool \<Rightarrow> char \<Rightarrow> string \<Rightarrow> 'io http \<Rightarrow> bool" where
  "after_item pending arr e cs s \<longleftrightarrow>
     (if e = CHR '','' then inside arr Flat s \<and> input_of pending s = cs
      else cblevel s = 0 \<and> sblevel s = 0 \<and> baselevel s = open_mark arr \<and>
        input_of pending s = (if arr then cs else CHR ''}'' # cs))"

text \<open>The locals at the start of a call.\<close>

definition locals_at :: "char \<Rightarrow> string \<Rightarrow> nat \<Rightarrow> string \<Rightarrow> nat \<Rightarrow> jparam" where
  "locals_at c name nl val vl = \<lparr>jp_c = c, jp_name = name, jp_i = 0, jp_nl = nl, jp_value = val, jp_j = 0,
     jp_vl = vl, jp_sq = False, jp_dq = False, jp_divider = False, jp_stop = False\<rparr>"

lemma call_unfold:
  "attoHTTPParseJSONParam E name nl val vl s =
     rbind (attoHTTPParseJSONParam_loop E (locals_at (junk E ParseJSONParam_c 0 (io s)) name nl val vl) s) (\<lambda>(p, s).
     json_finish nl vl p s)"
  by (simp add: attoHTTPParseJSONParam_def locals_at_def)

lemma follows_start:
  "0 < nl \<Longrightarrow> 0 < vl \<Longrightarrow> nl \<le> length name \<Longrightarrow> vl \<le> length val \<Longrightarrow> follows scan_start (locals_at c name nl val vl)"
  by (simp add: follows_def scan_start_def locals_at_def)

lemma locals_char: "(locals_at c name nl val vl)\<lparr>jp_c := d\<rparr> = locals_at d name nl val vl"
  by (simp add: locals_at_def)

lemma step_comma: "inside arr Flat s \<Longrightarrow> json_step (CHR '','') p s = returns (p\<lparr>jp_stop := True\<rparr>, s)"
  by (simp add: json_step_def inside_level isspace_def)

lemma step_close_object:
  "inside False Flat s \<Longrightarrow> json_step (CHR ''}'') p s =
     returns (p\<lparr>jp_stop := True\<rparr>, attoHTTPPushC (CHR ''}'') (s\<lparr>cblevel := 0\<rparr>))"
  by (simp add: inside_def json_step_def isspace_def)

lemma step_close_array:
  "inside True Flat s \<Longrightarrow> json_step (CHR '']'') p s = returns (p\<lparr>jp_stop := True\<rparr>, s\<lparr>sblevel := 0\<rparr>)"
  by (simp add: inside_def json_step_def isspace_def)

lemma step_open:
  "body_start s \<Longrightarrow> json_step (open_mark arr) p s =
     returns (p, with_levels arr Flat (s\<lparr>baselevel := open_mark arr\<rparr>))"
  by (cases arr) (simp_all add: body_start_def open_mark_def json_step_def with_levels_def isspace_def)

lemma inside_open: "inside arr Flat (with_levels arr Flat (s\<lparr>baselevel := open_mark arr\<rparr>))"
  by (simp add: inside_def with_levels_def open_mark_def)

lemma step_outer_space:
  "cblevel s = 0 \<Longrightarrow> sblevel s = 0 \<Longrightarrow> isspace c \<Longrightarrow> \<not> jp_sq p \<Longrightarrow> \<not> jp_dq p \<Longrightarrow> json_step c p s = returns (p, s)"
  by (simp add: json_step_def)

context byte_source
begin

text \<open>White space outside the brackets.\<close>

lemma outer_spaces:
  "spaces sp \<Longrightarrow> inp s = sp @ cs \<Longrightarrow> cblevel s = 0 \<Longrightarrow> sblevel s = 0 \<Longrightarrow> 0 < vl \<Longrightarrow>
   \<exists>d s'. attoHTTPParseJSONParam_loop E (locals_at c name nl val vl) s =
      attoHTTPParseJSONParam_loop E (locals_at d name nl val vl) s' \<and> rds s s' \<and> inp s' = cs"
proof (induction sp arbitrary: c s)
  case Nil
  then show ?case by (intro exI [of _ c] exI [of _ s]) simp
next
  case (Cons a sp)
  have a: "isspace a" "spaces sp" "a \<noteq> NUL" using Cons.prems(1) by (auto simp: spaces_def)
  have i: "inp s = a # (sp @ cs)" using Cons.prems(2) by simp
  obtain s1 where 1: "rds s s1" "inp s1 = sp @ cs"
    "\<And>p. attoHTTPParseJSONParam_loop E p s = rbind (json_step a (p\<lparr>jp_c := a\<rparr>) s1) (\<lambda>(p, s). json_more E p s)"
    by (rule loop_next [OF i a(3)]) (rule that)
  have b: "cblevel s1 = 0" "sblevel s1 = 0" using Cons.prems(3,4) reads_fields [OF 1(1)] by simp_all
  have l: "attoHTTPParseJSONParam_loop E (locals_at c name nl val vl) s =
      attoHTTPParseJSONParam_loop E (locals_at a name nl val vl) s1"
    using step_outer_space [OF b a(1)] Cons.prems(5) by (simp add: 1(3) locals_char) (simp add: locals_at_def)
  from Cons.IH [OF a(2) 1(2) b Cons.prems(5)] obtain d s' where
    "attoHTTPParseJSONParam_loop E (locals_at a name nl val vl) s1 =
      attoHTTPParseJSONParam_loop E (locals_at d name nl val vl) s'" "rds s1 s'" "inp s' = cs" by blast
  with l reads_trans [OF 1(1)] show ?case by auto
qed

text \<open>From the start of a call to the text of the item.\<close>

lemma reach_item:
  assumes "at_text pending arr s x" and "0 < vl"
  shows "\<exists>d s'. attoHTTPParseJSONParam_loop E (locals_at c name nl val vl) s =
      attoHTTPParseJSONParam_loop E (locals_at d name nl val vl) s' \<and> inside arr Flat s' \<and> same_count s s' \<and> inp s' = x"
  using assms(1) unfolding at_text_def
proof (elim disjE conjE exE)
  assume "inside arr Flat s" "inp s = x"
  then show ?thesis by (intro exI [of _ c] exI [of _ s]) simp
next
  fix sp
  assume b: "body_start s" and sp: "spaces sp" "inp s = sp @ open_mark arr # x"
  obtain d s1 where 1: "attoHTTPParseJSONParam_loop E (locals_at c name nl val vl) s =
      attoHTTPParseJSONParam_loop E (locals_at d name nl val vl) s1" "rds s s1" "inp s1 = open_mark arr # x"
    using outer_spaces [OF sp _ _ assms(2), of c name nl val] b by (auto simp: body_start_def)
  have o: "open_mark arr \<noteq> NUL" by (simp add: open_mark_def)
  obtain s2 where 2: "rds s1 s2" "inp s2 = x"
    "\<And>p. attoHTTPParseJSONParam_loop E p s1 =
      rbind (json_step (open_mark arr) (p\<lparr>jp_c := open_mark arr\<rparr>) s2) (\<lambda>(p, s). json_more E p s)"
    by (rule loop_next [OF 1(3) o]) (rule that)
  have r: "rds s s2" by (rule reads_trans [OF 1(2) 2(1)])
  have b2: "body_start s2" using b reads_fields [OF r] by (simp add: body_start_def)
  let ?s = "with_levels arr Flat (s2\<lparr>baselevel := open_mark arr\<rparr>)"
  have "attoHTTPParseJSONParam_loop E (locals_at c name nl val vl) s =
      attoHTTPParseJSONParam_loop E (locals_at (open_mark arr) name nl val vl) ?s"
    using assms(2) by (simp add: 1(1) 2(3) step_open [OF b2] locals_char) (simp add: locals_at_def)
  moreover have "same_count s ?s"
    using reads_json(2) [OF r] by (simp add: same_count_def same_request_def with_levels_def)
  moreover have "inp ?s = x" using 2(2) by (simp add: input_of_levels)
  ultimately show ?thesis using inside_open by blast
qed

text \<open>The comma or bracket behind an item.\<close>

lemma item_end:
  assumes "inside arr Flat s" and "inp s = e # cs" and "e = CHR '','' \<or> e = close_mark arr"
  obtains s' where "attoHTTPParseJSONParam_loop E p s = returns (p\<lparr>jp_c := e, jp_stop := True\<rparr>, s')"
    and "same_count s s'" and "after_item pending arr e cs s'"
proof -
  have "e \<noteq> NUL" using assms(3) by (auto simp: close_mark_def split: if_splits)
  obtain s1 where r: "rds s s1" "inp s1 = cs" "extra_c s1 \<le> 0"
    "\<And>p. attoHTTPParseJSONParam_loop E p s = rbind (json_step e (p\<lparr>jp_c := e\<rparr>) s1) (\<lambda>(p, s). json_more E p s)"
    by (rule loop_next [OF assms(2) \<open>e \<noteq> NUL\<close>]) (rule that)
  have i: "inside arr Flat s1" using reads_json(1) [OF r(1)] assms(1) by simp
  note c = reads_json(2) [OF r(1)]
  consider "e = CHR '',''" | "e = CHR '']''" "arr = True" | "e = CHR ''}''" "arr = False"
    using assms(3) by (cases arr) (auto simp: close_mark_def)
  then show ?thesis
  proof cases
    case 1
    with i c r(2) show ?thesis
      by (intro that [of s1]) (simp_all add: r(4) step_comma after_item_def)
  next
    case 2
    let ?s = "s1\<lparr>sblevel := 0\<rparr>"
    have "inp ?s = cs" using r(2) by (auto simp: input_of_def)
    with 2 i c show ?thesis
      by (intro that [of ?s])
        (simp_all add: r(4) step_close_array after_item_def open_mark_def inside_def same_count_def same_request_def)
  next
    case 3
    let ?s = "attoHTTPPushC (CHR ''}'') (s1\<lparr>cblevel := 0\<rparr>)"
    have "inp (s1\<lparr>cblevel := 0\<rparr>) = cs" "extra_c (s1\<lparr>cblevel := 0\<rparr>) \<le> 0"
      using r(2,3) by (simp_all add: input_of_def)
    then have "inp ?s = CHR ''}'' # cs" by (simp add: input_of_pushC)
    with 3 i c show ?thesis
      by (intro that [of ?s])
        (simp_all add: r(4) step_close_object after_item_def open_mark_def inside_def same_count_def same_request_def)
  qed
qed

text \<open>A call up to the end of a flat item.\<close>

lemma call_item:
  assumes at: "at_text pending arr s (w @ e # cs)" and w: "scan arr scan_start w = Some (st, n, v)" "sc_nest st = Flat"
    and e: "e = CHR '','' \<or> e = close_mark arr"
    and len: "0 < nl" "0 < vl" "nl \<le> length name" "vl \<le> length val"
  obtains q s' where "attoHTTPParseJSONParam E name nl val vl s = json_finish nl vl q s'"
    and "got n v (locals_at NUL name nl val vl) q" and "follows (st) (q\<lparr>jp_stop := False\<rparr>)"
    and "same_count s s'" and "after_item pending arr e cs s'"
proof -
  let ?p = "\<lambda>c. locals_at c name nl val vl"
  obtain d s1 where 1: "attoHTTPParseJSONParam_loop E (?p (junk E ParseJSONParam_c 0 (io s))) s =
      attoHTTPParseJSONParam_loop E (?p d) s1" "inside arr Flat s1" "same_count s s1" "inp s1 = w @ e # cs"
    using reach_item [OF at len(2)] by blast
  have st: "sc_nest scan_start = Flat" by (simp add: scan_start_def)
  obtain q s2 where 2: "attoHTTPParseJSONParam_loop E (?p d) s1 = attoHTTPParseJSONParam_loop E q s2"
    "inside arr Flat s2" "follows st q" "same_count s1 s2" "inp s2 = e # cs" "got n v (?p d) q"
    using scan_run [OF w(1) 1(4) _ follows_start [OF len]] 1(2) w(2) got_Nil
    by (simp add: st) (metis append_Nil2)
  obtain s3 where 3: "attoHTTPParseJSONParam_loop E q s2 = returns (q\<lparr>jp_c := e, jp_stop := True\<rparr>, s3)"
    "same_count s2 s3" "after_item pending arr e cs s3"
    by (rule item_end [OF 2(2,5) e]) (rule that)
  have "got n v (?p NUL) (q\<lparr>jp_c := e, jp_stop := True\<rparr>)"
    using 2(6) by (simp add: got_def locals_at_def)
  moreover have "follows st (q\<lparr>jp_c := e, jp_stop := False\<rparr>)" using 2(3) by (simp add: follows_def)
  moreover have "same_count s s3" using 1(3) 2(4) 3(2) same_count_trans by blast
  ultimately show ?thesis
    by (intro that [of "q\<lparr>jp_c := e, jp_stop := True\<rparr>" s3]) (use 1(1) 2(1) 3 in \<open>simp_all add: call_unfold\<close>)
qed

text \<open>
  The brace that ends a nested object is stored and ends the call, so the comma behind it is left
  for the next one.
\<close>

lemma nested_end:
  assumes "inside arr InObject s" and "inp s = CHR ''}'' # cs" and "follows st p"
  obtains q s' where "attoHTTPParseJSONParam_loop E p s = returns (q, s')" and "follows st (q\<lparr>jp_stop := False\<rparr>)"
    and "got (if sc_divided st then [] else ''}'') (if sc_divided st then ''}'' else []) p q"
    and "same_count s s'" and "inside arr Flat s'" and "inp s' = cs"
proof -
  obtain s1 where r: "rds s s1" "inp s1 = cs" "extra_c s1 \<le> 0"
    "\<And>p. attoHTTPParseJSONParam_loop E p s =
      rbind (json_step (CHR ''}'') (p\<lparr>jp_c := CHR ''}''\<rparr>) s1) (\<lambda>(p, s). json_more E p s)"
    by (rule loop_next [OF assms(2)]) (simp, rule that)
  have i: "inside arr InObject s1" using reads_json(1) [OF r(1)] assms(1) by simp
  let ?p = "p\<lparr>jp_c := CHR ''}''\<rparr>" and ?s = "with_levels arr Flat s1"
  have step: "json_step (CHR ''}'') ?p s1 =
      rbind (json_put (CHR ''}'') ?p) (\<lambda>q. returns (q\<lparr>jp_stop := True\<rparr>, ?s))"
    using i two_one
    by (cases arr) (simp_all add: inside_def json_step_def json_nesting_def with_levels_def isspace_not levels_same)
  have f: "follows st ?p" using assms(3) by (simp add: follows_char)
  obtain q where q: "json_put (CHR ''}'') ?p = returns q" "follows st q"
    "got (if sc_divided st then [] else ''}'') (if sc_divided st then ''}'' else []) ?p q"
  proof (cases "sc_divided st")
    case True
    obtain q where q: "json_put (CHR ''}'') ?p = returns q" "follows st q"
      "\<And>v r. got [] v q r \<Longrightarrow> got [] (CHR ''}'' # v) ?p r"
      by (rule put_value [OF f True]) (rule that)
    show ?thesis by (rule that [of q]) (use q(1,2) q(3) [OF got_Nil] True in simp_all)
  next
    case False
    obtain q where q: "json_put (CHR ''}'') ?p = returns q" "follows st q"
      "\<And>n v r. got n v q r \<Longrightarrow> got (CHR ''}'' # n) v ?p r"
      by (rule put_name [OF f False]) (rule that)
    show ?thesis by (rule that [of q]) (use q(1,2) q(3) [OF got_Nil] False in simp_all)
  qed
  have l: "attoHTTPParseJSONParam_loop E p s = returns (q\<lparr>jp_stop := True\<rparr>, ?s)"
    by (simp add: r(4) step q(1))
  have g: "got n v p (q\<lparr>jp_stop := True\<rparr>) = got n v ?p q" for n v
    by (simp add: got_def)
  have g': "follows st (q\<lparr>jp_stop := True, jp_stop := False\<rparr>)" using q(2) by (simp add: follows_def)
  show ?thesis
    by (rule that [OF l g' _ same_count_levels [OF reads_json(2) [OF r(1)]]])
      (use q(3) r(2) inside_with_levels [OF i] in \<open>simp_all add: g input_of_levels\<close>)
qed

lemma call_nested:
  assumes at: "at_text pending arr s (w @ CHR ''}'' # cs)"
    and w: "scan arr scan_start w = Some (st, n, v)" "sc_nest st = InObject"
    and len: "0 < nl" "0 < vl" "nl \<le> length name" "vl \<le> length val"
  obtains q s' where "attoHTTPParseJSONParam E name nl val vl s = json_finish nl vl q s'"
    and "got (n @ (if sc_divided st then [] else ''}'')) (v @ (if sc_divided st then ''}'' else []))
      (locals_at NUL name nl val vl) q"
    and "follows st (q\<lparr>jp_stop := False\<rparr>)" and "same_count s s'" and "inside arr Flat s'" and "inp s' = cs"
proof -
  let ?p = "\<lambda>c. locals_at c name nl val vl"
  obtain d s1 where 1: "attoHTTPParseJSONParam_loop E (?p (junk E ParseJSONParam_c 0 (io s))) s =
      attoHTTPParseJSONParam_loop E (?p d) s1" "inside arr Flat s1" "same_count s s1" "inp s1 = w @ CHR ''}'' # cs"
    using reach_item [OF at len(2)] by blast
  have st: "sc_nest scan_start = Flat" by (simp add: scan_start_def)
  obtain q s2 where 2: "attoHTTPParseJSONParam_loop E (?p d) s1 = attoHTTPParseJSONParam_loop E q s2"
    "inside arr InObject s2" "follows st q" "same_count s1 s2" "inp s2 = CHR ''}'' # cs"
    "\<forall>n' v' r. (sc_divided st \<longrightarrow> n' = []) \<longrightarrow> got n' v' q r \<longrightarrow> got (n @ n') (v @ v') (?p d) r"
    using scan_run [OF w(1) 1(4) _ follows_start [OF len]] 1(2) w(2) by (simp add: st) metis
  obtain r s3 where 3: "attoHTTPParseJSONParam_loop E q s2 = returns (r, s3)" "follows st (r\<lparr>jp_stop := False\<rparr>)"
    "got (if sc_divided st then [] else ''}'') (if sc_divided st then ''}'' else []) q r"
    "same_count s2 s3" "inside arr Flat s3" "inp s3 = cs"
    by (rule nested_end [OF 2(2,5,3)]) (rule that)
  have "got (n @ (if sc_divided st then [] else ''}'')) (v @ (if sc_divided st then ''}'' else [])) (?p d) r"
    using 2(6) 3(3) by simp
  then have "got (n @ (if sc_divided st then [] else ''}'')) (v @ (if sc_divided st then ''}'' else [])) (?p NUL) r"
    by (simp add: got_def locals_at_def)
  moreover have "same_count s s3" using 1(3) 2(4) 3(4) same_count_trans by blast
  ultimately show ?thesis
    by (intro that [of r s3]) (use 1(1) 2(1) 3 in \<open>simp_all add: call_unfold\<close>)
qed

end

text \<open>What a call returns for what it has collected.\<close>

lemma finish_named:
  assumes "got n v (locals_at c name nl val vl) q" and "follows st (q\<lparr>jp_stop := False\<rparr>)" and "sc_divided st"
    and "0 < nl" "0 < vl" "nl \<le> length name" "vl \<le> length val"
  shows "json_finish nl vl q s =
    returns (True, splice name 0 (take (nl - 1) n @ [NUL]), splice val 0 (take (vl - 1) v @ [NUL]), s)"
  using assms splice_snoc [of 0 "take (nl - 1) n" name NUL] splice_snoc [of 0 "take (vl - 1) v" val NUL]
  by (simp add: json_finish_def got_def locals_at_def follows_def)

lemma finish_nothing:
  assumes "got [] [] (locals_at c name nl val vl) q" and "follows st (q\<lparr>jp_stop := False\<rparr>)" and "\<not> sc_divided st"
    and "name \<noteq> []" "val \<noteq> []"
  shows "json_finish nl vl q s = returns (False, name[0 := NUL], val[0 := NUL], s)"
  using assms by (simp add: json_finish_def got_def locals_at_def follows_def)

lemma show_nat_no_NUL: "NUL \<notin> set (show_nat n)"
proof (induction n rule: show_nat.induct)
  case (1 n)
  have "char_of (48 + d :: nat) \<noteq> NUL" if "d < 10" for d
  proof
    assume "char_of (48 + d :: nat) = NUL"
    then have "of_char (char_of (48 + d :: nat)) = (of_char NUL :: nat)" by simp
    with that show False by simp
  qed
  from this [of n] this [of "n mod 10"] 1 show ?case
    by (subst show_nat.simps) (auto simp del: char_of_eq_iff)
qed

text \<open>
  A nameless item: it was collected in the name buffer, so it is cut to that buffer before it is copied
  to the value.
\<close>

lemma finish_nameless:
  assumes "got n [] (locals_at c name nl val vl) q" and "follows st (q\<lparr>jp_stop := False\<rparr>)" and "\<not> sc_divided st"
    and "n \<noteq> []" "NUL \<notin> set n" "1 < nl" "length n < vl \<or> nl \<le> vl" "nl \<le> length name" "vl \<le> length val"
  obtains name' val' where "json_finish nl vl q s = returns (True, name', val', s\<lparr>counter := counter s + 1\<rparr>)"
    and "length name' = length name" and "length val' = length val"
    and "strz name' = take (nl - 1) (show_nat (unat (counter s)))" and "strz val' = take (nl - 1) n"
proof -
  define m where "m = take (nl - 1) n"
  have m: "m \<noteq> []" "NUL \<notin> set m" "length m < nl" "length m < vl"
    using assms(4-7) unfolding m_def by (auto dest: in_set_takeD)
  have z: "strz (splice name 0 (m @ [NUL])) = m" "terminated (splice name 0 (m @ [NUL]))"
    using m(2) by (simp_all add: splice_def terminated_def)
  have q: "jp_divider q = False" "jp_i q = length m" "jp_name q = splice name 0 m" "jp_j q = 0" "jp_value q = val"
    using assms(1-3) by (simp_all add: got_def locals_at_def follows_def m_def)
  have vn: "val \<noteq> []" using m(4) assms(9) by auto
  have v: "strncpy (val[0 := NUL]) (splice name 0 (m @ [NUL])) vl =
      returns (m @ replicate (vl - length m) NUL @ drop vl (val[0 := NUL]))"
    using m(4) assms(9) z by (simp add: strncpy_def readable_def)
  let ?t = "take (nl - 1) (show_nat (unat (counter s)))"
  let ?n = "?t @ NUL # drop (Suc (min (length (show_nat (unat (counter s)))) (nl - 1))) (splice name 0 (m @ [NUL]))"
  have l: "length (splice name 0 (m @ [NUL])) = length name" using m(3) assms(8) by simp
  have u: "show_int (uint (counter s)) = show_nat (unat (counter s))"
    by (simp add: show_int_def)
  have s: "snprintf (splice name 0 (m @ [NUL])) nl (show_int (uint (counter s))) = returns ?n"
    using m(3) assms(8) l by (auto simp: snprintf_def u)
  have "length ?n = length name" using length_snprintf [OF s] l by simp
  moreover have "NUL \<notin> set ?t" using show_nat_no_NUL by (metis in_set_takeD)
  then have "strz ?n = ?t" by simp
  moreover have "strz (m @ replicate (vl - length m) NUL @ drop vl (val[0 := NUL])) = m"
    using m(2,4) by (cases "vl - length m") simp_all
  moreover have "json_finish nl vl q s =
      returns (True, ?n, m @ replicate (vl - length m) NUL @ drop vl (val[0 := NUL]), s\<lparr>counter := counter s + 1\<rparr>)"
    using m assms(8,9) v s splice_snoc [of 0 m name NUL] vn by (simp add: json_finish_def q)
  ultimately show ?thesis using m(4) assms(9) by (intro that) (simp_all add: m_def)
qed

section \<open>Calls and their results\<close>

context byte_source
begin

text \<open>A member: its name and its value.\<close>

lemma call_member:
  assumes "at_text pending False s (member_text m @ e # cs)" and "e = CHR '','' \<or> e = CHR ''}''" and m: "member_ok m"
    and len: "0 < nl" "0 < vl" "nl \<le> length name" "vl \<le> length val"
  obtains s' where "attoHTTPParseJSONParam E name nl val vl s =
      returns (True, splice name 0 (take (nl - 1) (jvalue_chars (jm_name m)) @ [NUL]),
        splice val 0 (take (vl - 1) (jvalue_chars (jm_value m)) @ [NUL]), s')"
    and "same_request s s'" and "after_item pending False e cs s'"
proof -
  have e: "e = CHR '','' \<or> e = close_mark False" using assms(2) by (simp add: close_mark_def)
  obtain q s' where 1: "attoHTTPParseJSONParam E name nl val vl s = json_finish nl vl q s'"
    "got (jvalue_chars (jm_name m)) (jvalue_chars (jm_value m)) (locals_at NUL name nl val vl) q"
    "follows (scan_start\<lparr>sc_divided := True\<rparr>) (q\<lparr>jp_stop := False\<rparr>)"
    "same_count s s'" "after_item pending False e cs s'"
    by (rule call_item [OF assms(1) scan_member [OF m] _ e len]) (simp add: scan_start_def, rule that)
  show ?thesis
    by (rule that [of s']) (use 1 finish_named [OF 1(2,3) _ len] in \<open>simp_all add: same_count_request\<close>)
qed

text \<open>An item of an array: a running number and its value.\<close>

lemma call_element:
  assumes "at_text pending True s (item_text x @ e # cs)" and "e = CHR '','' \<or> e = CHR '']''" and x: "item_ok x"
    and fit: "1 < nl" "length (item_chars x) < vl \<or> nl \<le> vl"
    and len: "nl \<le> length name" "vl \<le> length val"
  obtains name' val' s' where "attoHTTPParseJSONParam E name nl val vl s = returns (True, name', val', s')"
    and "length name' = length name" and "length val' = length val"
    and "strz name' = take (nl - 1) (show_nat (unat (counter s)))" and "strz val' = take (nl - 1) (item_chars x)"
    and "same_request s s'" and "counter s' = counter s + 1" and "after_item pending True e cs s'"
proof -
  have e: "e = CHR '','' \<or> e = close_mark True" using assms(2) by (simp add: close_mark_def)
  have pos: "0 < nl" "0 < vl" using fit by auto
  have st: "sc_nest scan_start = Flat" "\<not> sc_divided scan_start" by (simp_all add: scan_start_def)
  obtain q t where 1: "attoHTTPParseJSONParam E name nl val vl s = json_finish nl vl q t"
    "got (item_chars x) [] (locals_at NUL name nl val vl) q" "follows scan_start (q\<lparr>jp_stop := False\<rparr>)"
    "same_count s t" "after_item pending True e cs t"
    by (rule call_item [OF assms(1) scan_item [OF x] st(1) e pos len]) (rule that)
  have n: "item_chars x \<noteq> []" "NUL \<notin> set (item_chars x)"
    using x by (auto simp: item_ok_def item_chars_def jvalue_chars_no_NUL split: prod.splits)
  obtain name' val' where 2: "json_finish nl vl q t = returns (True, name', val', t\<lparr>counter := counter t + 1\<rparr>)"
    "length name' = length name" "length val' = length val"
    "strz name' = take (nl - 1) (show_nat (unat (counter t)))" "strz val' = take (nl - 1) (item_chars x)"
    by (rule finish_nameless [OF 1(2,3) st(2) n fit len]) (rule that)
  have c: "counter t = counter s" "same_request s t" using 1(4) by (simp_all add: same_count_def)
  have "after_item pending True e cs (t\<lparr>counter := counter t + 1\<rparr>)"
    using 1(5) by (auto simp: after_item_def inside_def input_of_levels split: if_splits)
  then show ?thesis
    by (intro that [of name' val' "t\<lparr>counter := counter t + 1\<rparr>"])
      (use 1(1) 2 c in \<open>simp_all add: same_request_def\<close>)
qed

text \<open>Calls that find nothing.\<close>

lemma call_collects_nothing:
  assumes "at_text pending arr s (w @ e # cs)" and "scan arr scan_start w = Some (scan_start, [], [])" and "e = CHR '','' \<or> e = close_mark arr"
    and len: "0 < nl" "0 < vl" "nl \<le> length name" "vl \<le> length val"
  obtains s' where "attoHTTPParseJSONParam E name nl val vl s = returns (False, name[0 := NUL], val[0 := NUL], s')"
    and "same_count s s'" and "after_item pending arr e cs s'"
proof -
  have w: "scan arr scan_start w = Some (scan_start, [], [])" "sc_nest scan_start = Flat" "\<not> sc_divided scan_start"
    using assms(2) by (simp_all add: scan_start_def)
  obtain q t where 1: "attoHTTPParseJSONParam E name nl val vl s = json_finish nl vl q t"
    "got [] [] (locals_at NUL name nl val vl) q" "follows scan_start (q\<lparr>jp_stop := False\<rparr>)"
    "same_count s t" "after_item pending arr e cs t"
    by (rule call_item [OF assms(1) w(1,2) assms(3) len]) (rule that)
  have "name \<noteq> []" "val \<noteq> []" using len by auto
  from finish_nothing [OF 1(2,3) w(3) this] 1 show ?thesis by (intro that [of t]) simp_all
qed

lemma call_nothing:
  assumes "at_text pending arr s (w @ e # cs)" and "spaces w" and "e = CHR '','' \<or> e = close_mark arr"
    and "0 < nl" "0 < vl" "nl \<le> length name" "vl \<le> length val"
  obtains s' where "attoHTTPParseJSONParam E name nl val vl s = returns (False, name[0 := NUL], val[0 := NUL], s')"
    and "same_count s s'" and "after_item pending arr e cs s'"
proof -
  have w: "scan arr scan_start w = Some (scan_start, [], [])" using assms(2) by (simp add: scan_spaces scan_start_def)
  show thesis by (rule call_collects_nothing [OF assms(1) w assms(3-)]) (rule that)
qed

text \<open>An empty string in an array: the call returns 0, so a caller stops there, whatever follows.\<close>

lemma call_empty_element:
  assumes "at_text pending True s (sp @ CHR 0x22 # CHR 0x22 # e # cs)" and "spaces sp" and "e = CHR '','' \<or> e = CHR '']''"
    and "0 < nl" "0 < vl" "nl \<le> length name" "vl \<le> length val"
  obtains s' where "attoHTTPParseJSONParam E name nl val vl s = returns (False, name[0 := NUL], val[0 := NUL], s')"
    and "after_item pending True e cs s'"
proof -
  have at: "at_text pending True s ((sp @ [CHR 0x22, CHR 0x22]) @ e # cs)" using assms(1) by simp
  have e: "e = CHR '','' \<or> e = close_mark True" using assms(3) by (simp add: close_mark_def)
  have "scan True scan_start sp = Some (scan_start, [], [])" using assms(2) by (simp add: scan_spaces scan_start_def)
  then have w: "scan True scan_start (sp @ [CHR 0x22, CHR 0x22]) = Some (scan_start, [], [])"
    by (simp add: scan_append) (simp add: scan_step_def scan_start_def isspace_not)
  show thesis by (rule call_collects_nothing [OF at w e assms(4-)]) (rule that)
qed

text \<open>After the end of an object a call sees its closing brace again; the level wraps around.\<close>

lemma call_closed_object:
  assumes "after_item pending False (CHR ''}'') cs s" and "0 < nl" and "name \<noteq> []" and "val \<noteq> []"
  obtains s' where "attoHTTPParseJSONParam E name nl val vl s = returns (False, name[0 := NUL], val[0 := NUL], s')"
    and "cblevel s' = 255"
proof -
  have i: "inp s = CHR ''}'' # cs" using assms(1) by (simp add: after_item_def)
  obtain s1 where 1: "rds s s1"
    "\<And>p. attoHTTPParseJSONParam_loop E p s =
      rbind (json_step (CHR ''}'') (p\<lparr>jp_c := CHR ''}''\<rparr>) s1) (\<lambda>(p, s). json_more E p s)"
    by (rule loop_next [OF i]) (simp, rule that)
  have "cblevel s1 = 0" "sblevel s1 = 0" "baselevel s1 = CHR ''{''"
    using assms(1) reads_fields [OF 1(1)] by (simp_all add: after_item_def open_mark_def)
  then have "json_step (CHR ''}'') p s1 =
      returns (p\<lparr>jp_stop := True\<rparr>, attoHTTPPushC (CHR ''}'') (s1\<lparr>cblevel := 255\<rparr>))" for p
    by (simp add: json_step_def isspace_not)
  then show ?thesis
    using assms(2-4)
    by (intro that [of "attoHTTPPushC (CHR ''}'') (s1\<lparr>cblevel := 255\<rparr>)"])
      (simp_all add: call_unfold 1(2) json_finish_def locals_at_def)
qed

text \<open>After the end of an array a call reads white space up to the end of the input.\<close>

lemma call_closed_array:
  assumes "after_item pending True (CHR '']'') cs s" and "spaces cs" and "0 < nl" "0 < vl" and "name \<noteq> []" and "val \<noteq> []"
  shows "\<exists>s'. attoHTTPParseJSONParam E name nl val vl s = returns (False, name[0 := NUL], val[0 := NUL], s')"
proof -
  have i: "inp s = cs @ []" "cblevel s = 0" "sblevel s = 0" using assms(1) by (simp_all add: after_item_def)
  obtain d s1 where 1: "attoHTTPParseJSONParam_loop E (locals_at (junk E ParseJSONParam_c 0 (io s)) name nl val vl) s =
      attoHTTPParseJSONParam_loop E (locals_at d name nl val vl) s1" "inp s1 = []"
    using outer_spaces [OF assms(2) i assms(4)] by blast
  obtain s2 oc where 2: "\<And>c0. attoHTTPReadC E c0 s1 = returns (0, case oc of None \<Rightarrow> c0 | Some b \<Rightarrow> b, s2)"
    by (rule ReadC_Nil [OF 1(2)]) (rule that)
  show ?thesis
    using assms(3-6)
    by (simp add: call_unfold 1(1)) (subst attoHTTPParseJSONParam_loop.simps, simp add: 2 json_finish_def locals_at_def)
qed

end

end
