(* ===== verification/JsonRead.thy ===== *)
theory JsonRead
  imports JsonCall Params
begin

text \<open>
  The parameters that a REST callback reads from a JSON body by calling \<^verbatim>\<open>attoHTTPParseParam\<close> of
  \<^verbatim>\<open>src/src/attohttp.c\<close> until it returns 0: the members of an object, the elements of an array, and
  where reading stops too early.
\<close>

section \<open>What is read\<close>

text \<open>The state in which a body is read as JSON.\<close>

definition json_request :: "'io http \<Rightarrow> bool" where
  "json_request s \<longleftrightarrow> http_method s \<in> {METHOD_POST, METHOD_PUT, METHOD_PATCH, METHOD_DELETE} \<and>
     contenttype s \<noteq> APPLICATION_XWWWFORMURLENCODED"

lemma json_request_same: "same_request s s' \<Longrightarrow> json_request s' = json_request s"
  by (simp add: json_request_def same_request_def)

text \<open>
  A member as it fits into buffers of \<open>nl\<close> and \<open>vl\<close> bytes, and the numbered elements of an array. An element
  passes through the name buffer on its way to the value, so it is cut to the former; the copy to the
  value has a terminator if the element, so cut, leaves room for it (\<open>item_fits\<close>).
\<close>

definition member_pair :: "nat \<Rightarrow> nat \<Rightarrow> jmember \<Rightarrow> string \<times> string" where
  "member_pair nl vl m = (take (nl - 1) (jvalue_chars (jm_name m)), take (vl - 1) (jvalue_chars (jm_value m)))"

fun numbered :: "nat \<Rightarrow> 8 word \<Rightarrow> jitem list \<Rightarrow> (string \<times> string) list" where
  "numbered nl c [] = []"
| "numbered nl c (x # xs) = (take (nl - 1) (show_nat (unat c)), take (nl - 1) (item_chars x)) # numbered nl (c + 1) xs"

definition item_fits :: "nat \<Rightarrow> nat \<Rightarrow> jitem \<Rightarrow> bool" where
  "item_fits nl vl x \<longleftrightarrow> item_ok x \<and> 1 < nl \<and> (length (item_chars x) < vl \<or> nl \<le> vl)"

lemma ParseParam_json:
  assumes "json_request s" and "name \<noteq> []" and "val \<noteq> []"
  shows "attoHTTPParseParam E name nl val vl s =
    attoHTTPParseJSONParam E (name[0 := NUL]) (unat nl) (val[0 := NUL]) (unat vl) s"
  using assms by (auto simp: attoHTTPParseParam_def json_request_def)

section \<open>One parameter after the other\<close>

text \<open>The buffers of a caller.\<close>

definition buffers :: "string \<Rightarrow> 8 word \<Rightarrow> string \<Rightarrow> 8 word \<Rightarrow> bool" where
  "buffers name nl val vl \<longleftrightarrow> unat nl \<le> length name \<and> unat vl \<le> length val \<and> 0 < nl \<and> 0 < vl"

lemma buffers_facts:
  assumes "buffers name nl val vl"
  shows "name \<noteq> []" "val \<noteq> []" "0 < unat nl" "0 < unat vl"
    "unat nl \<le> length (name[0 := NUL])" "unat vl \<le> length (val[0 := NUL])"
  using assms by (auto simp: buffers_def word_less_nat_alt)

context byte_source
begin

lemma after_comma: "after_item pending arr (CHR '','') cs s \<Longrightarrow> at_text pending arr s cs"
  by (simp add: after_item_def at_text_def)

lemma read_stop:
  assumes "json_request s" and "buffers name nl val vl"
    and "\<exists>n v s'. attoHTTPParseJSONParam E (name[0 := NUL]) (unat nl) (val[0 := NUL]) (unat vl) s = returns (False, n, v, s')"
  shows "\<exists>s'. read_params E (Suc k) name nl val vl s = returns ([], s')"
  using assms(3) by (auto simp: ParseParam_json [OF assms(1) buffers_facts(1,2) [OF assms(2)]])

lemma read_member:
  assumes at: "at_text pending False s (member_text m @ e # cs)" and e: "e = CHR '','' \<or> e = CHR ''}''" and m: "member_ok m"
    and buf: "buffers name nl val vl" and r: "json_request s"
  obtains name' val' s' where "read_params E (Suc k) name nl val vl s =
      rbind (read_params E k name' nl val' vl s') (\<lambda>(ps, s). returns (member_pair (unat nl) (unat vl) m # ps, s))"
    and "buffers name' nl val' vl" and "json_request s'" and "after_item pending False e cs s'"
proof -
  note b = buffers_facts [OF buf]
  let ?x = "take (unat nl - 1) (jvalue_chars (jm_name m))" and ?y = "take (unat vl - 1) (jvalue_chars (jm_value m))"
  let ?n = "splice (name[0 := NUL]) 0 (?x @ [NUL])" and ?v = "splice (val[0 := NUL]) 0 (?y @ [NUL])"
  obtain s' where 1: "attoHTTPParseJSONParam E (name[0 := NUL]) (unat nl) (val[0 := NUL]) (unat vl) s = returns (True, ?n, ?v, s')"
    "same_request s s'" "after_item pending False e cs s'"
    by (rule call_member [OF at e m b(3-)]) (rule that)
  have "attoHTTPParseParam E name nl val vl s = returns (True, ?n, ?v, s')"
    using 1(1) by (simp add: ParseParam_json [OF r b(1,2)])
  moreover have "NUL \<notin> set ?x" "NUL \<notin> set ?y"
    using m jvalue_chars_no_NUL in_set_takeD by (fastforce simp: member_ok_def name_ok_def)+
  ultimately have "read_params E (Suc k) name nl val vl s =
      rbind (read_params E k ?n nl ?v vl s') (\<lambda>(ps, s). returns (member_pair (unat nl) (unat vl) m # ps, s))"
    unfolding member_pair_def by (rule read_params_found)
  moreover have "length (?x @ [NUL]) \<le> length name" "length (?y @ [NUL]) \<le> length val" using b(3-6) by auto
  then have "buffers ?n nl ?v vl" using buf by (simp add: buffers_def)
  ultimately show ?thesis
    using that 1(2,3) r json_request_same by blast
qed

text \<open>The members of an object, up to the end of its text.\<close>

lemma read_members:
  "\<forall>m \<in> set ms. member_ok m \<Longrightarrow> buffers name nl val vl \<Longrightarrow> json_request s \<Longrightarrow>
   at_text pending False s (separated member_text ms @ CHR ''}'' # cs) \<Longrightarrow>
   \<exists>s'. read_params E (length ms + Suc k) name nl val vl s = returns (map (member_pair (unat nl) (unat vl)) ms, s')"
proof (induction ms arbitrary: name val s)
  case Nil
  note b = buffers_facts [OF Nil(2)]
  have at: "at_text pending False s ([] @ CHR ''}'' # cs)" using Nil(4) by simp
  have "\<exists>n v s'. attoHTTPParseJSONParam E (name[0 := NUL]) (unat nl) (val[0 := NUL]) (unat vl) s = returns (False, n, v, s')"
    by (rule call_nothing [OF at _ _ b(3-)]) (simp_all add: spaces_def close_mark_def)
  from read_stop [OF Nil(3,2) this] show ?case by simp
next
  case (Cons m ms)
  define e where "e = (if ms = [] then CHR ''}'' else CHR '','')"
  define r where "r = (if ms = [] then cs else separated member_text ms @ CHR ''}'' # cs)"
  have "separated member_text (m # ms) @ CHR ''}'' # cs = member_text m @ e # r"
    by (cases ms) (simp_all add: e_def r_def)
  then have at: "at_text pending False s (member_text m @ e # r)" using Cons.prems(4) by simp
  have e: "e = CHR '','' \<or> e = CHR ''}''" and m: "member_ok m" using Cons.prems(1) by (simp_all add: e_def)
  obtain n v s1 where 1: "read_params E (Suc (length ms + Suc k)) name nl val vl s =
      rbind (read_params E (length ms + Suc k) n nl v vl s1) (\<lambda>(ps, s). returns (member_pair (unat nl) (unat vl) m # ps, s))"
    "buffers n nl v vl" "json_request s1" "after_item pending False e r s1"
    by (rule read_member [OF at e m Cons.prems(2,3)]) (rule that)
  have "\<exists>s'. read_params E (length ms + Suc k) n nl v vl s1 = returns (map (member_pair (unat nl) (unat vl)) ms, s')"
  proof (cases "ms = []")
    case True
    note b = buffers_facts [OF 1(2)]
    have c: "after_item pending False (CHR ''}'') r s1" using 1(4) True by (simp add: e_def)
    have "\<exists>a b s'. attoHTTPParseJSONParam E (n[0 := NUL]) (unat nl) (v[0 := NUL]) (unat vl) s1 = returns (False, a, b, s')"
      by (rule call_closed_object [OF c b(3), of "n[0 := NUL]" "v[0 := NUL]" "unat vl"]) (use b in auto)
    from read_stop [OF 1(3,2) this] True show ?thesis by simp
  next
    case False
    then have "at_text pending False s1 (separated member_text ms @ CHR ''}'' # cs)"
      using 1(4) after_comma by (simp add: e_def r_def)
    from Cons.IH [OF _ 1(2,3) this] Cons.prems(1) show ?thesis by simp
  qed
  with 1(1) show ?case by auto
qed

text \<open>The elements of an array. The names are the numbers, which start again after 255.\<close>

lemma read_element:
  assumes at: "at_text pending True s (item_text x @ e # cs)" and e: "e = CHR '','' \<or> e = CHR '']''"
    and x: "item_fits (unat nl) (unat vl) x" and buf: "buffers name nl val vl" and r: "json_request s"
  obtains name' val' s' where "read_params E (Suc k) name nl val vl s =
      rbind (read_params E k name' nl val' vl s') (\<lambda>(ps, t).
        returns ((take (unat nl - 1) (show_nat (unat (counter s))), take (unat nl - 1) (item_chars x)) # ps, t))"
    and "buffers name' nl val' vl" and "json_request s'" and "counter s' = counter s + 1"
    and "after_item pending True e cs s'"
proof -
  note b = buffers_facts [OF buf]
  have f: "item_ok x" "1 < unat nl" "length (item_chars x) < unat vl \<or> unat nl \<le> unat vl"
    using x by (simp_all add: item_fits_def)
  obtain name' val' s' where 1:
    "attoHTTPParseJSONParam E (name[0 := NUL]) (unat nl) (val[0 := NUL]) (unat vl) s = returns (True, name', val', s')"
    "length name' = length (name[0 := NUL])" "length val' = length (val[0 := NUL])"
    "strz name' = take (unat nl - 1) (show_nat (unat (counter s)))" "strz val' = take (unat nl - 1) (item_chars x)"
    "same_request s s'" "counter s' = counter s + 1" "after_item pending True e cs s'"
    by (rule call_element [OF at e f b(5,6)]) (rule that)
  have "buffers name' nl val' vl" using buf 1(2,3) by (simp add: buffers_def)
  then show ?thesis
    by (rule that [of name' val' s', rotated]) (use 1 r b in \<open>simp_all add: ParseParam_json json_request_same\<close>)
qed

lemma read_elements:
  "\<forall>x \<in> set xs. item_fits (unat nl) (unat vl) x \<Longrightarrow> buffers name nl val vl \<Longrightarrow> json_request s \<Longrightarrow> spaces cs \<Longrightarrow>
   at_text pending True s (separated item_text xs @ CHR '']'' # cs) \<Longrightarrow>
   \<exists>s'. read_params E (length xs + Suc k) name nl val vl s = returns (numbered (unat nl) (counter s) xs, s')"
proof (induction xs arbitrary: name val s)
  case Nil
  note b = buffers_facts [OF Nil(2)]
  have at: "at_text pending True s ([] @ CHR '']'' # cs)" using Nil(5) by simp
  have "\<exists>n v s'. attoHTTPParseJSONParam E (name[0 := NUL]) (unat nl) (val[0 := NUL]) (unat vl) s = returns (False, n, v, s')"
    by (rule call_nothing [OF at _ _ b(3-)]) (simp_all add: spaces_def close_mark_def)
  from read_stop [OF Nil(3,2) this] show ?case by simp
next
  case (Cons x xs)
  define e where "e = (if xs = [] then CHR '']'' else CHR '','')"
  define r where "r = (if xs = [] then cs else separated item_text xs @ CHR '']'' # cs)"
  have "separated item_text (x # xs) @ CHR '']'' # cs = item_text x @ e # r"
    by (cases xs) (simp_all add: e_def r_def)
  then have at: "at_text pending True s (item_text x @ e # r)" using Cons.prems(5) by simp
  have e: "e = CHR '','' \<or> e = CHR '']''" and x: "item_fits (unat nl) (unat vl) x" using Cons.prems(1) by (simp_all add: e_def)
  obtain n v s1 where 1: "read_params E (Suc (length xs + Suc k)) name nl val vl s =
      rbind (read_params E (length xs + Suc k) n nl v vl s1) (\<lambda>(ps, t).
        returns ((take (unat nl - 1) (show_nat (unat (counter s))), take (unat nl - 1) (item_chars x)) # ps, t))"
    "buffers n nl v vl" "json_request s1" "counter s1 = counter s + 1" "after_item pending True e r s1"
    by (rule read_element [OF at e x Cons.prems(2,3)]) (rule that)
  have "\<exists>s'. read_params E (length xs + Suc k) n nl v vl s1 = returns (numbered (unat nl) (counter s1) xs, s')"
  proof (cases "xs = []")
    case True
    note b = buffers_facts [OF 1(2)]
    have c: "after_item pending True (CHR '']'') cs s1" using 1(5) True by (simp add: e_def r_def)
    have "\<exists>a b s'. attoHTTPParseJSONParam E (n[0 := NUL]) (unat nl) (v[0 := NUL]) (unat vl) s1 = returns (False, a, b, s')"
      using call_closed_array [OF c Cons.prems(4) b(3,4), of "n[0 := NUL]" "v[0 := NUL]"] b by auto
    from read_stop [OF 1(3,2) this] True show ?thesis by simp
  next
    case False
    then have "at_text pending True s1 (separated item_text xs @ CHR '']'' # cs)"
      using 1(5) after_comma by (simp add: e_def r_def)
    from Cons.IH [OF _ 1(2,3) Cons.prems(4) this] Cons.prems(1) show ?thesis by simp
  qed
  with 1(1,4) show ?case by auto
qed

text \<open>
  A nested object. It is returned as a text, but the comma behind it is not read, so the next call
  finds nothing, and what follows is never seen by a caller that stops there.
\<close>

lemma read_nested:
  assumes at: "at_text pending False s (name_text m @ CHR ''{'' # x @ CHR ''}'' # sp @ CHR '','' # cs)"
    and m: "name_ok m" and x: "list_all json_inner x" and sp: "spaces sp"
    and buf: "buffers name nl val vl" and r: "json_request s"
  shows "\<exists>s'. read_params E (Suc (Suc k)) name nl val vl s =
    returns ([(take (unat nl - 1) (jvalue_chars (jm_name m)), take (unat vl - 1) (CHR ''{'' # x @ ''}''))], s')"
proof -
  note b = buffers_facts [OF buf]
  let ?st = "scan_start\<lparr>sc_divided := True, sc_nest := InObject\<rparr>"
  let ?x = "take (unat nl - 1) (jvalue_chars (jm_name m))" and ?y = "take (unat vl - 1) (CHR ''{'' # x @ ''}'')"
  let ?n = "splice (name[0 := NUL]) 0 (?x @ [NUL])" and ?v = "splice (val[0 := NUL]) 0 (?y @ [NUL])"
  have at': "at_text pending False s ((name_text m @ CHR ''{'' # x) @ CHR ''}'' # (sp @ CHR '','' # cs))"
    using at by simp
  obtain q s1 where 1: "attoHTTPParseJSONParam E (name[0 := NUL]) (unat nl) (val[0 := NUL]) (unat vl) s =
      json_finish (unat nl) (unat vl) q s1"
    "got (jvalue_chars (jm_name m)) (CHR ''{'' # x @ ''}'') (locals_at NUL (name[0 := NUL]) (unat nl) (val[0 := NUL]) (unat vl)) q"
    "follows ?st (q\<lparr>jp_stop := False\<rparr>)" "same_count s s1" "inside False Flat s1" "inp s1 = sp @ CHR '','' # cs"
    by (rule call_nested [OF at' scan_nested [OF m x] _ b(3-)]) (simp, rule that, simp_all)
  have "attoHTTPParseParam E name nl val vl s = returns (True, ?n, ?v, s1)"
    using 1(1) finish_named [OF 1(2,3) _ b(3-)] by (simp add: ParseParam_json [OF r b(1,2)])
  moreover have "NUL \<notin> set (jvalue_chars (jm_name m))" "NUL \<notin> set (CHR ''{'' # x @ ''}'')"
    using m x by (auto simp: name_ok_def jvalue_chars_no_NUL list_all_iff json_inner_def)
  then have "NUL \<notin> set ?x" "NUL \<notin> set ?y" by (blast dest: in_set_takeD)+
  ultimately have 2: "read_params E (Suc (Suc k)) name nl val vl s =
      rbind (read_params E (Suc k) ?n nl ?v vl s1) (\<lambda>(ps, s). returns ((?x, ?y) # ps, s))"
    by (intro read_params_found)
  have "length (?x @ [NUL]) \<le> length name" "length (?y @ [NUL]) \<le> length val" using b(3-6) by auto
  then have buf': "buffers ?n nl ?v vl" using buf by (simp add: buffers_def)
  have at1: "at_text pending False s1 (sp @ CHR '','' # cs)" using 1(5,6) by (simp add: at_text_def)
  have r1: "json_request s1" using json_request_same same_count_request [OF 1(4)] r by blast
  have "\<exists>n v s'. attoHTTPParseJSONParam E (?n[0 := NUL]) (unat nl) (?v[0 := NUL]) (unat vl) s1 = returns (False, n, v, s')"
    by (rule call_nothing [OF at1 sp _ buffers_facts(3-) [OF buf']]) simp_all
  from read_stop [OF r1 buf' this, of k] obtain s2 where 3: "read_params E (Suc k) ?n nl ?v vl s1 = returns ([], s2)" by blast
  show ?thesis unfolding 2 3 by simp
qed

text \<open>The same behind other members.\<close>

lemma read_until_nested:
  "\<forall>m \<in> set ms. member_ok m \<Longrightarrow> name_ok p \<Longrightarrow> list_all json_inner x \<Longrightarrow> spaces sp \<Longrightarrow>
   buffers name nl val vl \<Longrightarrow> json_request s \<Longrightarrow>
   at_text pending False s (members_before ms @ name_text p @ CHR ''{'' # x @ CHR ''}'' # sp @ CHR '','' # cs) \<Longrightarrow>
   \<exists>s'. read_params E (length ms + Suc (Suc k)) name nl val vl s = returns (map (member_pair (unat nl) (unat vl)) ms @
     [(take (unat nl - 1) (jvalue_chars (jm_name p)), take (unat vl - 1) (CHR ''{'' # x @ ''}''))], s')"
proof (induction ms arbitrary: name val s)
  case Nil
  then show ?case using read_nested [OF _ Nil(2-6)] by (simp add: members_before_def)
next
  case (Cons m ms)
  let ?r = "members_before ms @ name_text p @ CHR ''{'' # x @ CHR ''}'' # sp @ CHR '','' # cs"
  have at: "at_text pending False s (member_text m @ CHR '','' # ?r)"
    using Cons.prems(7) by (simp add: members_before_def)
  have m: "member_ok m" using Cons.prems(1) by simp
  obtain n v s1 where 1: "read_params E (Suc (length ms + Suc (Suc k))) name nl val vl s =
      rbind (read_params E (length ms + Suc (Suc k)) n nl v vl s1) (\<lambda>(ps, s).
        returns (member_pair (unat nl) (unat vl) m # ps, s))"
    "buffers n nl v vl" "json_request s1" "after_item pending False (CHR '','') ?r s1"
    by (rule read_member [OF at _ m Cons.prems(5,6)]) (simp, rule that)
  from Cons.IH [OF _ Cons.prems(2-4) 1(2,3) after_comma [OF 1(4)]] Cons.prems(1) 1(1)
  show ?case by auto
qed

text \<open>A comma in quotation marks ends the member, and its tail becomes a nameless parameter.\<close>

lemma call_quoted_comma:
  assumes "at_text pending False s (name_text m @ CHR 0x22 # x @ CHR '','' # cs)" and m: "name_ok m"
    and x: "list_all (\<lambda>c. json_plain c \<and> c \<noteq> CHR 0x22) x"
    and len: "0 < nl" "0 < vl" "nl \<le> length name" "vl \<le> length val"
  obtains s' where "attoHTTPParseJSONParam E name nl val vl s =
      returns (True, splice name 0 (take (nl - 1) (jvalue_chars (jm_name m)) @ [NUL]), splice val 0 (take (vl - 1) x @ [NUL]), s')"
    and "at_text pending False s' cs"
proof -
  let ?st = "scan_start\<lparr>sc_divided := True, sc_dq := True\<rparr>"
  have at: "at_text pending False s ((name_text m @ CHR 0x22 # x) @ CHR '','' # cs)" using assms(1) by simp
  obtain q s' where 1: "attoHTTPParseJSONParam E name nl val vl s = json_finish nl vl q s'"
    "got (jvalue_chars (jm_name m)) x (locals_at NUL name nl val vl) q" "follows ?st (q\<lparr>jp_stop := False\<rparr>)"
    "after_item pending False (CHR '','') cs s'"
    by (rule call_item [OF at scan_open_quote [OF m x] _ _ len]) (simp add: scan_start_def, simp, rule that)
  show ?thesis
    by (rule that [of s']) (use 1 finish_named [OF 1(2,3) _ len] after_comma in simp_all)
qed

section \<open>Whole bodies\<close>

lemma at_start:
  "body_start s \<Longrightarrow> inp s = sp @ open_mark arr # x \<Longrightarrow> spaces sp \<Longrightarrow> at_text pending arr s x"
  by (auto simp: at_text_def)

lemma read_object:
  assumes "json_request s" and "body_start s" and "inp s = sp @ object_text ms @ cs" and "spaces sp"
    and "\<forall>m \<in> set ms. member_ok m" and "buffers name nl val vl" and "length ms < k"
  shows "\<exists>s'. read_params E k name nl val vl s = returns (map (member_pair (unat nl) (unat vl)) ms, s')"
proof -
  obtain j where j: "k = length ms + Suc j" using less_imp_Suc_add [OF assms(7)] by auto
  have "at_text pending False s (separated member_text ms @ CHR ''}'' # cs)"
    by (rule at_start [OF assms(2) _ assms(4)]) (simp add: assms(3) object_text_def open_mark_def)
  from read_members [OF assms(5,6,1) this] show ?thesis unfolding j .
qed

lemma read_array:
  assumes "json_request s" and "body_start s" and "inp s = sp @ array_text xs @ cs" and "spaces sp" and "spaces cs"
    and "\<forall>x \<in> set xs. item_fits (unat nl) (unat vl) x" and "buffers name nl val vl" and "length xs < k"
  shows "\<exists>s'. read_params E k name nl val vl s = returns (numbered (unat nl) (counter s) xs, s')"
proof -
  obtain j where j: "k = length xs + Suc j" using less_imp_Suc_add [OF assms(8)] by auto
  have "at_text pending True s (separated item_text xs @ CHR '']'' # cs)"
    by (rule at_start [OF assms(2) _ assms(4)]) (simp add: assms(3) array_text_def open_mark_def)
  from read_elements [OF assms(6,7,1,5) this] show ?thesis unfolding j .
qed

lemma read_nested_object:
  assumes "json_request s" and "body_start s" and "spaces sp" and "spaces sp'"
    and "inp s = sp @ CHR ''{'' # members_before ms @ name_text p @ CHR ''{'' # x @ CHR ''}'' # sp' @ CHR '','' # cs"
    and "\<forall>m \<in> set ms. member_ok m" and "name_ok p" and "list_all json_inner x"
    and "buffers name nl val vl" and "length ms + 1 < k"
  shows "\<exists>s'. read_params E k name nl val vl s = returns (map (member_pair (unat nl) (unat vl)) ms @
    [(take (unat nl - 1) (jvalue_chars (jm_name p)), take (unat vl - 1) (CHR ''{'' # x @ ''}''))], s')"
proof -
  obtain j where j: "k = length ms + Suc (Suc j)" using less_imp_Suc_add [OF assms(10)] by auto
  have "at_text pending False s (members_before ms @ name_text p @ CHR ''{'' # x @ CHR ''}'' # sp' @ CHR '','' # cs)"
    by (rule at_start [OF assms(2) _ assms(3)]) (simp add: assms(5) open_mark_def)
  from read_until_nested [OF assms(6,7,8,4,9,1) this] show ?thesis unfolding j .
qed

end

end
