(* ===== verification/Bodies.thy ===== *)
theory Bodies
  imports Queries JsonRead HeaderBlock
begin

text \<open>
  Requests with a header block, from the transport to what the user sees: the parameters that the
  REST callback reads from the body, a JSON object or a form, and the raw body
  (\<^verbatim>\<open>src/src/attohttp.c\<close>).
\<close>

text \<open>The body read with \<^verbatim>\<open>attoHTTPGetRawParamChar\<close>, at most \<open>k\<close> bytes of it.\<close>

primrec read_raw :: "'io env \<Rightarrow> nat \<Rightarrow> 'io http \<Rightarrow> (string \<times> 'io http) run" where
  "read_raw E 0 s = returns ([], s)"
| "read_raw E (Suc k) s =
     rbind (attoHTTPGetRawParamChar E NUL s) (\<lambda>(r, c, s).
       if r > 0 then rbind (read_raw E k s) (\<lambda>(cs, s). returns (c # cs, s)) else returns ([], s))"

context byte_channel
begin

lemma read_raw_all: "length (inp s) < k \<Longrightarrow> \<exists>s'. read_raw E k s = returns (inp s, s')"
proof (induction "inp s" arbitrary: s k)
  case Nil
  then obtain j where j: "k = Suc j" by (cases k) auto
  from Nil(1) [symmetric] show ?case
    by (rule ReadC_Nil) (auto simp: j attoHTTPGetRawParamChar_def Nil(1) [symmetric])
next
  case (Cons c cs)
  then obtain j where j: "k = Suc j" by (cases k) auto
  from Cons(2) [symmetric] obtain s1 where 1: "\<And>c0. attoHTTPReadC E c0 s = returns (1, c, s1)" "inp s1 = cs"
    by (rule ReadC_Cons) (rule that)
  have "length (inp s1) < j" using Cons(2,3) 1(2) by (simp add: j flip: Cons(2))
  with Cons(1) [of s1 j] 1(2) obtain s' where "read_raw E j s1 = returns (cs, s')" by auto
  then show ?case by (simp add: j attoHTTPGetRawParamChar_def 1(1) flip: Cons(2))
qed

text \<open>A REST request: the state in which the callback is called, at the start of the body.\<close>

lemma Execute_rest_body:
  assumes ok: "server_ok s" and input: "pending rd (io s) = request_text m tok ver hs body"
    and m: "method_of_token m = Some mm"
    and tok: "\<forall>c \<in> set tok. \<not> isblank c" "NUL \<notin> set tok" "tok \<noteq> []"
    and ver: "\<forall>c \<in> set ver. \<not> isspace c" "NUL \<notin> set ver" "ver \<noteq> []" "length ver \<le> 8"
    and hs: "\<forall>h \<in> set hs. header_ok h" and chk: "auth_is E chk" and auth: "authorised (request_info (authMode E) chk hs)"
    and none: "page_at s tok = None" "path_part tok \<noteq> strz (ssePage s) \<or> strz (ssePage s) = []"
    and cb: "defaultCallback s = Some cb"
    and segs: "path_part tok = path_of segs" "segs \<noteq> []" "\<forall>x \<in> set segs. segment x"
  obtains d ks js where "http_method d = mm" and "contenttype d = hi_type (request_info (authMode E) chk hs)"
    and "inp d = LF # body" and "body_start d"
    and "map (\<lambda>k. strz (drop k (url d))) ks = take 3 (fst (alternate segs))"
    and "map (\<lambda>k. strz (drop k (url d))) js = take 3 (snd (alternate segs))"
    and "attoHTTPExecute E rd wr s =
      rbind (callback E cb mm (hi_accept (request_info (authMode E) chk hs)) (map Some ks @ replicate (3 - length ks) None)
        (map Some js @ replicate (3 - length js) None) (length ks) (length js) d) (\<lambda>(rc, s).
      after_find E 1 (s\<lparr>returnCode := rc\<rparr>))"
proof -
  obtain d where d: "at_dispatch sent wr mm tok s d" "inp d = LF # body"
    "contenttype d = hi_type (request_info (authMode E) chk hs)" "accept d = hi_accept (request_info (authMode E) chk hs)"
    "cblevel d = 0" "sblevel d = 0" "baselevel d = NUL"
    "attoHTTPExecute E rd wr s = rbind (attoHTTPFindPage E d) (\<lambda>(ret, s). after_find E ret s)"
    using Execute_block [OF ok input m tok ver hs chk] auth by auto
  obtain u ks js where 1: "map (\<lambda>k. strz (drop k u)) ks = take 3 (fst (alternate segs))"
    "map (\<lambda>k. strz (drop k u)) js = take 3 (snd (alternate segs))"
    "rbind (attoHTTPFindPage E d) (\<lambda>(ret, s). after_find E ret s) =
      rbind (callback E cb mm (accept d) (map Some ks @ replicate (3 - length ks) None)
        (map Some js @ replicate (3 - length js) None) (length ks) (length js) (d\<lparr>url := u\<rparr>)) (\<lambda>(rc, s).
      after_find E 1 (s\<lparr>returnCode := rc\<rparr>))"
    by (rule dispatch_rest [OF d(1) tok(2) none cb segs]) (rule that)
  show ?thesis
    by (rule that [of "d\<lparr>url := u\<rparr>" ks js])
      (use 1 d(2-) at_dispatch_fields(10) [OF d(1)] in \<open>simp_all add: body_start_def\<close>)
qed

text \<open>The body as the parameters of a JSON object, and as those of a form.\<close>

lemma Execute_json_body:
  assumes ok: "server_ok s" and input: "pending rd (io s) = request_text m tok ver hs (sp @ object_text ms @ cs)"
    and m: "method_of_token m = Some mm" "mm \<noteq> METHOD_GET"
    and tok: "\<forall>c \<in> set tok. \<not> isblank c" "NUL \<notin> set tok" "tok \<noteq> []"
    and ver: "\<forall>c \<in> set ver. \<not> isspace c" "NUL \<notin> set ver" "ver \<noteq> []" "length ver \<le> 8"
    and hs: "\<forall>h \<in> set hs. header_ok h" and chk: "auth_is E chk" and auth: "authorised (request_info (authMode E) chk hs)"
    and type: "hi_type (request_info (authMode E) chk hs) \<noteq> APPLICATION_XWWWFORMURLENCODED"
    and none: "page_at s tok = None" "path_part tok \<noteq> strz (ssePage s) \<or> strz (ssePage s) = []"
    and cb: "defaultCallback s = Some cb"
    and segs: "path_part tok = path_of segs" "segs \<noteq> []" "\<forall>x \<in> set segs. segment x"
    and sp: "spaces sp" and ms: "\<forall>m \<in> set ms. member_ok m" and buf: "buffers name nl val vl" and k: "length ms < k"
  shows "\<exists>d ks js s'. read_params E k name nl val vl d = returns (map (member_pair (unat nl) (unat vl)) ms, s') \<and>
    map (\<lambda>k. strz (drop k (url d))) ks = take 3 (fst (alternate segs)) \<and>
    map (\<lambda>k. strz (drop k (url d))) js = take 3 (snd (alternate segs)) \<and>
    attoHTTPExecute E rd wr s =
      rbind (callback E cb mm (hi_accept (request_info (authMode E) chk hs)) (map Some ks @ replicate (3 - length ks) None)
        (map Some js @ replicate (3 - length js) None) (length ks) (length js) d) (\<lambda>(rc, s).
      after_find E 1 (s\<lparr>returnCode := rc\<rparr>))"
proof -
  obtain d ks js where d: "http_method d = mm" "contenttype d = hi_type (request_info (authMode E) chk hs)"
    "inp d = LF # sp @ object_text ms @ cs" "body_start d"
    and seg: "map (\<lambda>k. strz (drop k (url d))) ks = take 3 (fst (alternate segs))"
      "map (\<lambda>k. strz (drop k (url d))) js = take 3 (snd (alternate segs))"
      "attoHTTPExecute E rd wr s =
      rbind (callback E cb mm (hi_accept (request_info (authMode E) chk hs)) (map Some ks @ replicate (3 - length ks) None)
        (map Some js @ replicate (3 - length js) None) (length ks) (length js) d) (\<lambda>(rc, s).
      after_find E 1 (s\<lparr>returnCode := rc\<rparr>))"
    by (rule Execute_rest_body [OF ok input m(1) tok ver hs chk auth none cb segs]) (rule that)
  have "json_request d" using d(1,2) m type by (auto simp: json_request_def method_of_token_def split: if_splits)
  moreover have "inp d = (LF # sp) @ object_text ms @ cs" "spaces (LF # sp)"
    using d(3) sp by (simp_all add: spaces_def)
  ultimately show ?thesis using read_object [OF _ d(4) _ _ ms buf k] seg by blast
qed

lemma Execute_form_body:
  assumes ok: "server_ok s" and input: "pending rd (io s) = request_text m tok ver hs (form_text ps)"
    and m: "method_of_token m = Some mm" "mm \<noteq> METHOD_GET"
    and tok: "\<forall>c \<in> set tok. \<not> isblank c" "NUL \<notin> set tok" "tok \<noteq> []"
    and ver: "\<forall>c \<in> set ver. \<not> isspace c" "NUL \<notin> set ver" "ver \<noteq> []" "length ver \<le> 8"
    and hs: "\<forall>h \<in> set hs. header_ok h" and chk: "auth_is E chk" and auth: "authorised (request_info (authMode E) chk hs)"
    and type: "hi_type (request_info (authMode E) chk hs) = APPLICATION_XWWWFORMURLENCODED"
    and none: "page_at s tok = None" "path_part tok \<noteq> strz (ssePage s) \<or> strz (ssePage s) = []"
    and cb: "defaultCallback s = Some cb"
    and segs: "path_part tok = path_of segs" "segs \<noteq> []" "\<forall>x \<in> set segs. segment x"
    and ps: "ps \<noteq> []" "\<forall>p \<in> set ps. param_ok (unat nl) (unat vl) p"
    and buf: "unat nl \<le> length name" "unat vl \<le> length val" "0 < nl" and k: "length ps < k"
  shows "\<exists>d ks js s'. read_params E k name nl val vl d = returns (ps, s') \<and>
    map (\<lambda>k. strz (drop k (url d))) ks = take 3 (fst (alternate segs)) \<and>
    map (\<lambda>k. strz (drop k (url d))) js = take 3 (snd (alternate segs)) \<and>
    attoHTTPExecute E rd wr s =
      rbind (callback E cb mm (hi_accept (request_info (authMode E) chk hs)) (map Some ks @ replicate (3 - length ks) None)
        (map Some js @ replicate (3 - length js) None) (length ks) (length js) d) (\<lambda>(rc, s).
      after_find E 1 (s\<lparr>returnCode := rc\<rparr>))"
proof -
  obtain d ks js where d: "http_method d = mm" "contenttype d = hi_type (request_info (authMode E) chk hs)"
    "inp d = LF # form_text ps"
    and seg: "map (\<lambda>k. strz (drop k (url d))) ks = take 3 (fst (alternate segs))"
      "map (\<lambda>k. strz (drop k (url d))) js = take 3 (snd (alternate segs))"
      "attoHTTPExecute E rd wr s =
      rbind (callback E cb mm (hi_accept (request_info (authMode E) chk hs)) (map Some ks @ replicate (3 - length ks) None)
        (map Some js @ replicate (3 - length js) None) (length ks) (length js) d) (\<lambda>(rc, s).
      after_find E 1 (s\<lparr>returnCode := rc\<rparr>))"
    by (rule Execute_rest_body [OF ok input m(1) tok ver hs chk auth none cb segs]) (rule that)
  have mm: "http_method d \<in> {METHOD_POST, METHOD_PUT, METHOD_PATCH, METHOD_DELETE}"
    using d(1) m by (auto simp: method_of_token_def split: if_splits)
  have "inp d = [LF] @ form_text ps" "contenttype d = APPLICATION_XWWWFORMURLENCODED" using d(2,3) type by simp_all
  from read_body_form [OF mm this(2,1) ps buf k] seg show ?thesis by auto
qed

text \<open>
  The raw body: the line feed that ends the header block was pushed back, so it is the first
  character of the body.
\<close>

lemma Execute_raw_body:
  assumes ok: "server_ok s" and input: "pending rd (io s) = request_text m tok ver hs content"
    and m: "method_of_token m = Some mm"
    and tok: "\<forall>c \<in> set tok. \<not> isblank c" "NUL \<notin> set tok" "tok \<noteq> []"
    and ver: "\<forall>c \<in> set ver. \<not> isspace c" "NUL \<notin> set ver" "ver \<noteq> []" "length ver \<le> 8"
    and hs: "\<forall>h \<in> set hs. header_ok h" and chk: "auth_is E chk" and auth: "authorised (request_info (authMode E) chk hs)"
    and none: "page_at s tok = None" "path_part tok \<noteq> strz (ssePage s) \<or> strz (ssePage s) = []"
    and cb: "defaultCallback s = Some cb"
    and segs: "path_part tok = path_of segs" "segs \<noteq> []" "\<forall>x \<in> set segs. segment x"
    and k: "length content + 1 < k"
  shows "\<exists>d ks js s'. read_raw E k d = returns (LF # content, s') \<and>
    attoHTTPExecute E rd wr s =
      rbind (callback E cb mm (hi_accept (request_info (authMode E) chk hs)) (map Some ks @ replicate (3 - length ks) None)
        (map Some js @ replicate (3 - length js) None) (length ks) (length js) d) (\<lambda>(rc, s).
      after_find E 1 (s\<lparr>returnCode := rc\<rparr>))"
proof -
  obtain d ks js where d: "inp d = LF # content"
    "attoHTTPExecute E rd wr s =
      rbind (callback E cb mm (hi_accept (request_info (authMode E) chk hs)) (map Some ks @ replicate (3 - length ks) None)
        (map Some js @ replicate (3 - length js) None) (length ks) (length js) d) (\<lambda>(rc, s).
      after_find E 1 (s\<lparr>returnCode := rc\<rparr>))"
    by (rule Execute_rest_body [OF ok input m tok ver hs chk auth none cb segs]) (rule that)
  from read_raw_all [of d k] d k show ?thesis by auto
qed

end

end
