(* ===== verification/Base64.thy ===== *)
theory Base64
  imports Prelude
begin

text \<open>
  The Base64 codec of the Basic authorisation build: \<^verbatim>\<open>attoHTTPBase64Encode\<close>,
  \<^verbatim>\<open>_attoHTTPBase64DecodeChar\<close> and \<^verbatim>\<open>attoHTTPBase64Decode\<close> of \<^verbatim>\<open>src/src/attohttp.c\<close>, a
  reference encoding over 24-bit groups (RFC 4648) and the equivalence of the two. Bytes are
  \<^typ>\<open>8 word\<close>; where the source reads an \<^verbatim>\<open>int8_t\<close> the promotion to \<^verbatim>\<open>int\<close> is \<^const>\<open>sint\<close>,
  so a right shift copies the sign.
\<close>

unbundle bit_operations_syntax

section \<open>Definitions\<close>

definition ascii_bytes :: "string \<Rightarrow> 8 word list" where
  "ascii_bytes x = map of_char x"

definition base64data :: "8 word list" where
  "base64data =
     ascii_bytes ''ABCDEFGHIJKLMNOPQRSTUVWXYZabcdefghijklmnopqrstuvwxyz0123456789+/='' @ [0]"

definition pad_char :: "8 word" where
  "pad_char = of_char (CHR ''='')"

text \<open>\<^verbatim>\<open>x & 0x3F\<close> assigned to the \<^verbatim>\<open>uint8_t\<close> \<^verbatim>\<open>c\<close>.\<close>

definition low6 :: "int \<Rightarrow> 8 word" where
  "low6 x = word_of_int (x AND 0x3F)"

text \<open>\<^verbatim>\<open>output[o++] = d\<close> and \<^verbatim>\<open>output[o++] = base64data[c]\<close>.\<close>

definition put_byte :: "8 word \<Rightarrow> 16 word \<Rightarrow> 8 word list \<Rightarrow> (16 word \<times> 8 word list) run" where
  "put_byte d out_i out = rbind (store out (unat out_i) d) (\<lambda>out. returns (out_i + 1, out))"

definition put_code :: "8 word \<Rightarrow> 16 word \<Rightarrow> 8 word list \<Rightarrow> (16 word \<times> 8 word list) run" where
  "put_code c out_i out = rbind (load base64data (unat c)) (\<lambda>d. put_byte d out_i out)"

text \<open>One turn of the encoding loop; the first result is set when the loop ends with \<^verbatim>\<open>break\<close>.\<close>

definition encode_group ::
    "8 word list \<Rightarrow> 16 word \<Rightarrow> 16 word \<Rightarrow> 16 word \<Rightarrow> 16 word \<Rightarrow> 8 word list \<Rightarrow>
     (bool \<times> 16 word \<times> 8 word list) run" where
  "encode_group input ilen olen i p out =
     (if p \<ge> olen then returns (True, p, out) else
      rbind (load input (unat i)) (\<lambda>x0.
      rbind (put_code (low6 (drop_bit 2 (sint x0))) p out) (\<lambda>(p, out).
      if p \<ge> olen then returns (True, p, out) else
      let c = low6 (push_bit 4 (sint x0)) in
      if unat i + 1 < unat ilen then
        rbind (load input (unat i + 1)) (\<lambda>x1.
        rbind (put_code (c OR low6 (drop_bit 4 (sint x1))) p out) (\<lambda>(p, out).
        if p \<ge> olen then returns (True, p, out) else
        let c = low6 (push_bit 2 (sint x1)) in
        if unat i + 2 < unat ilen then
          rbind (load input (unat i + 2)) (\<lambda>x2.
          rbind (put_code (c OR low6 (drop_bit 6 (sint x2))) p out) (\<lambda>(p, out).
          if p \<ge> olen then returns (True, p, out) else
          rbind (put_code (low6 (sint x2)) p out) (\<lambda>(p, out). returns (False, p, out))))
        else
          rbind (put_code c p out) (\<lambda>(p, out).
          if p \<ge> olen then returns (True, p, out) else
          rbind (put_byte pad_char p out) (\<lambda>(p, out). returns (False, p, out)))))
      else
        rbind (put_code c p out) (\<lambda>(p, out).
        if p \<ge> olen then returns (True, p, out) else
        rbind (put_byte pad_char p out) (\<lambda>(p, out).
        if p \<ge> olen then returns (True, p, out) else
        rbind (put_byte pad_char p out) (\<lambda>(p, out). returns (False, p, out)))))))"

lemma next_index: "(p :: 16 word) < olen \<Longrightarrow> unat (p + 1) = unat p + 1"
proof -
  assume "p < olen"
  then have "unat p < unat olen" by (simp add: word_less_nat_alt)
  then have "unat p + 1 < 2 ^ 16" using unsigned_less [of olen, where ?'a = nat] by simp
  then show ?thesis by (simp add: unat_word_ariths unat_of_nat)
qed

lemma put_byte_eq:
  "p < olen \<Longrightarrow> put_byte d p out = returns (p', out') \<Longrightarrow>
   unat p' = unat p + 1 \<and> out' = out[unat p := d]"
  by (auto simp: put_byte_def store_def next_index rbind_eq_returns split: if_splits)

lemma put_code_progress:
  "p < olen \<Longrightarrow> put_code c p out = returns (p', out') \<Longrightarrow> unat p' = unat p + 1"
  by (auto simp: put_code_def rbind_eq_returns dest: put_byte_eq)

lemma encode_group_progress:
  "encode_group input ilen olen i p out = returns (False, p', out') \<Longrightarrow>
   p < olen \<and> unat p < unat p'"
  by (fastforce simp: encode_group_def rbind_eq_returns Let_def linorder_not_le
      dest!: put_code_progress [rotated] put_byte_eq [rotated] split: if_splits)

function encode_loop ::
    "8 word list \<Rightarrow> 16 word \<Rightarrow> 16 word \<Rightarrow> 16 word \<Rightarrow> 16 word \<Rightarrow> 8 word list \<Rightarrow>
     (16 word \<times> 8 word list) run" where
  "encode_loop input ilen olen i p out =
     (if i < ilen then
        rbind (encode_group input ilen olen i p out) (\<lambda>(stop, p', out').
          if stop then returns (p', out') else encode_loop input ilen olen (i + 3) p' out')
      else returns (p, out))"
  by pat_completeness auto
termination
  by (relation "measure (\<lambda>(input, ilen, olen, i, p, out). unat olen - unat p)")
    (auto dest!: encode_group_progress simp: word_less_nat_alt)

declare encode_loop.simps [simp del]

text \<open>What follows both loops: the index is cut to the buffer and the terminator is stored.\<close>

definition finish_output :: "16 word \<Rightarrow> 16 word \<Rightarrow> 8 word list \<Rightarrow> (16 word \<times> 8 word list) run" where
  "finish_output olen p out =
     (let p = (if p \<ge> olen then olen - 1 else p) in
      rbind (store out (unat p) 0) (\<lambda>out. returns (p, out)))"

definition attoHTTPBase64Encode ::
    "8 word list \<Rightarrow> 16 word \<Rightarrow> 8 word list \<Rightarrow> 16 word \<Rightarrow> (16 word \<times> 8 word list) run" where
  "attoHTTPBase64Encode input ilen out olen =
     rbind (encode_loop input ilen olen 0 0 out) (\<lambda>(p, out). finish_output olen p out)"

definition attoHTTPBase64DecodeChar :: "8 word \<Rightarrow> 8 word" where
  "attoHTTPBase64DecodeChar c =
     (if c \<ge> of_char (CHR ''A'') \<and> c \<le> of_char (CHR ''Z'') then c - of_char (CHR ''A'')
      else if c \<ge> of_char (CHR ''a'') \<and> c \<le> of_char (CHR ''z'') then c - of_char (CHR ''a'') + 26
      else if c \<ge> of_char (CHR ''0'') \<and> c \<le> of_char (CHR ''9'') then c - of_char (CHR ''0'') + 52
      else if c = of_char (CHR ''+'') then 62
      else if c = of_char (CHR ''/'') then 63
      else if c = pad_char then 64
      else 65)"

text \<open>\<^verbatim>\<open>(i+k < ilen) ? _attoHTTPBase64DecodeChar(input[i+k]) : 65\<close>\<close>

definition decode_at :: "8 word list \<Rightarrow> 16 word \<Rightarrow> nat \<Rightarrow> 8 word run" where
  "decode_at input ilen j =
     (if j < unat ilen then rbind (load input j) (\<lambda>x. returns (attoHTTPBase64DecodeChar x))
      else returns 65)"

definition join_bits :: "int \<Rightarrow> int \<Rightarrow> int \<Rightarrow> int \<Rightarrow> 8 word" where
  "join_bits x m y n = word_of_int ((x AND m) OR (y AND n))"

text \<open>One turn of the decoding loop: the four characters, then up to three bytes.\<close>

definition decode_codes ::
    "16 word \<Rightarrow> 8 word \<Rightarrow> 8 word \<Rightarrow> 8 word \<Rightarrow> 8 word \<Rightarrow> 16 word \<Rightarrow> 8 word list \<Rightarrow>
     (bool \<times> 16 word \<times> 8 word list) run" where
  "decode_codes olen c0 c1 c2 c3 p out =
     (if p \<ge> olen then returns (True, p, out) else
      if sint c1 < 64 then
        rbind (put_byte (join_bits (push_bit 2 (sint c0)) 0xFC (drop_bit 4 (sint c1)) 0x03) p out)
          (\<lambda>(p, out).
        if p \<ge> olen then returns (True, p, out) else
        if sint c2 < 64 then
          rbind (put_byte (join_bits (push_bit 4 (sint c1)) 0xF0 (drop_bit 2 (sint c2)) 0x0F) p out)
            (\<lambda>(p, out).
          if p \<ge> olen then returns (True, p, out) else
          if sint c3 < 64 then
            rbind (put_byte (join_bits (push_bit 6 (sint c2)) 0xC0 (sint c3) 0x3F) p out)
              (\<lambda>(p, out). returns (p \<ge> olen, p, out))
          else returns (True, p, out))
        else returns (True, p, out))
      else returns (True, p, out))"

definition decode_group ::
    "8 word list \<Rightarrow> 16 word \<Rightarrow> 16 word \<Rightarrow> 16 word \<Rightarrow> 16 word \<Rightarrow> 8 word list \<Rightarrow>
     (bool \<times> 16 word \<times> 8 word list) run" where
  "decode_group input ilen olen i p out =
     rbind (rbind (load input (unat i)) (\<lambda>x. returns (attoHTTPBase64DecodeChar x))) (\<lambda>c0.
     rbind (decode_at input ilen (unat i + 1)) (\<lambda>c1.
     rbind (decode_at input ilen (unat i + 2)) (\<lambda>c2.
     rbind (decode_at input ilen (unat i + 3)) (\<lambda>c3.
     decode_codes olen c0 c1 c2 c3 p out))))"

lemma decode_group_progress:
  "decode_group input ilen olen i p out = returns (False, p', out') \<Longrightarrow>
   p < olen \<and> unat p < unat p'"
  by (fastforce simp: decode_group_def decode_codes_def rbind_eq_returns linorder_not_le
      dest!: put_byte_eq [rotated] split: if_splits)

function decode_loop ::
    "8 word list \<Rightarrow> 16 word \<Rightarrow> 16 word \<Rightarrow> 16 word \<Rightarrow> 16 word \<Rightarrow> 8 word list \<Rightarrow>
     (16 word \<times> 8 word list) run" where
  "decode_loop input ilen olen i p out =
     (if i < ilen then
        rbind (decode_group input ilen olen i p out) (\<lambda>(stop, p', out').
          if stop then returns (p', out') else decode_loop input ilen olen (i + 4) p' out')
      else returns (p, out))"
  by pat_completeness auto
termination
  by (relation "measure (\<lambda>(input, ilen, olen, i, p, out). unat olen - unat p)")
    (auto dest!: decode_group_progress simp: word_less_nat_alt)

declare decode_loop.simps [simp del]

definition attoHTTPBase64Decode ::
    "8 word list \<Rightarrow> 16 word \<Rightarrow> 8 word list \<Rightarrow> 16 word \<Rightarrow> (16 word \<times> 8 word list) run" where
  "attoHTTPBase64Decode input ilen out olen =
     rbind (decode_loop input ilen olen 0 0 out) (\<lambda>(p, out). finish_output olen p out)"

section \<open>The reference encoding\<close>

text \<open>Three bytes are 24 bits, which are four sextets, the most significant first.\<close>

definition group24 :: "8 word \<Rightarrow> 8 word \<Rightarrow> 8 word \<Rightarrow> 24 word" where
  "group24 a b c = push_bit 16 (ucast a) OR push_bit 8 (ucast b) OR ucast c"

definition sextet :: "nat \<Rightarrow> 24 word \<Rightarrow> 6 word" where
  "sextet k n = ucast (drop_bit (6 * k) n)"

text \<open>Table 1 of RFC 4648, by its ranges.\<close>

definition base64_letter :: "nat \<Rightarrow> 8 word" where
  "base64_letter n =
     (if n < 26 then of_char (CHR ''A'') + of_nat n
      else if n < 52 then of_char (CHR ''a'') + of_nat (n - 26)
      else if n < 62 then of_char (CHR ''0'') + of_nat (n - 52)
      else if n = 62 then of_char (CHR ''+'') else of_char (CHR ''/''))"

definition base64_char :: "6 word \<Rightarrow> 8 word" where
  "base64_char v = base64_letter (unat v)"

fun base64_body :: "8 word list \<Rightarrow> 8 word list" where
  "base64_body [] = []"
| "base64_body [a] = map (\<lambda>k. base64_char (sextet k (group24 a 0 0))) [3, 2]"
| "base64_body [a, b] = map (\<lambda>k. base64_char (sextet k (group24 a b 0))) [3, 2, 1]"
| "base64_body (a # b # c # r) =
     map (\<lambda>k. base64_char (sextet k (group24 a b c))) [3, 2, 1, 0] @ base64_body r"

fun base64_pad :: "8 word list \<Rightarrow> 8 word list" where
  "base64_pad [] = []"
| "base64_pad [a] = [pad_char, pad_char]"
| "base64_pad [a, b] = [pad_char]"
| "base64_pad (a # b # c # r) = base64_pad r"

definition base64 :: "8 word list \<Rightarrow> 8 word list" where
  "base64 bs = base64_body bs @ base64_pad bs"

section \<open>Writing with truncation\<close>

text \<open>Both routines append bytes one at a time and stop when the output buffer is full.\<close>

fun emit ::
    "8 word list \<Rightarrow> 16 word \<Rightarrow> 16 word \<Rightarrow> 8 word list \<Rightarrow> (bool \<times> 16 word \<times> 8 word list) run" where
  "emit [] olen p out = returns (False, p, out)"
| "emit (d # ds) olen p out =
     (if p \<ge> olen then returns (True, p, out)
      else rbind (put_byte d p out) (\<lambda>(p, out). emit ds olen p out))"

lemma put_byte_store:
  "p < olen \<Longrightarrow> unat olen \<le> length out \<Longrightarrow> put_byte d p out = returns (p + 1, out[unat p := d])"
  by (simp add: put_byte_def word_less_nat_alt)

lemma emit_append:
  "emit (xs @ ys) olen p out = rbind (emit xs olen p out) (\<lambda>(stop, p, out).
     if stop then returns (True, p, out) else emit ys olen p out)"
  by (induction xs arbitrary: p out) (auto simp: rbind_assoc split: prod.splits intro!: rbind_cong)

lemma emit_eq:
  "p \<le> olen \<Longrightarrow> unat olen \<le> length out \<Longrightarrow> \<exists>p'. emit e olen p out =
     returns (unat olen - unat p < length e, p', splice out (unat p) (take (unat olen - unat p) e)) \<and>
     unat p' = unat p + min (length e) (unat olen - unat p)"
proof (induction e arbitrary: p out)
  case (Cons d e)
  show ?case
  proof (cases "p \<ge> olen")
    case True
    with Cons.prems(1) show ?thesis by simp
  next
    case False
    then have lt: "p < olen" by simp
    then have n: "unat (p + 1) = unat p + 1" "unat p < unat olen"
      by (simp_all add: next_index word_less_nat_alt)
    then have "p + 1 \<le> olen" by (simp add: word_le_nat_alt)
    from Cons.IH [OF this, of "out[unat p := d]"] Cons.prems(2) n
    obtain p' where "emit e olen (p + 1) (out[unat p := d]) =
        returns (unat olen - (unat p + 1) < length e, p',
          splice (out[unat p := d]) (unat p + 1) (take (unat olen - (unat p + 1)) e))"
      "unat p' = unat p + 1 + min (length e) (unat olen - (unat p + 1))"
      by auto
    moreover have "unat olen - unat p = Suc (unat olen - (unat p + 1))" using n(2) by simp
    ultimately show ?thesis
      using False lt n(2) Cons.prems(2) by (auto simp: put_byte_store splice_update)
  qed
qed simp

text \<open>The result of both routines on a buffer of at least one byte.\<close>

definition truncated :: "8 word list \<Rightarrow> 16 word \<Rightarrow> 8 word list \<Rightarrow> 16 word \<times> 8 word list" where
  "truncated e olen out =
     (let k = min (length e) (unat olen - 1) in
      (of_nat k, take k e @ 0 # drop (k + 1) out))"

lemma emit_finish:
  assumes "0 < olen" and "unat olen \<le> length out"
  shows "rbind (emit e olen 0 out) (\<lambda>(stop, p, out). finish_output olen p out) =
    returns (truncated e olen out)"
proof -
  from emit_eq [of 0 olen out e] assms(2) obtain p' where
    e: "emit e olen 0 out = returns (unat olen < length e, p', splice out 0 (take (unat olen) e))"
    and p': "unat p' = min (length e) (unat olen)" by auto
  have o: "0 < unat olen" using assms(1) by (simp add: word_less_nat_alt)
  then have o1: "unat (olen - 1) = unat olen - 1"
    using unat_minus_one [of olen] by (metis unat_0 less_irrefl)
  show ?thesis
  proof (cases "length e < unat olen")
    case True
    then have "\<not> olen \<le> p'" using p' by (simp add: word_le_nat_alt)
    moreover have "p' = of_nat (length e)" and "unat p' = length e"
      using p' True by (metis min.absorb3 of_nat_unat_id, simp)
    moreover have "min (length e) (unat olen - 1) = length e" using True by simp
    ultimately show ?thesis
      using True e assms(2)
      by (simp add: finish_output_def truncated_def splice_def list_update_append Let_def
          Cons_nth_drop_Suc [symmetric])
  next
    case False
    then have "olen \<le> p'" using p' by (simp add: word_le_nat_alt)
    moreover have "of_nat (unat olen - 1) = olen - 1" using o1 by (metis of_nat_unat_id)
    moreover have "take (unat olen) e = take (unat olen - 1) e @ [e ! (unat olen - 1)]"
      using False o take_Suc_conv_app_nth [of "unat olen - 1" e] by simp
    moreover have "min (length e) (unat olen - 1) = unat olen - 1" "min (length e) (unat olen) = unat olen"
      using False by simp_all
    ultimately show ?thesis
      using e o o1 assms(2)
      by (simp add: finish_output_def truncated_def splice_def list_update_append Let_def)
  qed
qed

section \<open>The encoder\<close>

text \<open>
  The source reads the bytes as \<^verbatim>\<open>int8_t\<close>, so \<^verbatim>\<open>input[i+1]>>4\<close> and \<^verbatim>\<open>input[i+2]>>6\<close> copy the sign
  bit over the bits of the byte before. What is encoded is the input with these bits set:
  \<open>smear m y x\<close> is the byte \<open>x\<close> in front of \<open>y\<close>. Bytes below 128 change nothing.
\<close>

definition smear :: "8 word \<Rightarrow> 8 word \<Rightarrow> 8 word \<Rightarrow> 8 word" where
  "smear m y x = (if bit y 7 then x OR m else x)"

fun smeared :: "8 word list \<Rightarrow> 8 word list" where
  "smeared [] = []"
| "smeared [a] = [a]"
| "smeared [a, b] = [smear 3 b a, b]"
| "smeared (a # b # c # r) = smear 3 b a # smear 15 c b # c # smeared r"

lemma smear_ascii: "y < 128 \<Longrightarrow> smear m y x = x"
  by (simp add: smear_def bit_iff_odd div_word_less)

lemma smeared_ascii: "\<forall>x \<in> set bs. x < 128 \<Longrightarrow> smeared bs = bs"
  by (induction bs rule: smeared.induct) (simp_all add: smear_ascii)

lemma length_smeared [simp]: "length (smeared bs) = length bs"
  by (induction bs rule: smeared.induct) simp_all

lemma length_base64_eq: "length cs = length bs \<Longrightarrow> length (base64 cs) = length (base64 bs)"
proof (induction bs arbitrary: cs rule: base64_body.induct)
  case (4 a b c r)
  from 4(2) obtain a' b' c' r' where "cs = a' # b' # c' # r'" "length r' = length r"
    by (auto simp: length_Suc_conv)
  with 4(1) [of r'] show ?case by (simp add: base64_def)
qed (auto simp: base64_def length_Suc_conv)

lemma length_base64_smeared [simp]: "length (base64 (smeared bs)) = length (base64 bs)"
  by (rule length_base64_eq) simp

lemma low6_eq: "low6 x = ucast (word_of_int x :: 6 word)"
proof -
  have m: "(0x3F :: int) = mask 6" by (simp add: mask_eq_exp_minus_1)
  show ?thesis
    unfolding low6_def m by (rule bit_word_eqI) (auto simp: bit_simps)
qed

lemma sextet_eqI: "(\<And>n. n \<in> {0, 1, 2, 3, 4, 5} \<Longrightarrow> bit v n = bit w n) \<Longrightarrow> v = (w :: 6 word)"
  by (rule bit_word_eqI) (simp add: numeral_eq_Suc less_Suc_eq)

lemma bit_byte_out: "8 \<le> n \<Longrightarrow> \<not> bit (x :: 8 word) n"
  using bit_imp_le_length [of x n] by auto

lemma bit_smear:
  "bit (smear 3 y x) n \<longleftrightarrow> bit x n \<or> n < 2 \<and> bit y 7"
  "bit (smear 15 y x) n \<longleftrightarrow> bit x n \<or> n < 4 \<and> bit y 7"
proof -
  have m: "(3 :: 8 word) = mask 2" "(15 :: 8 word) = mask 4" by (simp_all add: mask_eq_exp_minus_1)
  show "bit (smear 3 y x) n \<longleftrightarrow> bit x n \<or> n < 2 \<and> bit y 7" "bit (smear 15 y x) n \<longleftrightarrow> bit x n \<or> n < 4 \<and> bit y 7"
    unfolding m by (auto simp: smear_def bit_simps)
qed

lemma sextet_shift:
  "word_of_int (drop_bit 2 (sint a)) = sextet 3 (group24 a b' c')"
  "word_of_int (drop_bit 2 (sint a)) = sextet 3 (group24 (smear 3 b a) b' c')"
  "word_of_int (push_bit 4 (sint a)) OR word_of_int (drop_bit 4 (sint b)) = sextet 2 (group24 (smear 3 b a) b c')"
  "word_of_int (push_bit 4 (sint a)) OR word_of_int (drop_bit 4 (sint b)) =
     sextet 2 (group24 (smear 3 b a) (smear 15 c b) c')"
  "word_of_int (push_bit 2 (sint b)) OR word_of_int (drop_bit 6 (sint c)) = sextet 1 (group24 a' (smear 15 c b) c)"
  "scast c = sextet 0 (group24 a' b' c)"
  "word_of_int (push_bit 4 (sint a)) = sextet 2 (group24 a 0 c')"
  "word_of_int (push_bit 2 (sint b)) = sextet 1 (group24 a' b 0)"
  by (rule sextet_eqI; auto simp: sextet_def group24_def bit_smear bit_simps bit_byte_out)+

lemma length_base64data: "length base64data = 66"
  by (simp add: base64data_def ascii_bytes_def)

lemma base64_table: "n < 64 \<Longrightarrow> base64data ! n = base64_letter n"
proof -
  have "list_all (\<lambda>n. base64data ! n = base64_letter n) [0..<64]" by code_simp
  then show "n < 64 \<Longrightarrow> base64data ! n = base64_letter n" by (simp add: list_all_iff)
qed

lemma base64_char_data: "base64_char v = base64data ! unat v"
  using unsigned_less [of v, where ?'a = nat] by (simp add: base64_char_def base64_table)

lemma put_code_sextet: "put_code (ucast (v :: 6 word)) p out = put_byte (base64_char v) p out"
proof -
  have "unat v < 2 ^ 6" using unsigned_less [of v] by simp
  then have "take_bit 8 (unat v) = unat v" "unat v < 66" by (simp_all add: take_bit_nat_eq_self)
  then show ?thesis
    by (simp add: put_code_def base64_char_data length_base64data unsigned_ucast_eq)
qed

lemma rest_of_input:
  assumes "drop i (take n xs) = ys" and "n \<le> length xs" and "j < length ys"
  shows "xs ! (i + j) = ys ! j" and "i + j < n" and "i + j < length xs"
proof -
  from assms have l: "length ys = n - i" by auto
  with assms show "i + j < n" "i + j < length xs" by auto
  from \<open>i + j < n\<close> assms show "xs ! (i + j) = ys ! j" by auto
qed

lemma rest_length: "drop i (take n xs) = ys \<Longrightarrow> n \<le> length xs \<Longrightarrow> ys \<noteq> [] \<Longrightarrow> i + length ys = n"
  by auto

text \<open>The bytes one turn of the loop appends, given the input that is left.\<close>

fun encoded_group :: "8 word list \<Rightarrow> 8 word list" where
  "encoded_group [] = []"
| "encoded_group [a] = base64 [a]"
| "encoded_group [a, b] = base64 [a, b]"
| "encoded_group (a # b # c # r) = base64 [a, b, c]"

lemma encode_group_eq:
  assumes left: "drop (unat i) (take (unat ilen) input) = bs" and len: "unat ilen \<le> length input" and ne: "bs \<noteq> []"
  shows "encode_group input ilen olen i p out = emit (encoded_group (smeared bs)) olen p out"
proof -
  note at = rest_of_input [OF left len]
  note l = rest_length [OF left len ne]
  note simps = encode_group_def base64_def put_code_sextet low6_eq unsigned_or_eq [symmetric] Let_def rbind_assoc
    case_prod_unfold
  from ne show ?thesis
  proof (cases bs rule: encoded_group.cases)
    case (2 a)
    with at [of 0] l show ?thesis
      by (simp add: simps sextet_shift(1) [where b' = 0 and c' = 0] sextet_shift(7) [where c' = 0] cong: if_cong)
  next
    case (3 a b)
    with at [of 0] at [of 1] l show ?thesis
      by (simp add: simps sextet_shift(2) [where b = b and b' = b and c' = 0] sextet_shift(3) [where c' = 0]
          sextet_shift(8) [where a' = "smear 3 b a"] cong: if_cong)
  next
    case (4 a b c r)
    with at [of 0] at [of 1] at [of 2] l show ?thesis
      by (simp add: simps sextet_shift(2) [where b = b and b' = "smear 15 c b" and c' = c]
          sextet_shift(4) [where c = c and c' = c] sextet_shift(5) [where a' = "smear 3 b a"]
          sextet_shift(6) [where a' = "smear 3 b a" and b' = "smear 15 c b"] cong: if_cong)
  qed simp
qed

lemma next_group:
  assumes "3 dvd unat i" and "i < (ilen :: 16 word)"
  shows "unat (i + 3) = unat i + 3" and "3 dvd unat (i + 3)"
proof -
  from assms(1) obtain k where k: "unat i = 3 * k" by blast
  have "unat i < unat ilen" "unat ilen < 65536"
    using assms(2) unsigned_less [of ilen, where ?'a = nat] by (simp_all add: word_less_nat_alt)
  with k have "unat i + 3 < 65536" by presburger
  then show "unat (i + 3) = unat i + 3" by (simp add: unat_word_ariths)
  then show "3 dvd unat (i + 3)" using assms(1) by simp
qed

lemma base64_group: "base64 (a # b # c # r) = encoded_group (a # b # c # r) @ base64 r"
  by (simp add: base64_def)

lemma encode_loop_eq:
  assumes "unat ilen \<le> length input"
  shows "drop (unat i) (take (unat ilen) input) = bs \<Longrightarrow> 3 dvd unat i \<Longrightarrow>
   encode_loop input ilen olen i p out =
     rbind (emit (base64 (smeared bs)) olen p out) (\<lambda>(stop, p, out). returns (p, out))"
proof (induction bs arbitrary: i p out rule: base64_body.induct)
  case 1
  then have "\<not> i < ilen" using assms by (auto simp: word_less_nat_alt)
  then show ?case by (simp add: encode_loop.simps base64_def)
next
  case (2 a)
  then have "unat i + 1 = unat ilen" using rest_length [OF 2(1) assms] by simp
  then have l: "i < ilen" by (simp add: word_less_nat_alt)
  with \<open>unat i + 1 = unat ilen\<close> next_group [OF 2(2) l] have "\<not> i + 3 < ilen"
    by (simp add: word_less_nat_alt)
  then show ?case
    using l encode_group_eq [OF 2(1) assms, of olen p out]
    by (simp add: encode_loop.simps [of _ _ _ i] encode_loop.simps [of _ _ _ "i + 3"] rbind_assoc
        case_prod_unfold cong: if_cong)
next
  case (3 a b)
  then have "unat i + 2 = unat ilen" using rest_length [OF 3(1) assms] by simp
  then have l: "i < ilen" by (simp add: word_less_nat_alt)
  with \<open>unat i + 2 = unat ilen\<close> next_group [OF 3(2) l] have "\<not> i + 3 < ilen"
    by (simp add: word_less_nat_alt)
  then show ?case
    using l encode_group_eq [OF 3(1) assms, of olen p out]
    by (simp add: encode_loop.simps [of _ _ _ i] encode_loop.simps [of _ _ _ "i + 3"] rbind_assoc
        case_prod_unfold cong: if_cong)
next
  case (4 a b c r)
  then have "unat i + (3 + length r) = unat ilen" using rest_length [OF 4(2) assms] by simp
  then have l: "i < ilen" by (simp add: word_less_nat_alt)
  have "drop 3 (drop (unat i) (take (unat ilen) input)) = r" unfolding 4(2) by simp
  then have "drop (unat (i + 3)) (take (unat ilen) input) = r"
    by (simp add: next_group [OF 4(3) l] add.commute)
  with 4 next_group [OF 4(3) l]
  have "encode_loop input ilen olen (i + 3) p' out' =
     rbind (emit (base64 (smeared r)) olen p' out') (\<lambda>(stop, p, out). returns (p, out))" for p' out'
    by simp
  then show ?case
    using l encode_group_eq [OF 4(2) assms, of olen p out]
    by (simp add: encode_loop.simps [of _ _ _ i] base64_group emit_append rbind_assoc
        case_prod_unfold cong: if_cong del: encoded_group.simps) (rule rbind_cong, simp_all)
qed

lemma Base64Encode_eq:
  assumes "unat ilen \<le> length input" and "0 < olen" and "unat olen \<le> length out"
  shows "attoHTTPBase64Encode input ilen out olen =
    returns (truncated (base64 (smeared (take (unat ilen) input))) olen out)"
proof -
  have "encode_loop input ilen olen 0 0 out =
      rbind (emit (base64 (smeared (take (unat ilen) input))) olen 0 out) (\<lambda>(stop, p, out). returns (p, out))"
    by (rule encode_loop_eq [OF assms(1)]) simp_all
  then show ?thesis
    using emit_finish [OF assms(2,3)] by (simp add: attoHTTPBase64Encode_def rbind_assoc case_prod_unfold)
qed

section \<open>The decoder\<close>

lemma decode_alphabet: "k < 64 \<Longrightarrow> attoHTTPBase64DecodeChar (base64data ! k) = of_nat k"
proof -
  have "list_all (\<lambda>k. attoHTTPBase64DecodeChar (base64data ! k) = of_nat k) [0..<64]"
    by code_simp
  then show "k < 64 \<Longrightarrow> attoHTTPBase64DecodeChar (base64data ! k) = of_nat k"
    by (simp add: list_all_iff)
qed

lemma decode_base64_char [simp]: "attoHTTPBase64DecodeChar (base64_char v) = ucast v"
proof -
  have "unat v < 64" using unsigned_less [of v, where ?'a = nat] by simp
  then show ?thesis by (simp add: base64_char_data decode_alphabet)
qed

lemma decode_pad [simp]: "attoHTTPBase64DecodeChar pad_char = 64"
  by code_simp

lemma sint_ucast_sextet [simp]: "sint (ucast (v :: 6 word) :: 8 word) < 64"
proof -
  have v: "uint v < 64" using unsigned_less [of v, where ?'a = int] by simp
  have "uint (ucast v :: 8 word) = uint v"
    using v by (simp add: unsigned_ucast_eq take_bit_int_eq_self)
  moreover have "signed_take_bit 7 (uint v) = uint v"
    by (rule signed_take_bit_int_eq_self) (use v order_trans [of _ 0 "uint v"] in simp_all)
  ultimately have "sint (ucast v :: 8 word) = uint v" by (simp add: sint_uint)
  with v show ?thesis by simp
qed

lemma rbind_if: "rbind (if b then m else m') f = (if b then rbind m f else rbind m' f)"
  by simp

lemma bit_Suc_index:
  "bit (x :: 8 word) (Suc (Suc 0)) = bit x 2" "bit x (Suc (Suc (Suc 0))) = bit x 3"
  by (simp_all add: numeral_eq_Suc)

lemma byte_eqI: "(\<And>n. n \<in> {0, 1, 2, 3, 4, 5, 6, 7} \<Longrightarrow> bit v n = bit w n) \<Longrightarrow> v = (w :: 8 word)"
  by (rule bit_word_eqI) (simp add: numeral_eq_Suc less_Suc_eq)

lemma join_sextets:
  "join_bits (push_bit 2 (sint (ucast (sextet 3 (group24 a b c)) :: 8 word))) 0xFC
     (drop_bit 4 (sint (ucast (sextet 2 (group24 a b c)) :: 8 word))) 0x03 = a"
  "join_bits (push_bit 4 (sint (ucast (sextet 2 (group24 a b c)) :: 8 word))) 0xF0
     (drop_bit 2 (sint (ucast (sextet 1 (group24 a b c)) :: 8 word))) 0x0F = b"
  "join_bits (push_bit 6 (sint (ucast (sextet 1 (group24 a b c)) :: 8 word))) 0xC0
     (sint (ucast (sextet 0 (group24 a b c)) :: 8 word)) 0x3F = c"
  by (rule byte_eqI; elim insertE emptyE;
      simp add: join_bits_def sextet_def group24_def bit_simps bit_byte_out bit_Suc_index)+

text \<open>What \<open>c[k]\<close> becomes, given the input that is left.\<close>

definition code_at :: "8 word list \<Rightarrow> nat \<Rightarrow> 8 word" where
  "code_at ys k = (if k < length ys then attoHTTPBase64DecodeChar (ys ! k) else 65)"

lemma decode_at_eq:
  assumes "drop i (take (unat ilen) input) = ys" and "unat ilen \<le> length input" and "ys \<noteq> []"
  shows "decode_at input ilen (i + k) = returns (code_at ys k)"
proof (cases "k < length ys")
  case True
  then show ?thesis using rest_of_input [OF assms(1,2) True] by (simp add: decode_at_def code_at_def)
next
  case False
  then have "\<not> i + k < unat ilen" using rest_length [OF assms] by simp
  with False show ?thesis by (simp add: decode_at_def code_at_def)
qed

lemma decode_head_eq:
  assumes "drop i (take (unat ilen) input) = ys" and "unat ilen \<le> length input" and "ys \<noteq> []"
  shows "rbind (load input i) (\<lambda>x. returns (attoHTTPBase64DecodeChar x)) = returns (code_at ys 0)"
  using rest_of_input [OF assms(1,2), of 0] assms(3) by (simp add: code_at_def)

lemma decode_group_eq:
  assumes "drop (unat i) (take (unat ilen) input) = ys" and "unat ilen \<le> length input" and "ys \<noteq> []"
  shows "decode_group input ilen olen i p out =
    decode_codes olen (code_at ys 0) (code_at ys 1) (code_at ys 2) (code_at ys 3) p out"
  unfolding decode_group_def decode_head_eq [OF assms] decode_at_eq [OF assms] rbind_simps ..

lemma code_at_pad: "64 \<le> sint (code_at (replicate k pad_char) j)"
  by (simp add: code_at_def)

lemma code_at_append:
  "j < length xs \<Longrightarrow> code_at (xs @ ys) j = attoHTTPBase64DecodeChar (xs ! j)"
  "length xs \<le> j \<Longrightarrow> code_at (xs @ ys) j = code_at ys (j - length xs)"
  by (auto simp: code_at_def nth_append)

lemma emit_full: "p \<ge> olen \<Longrightarrow> emit e olen p out = returns (e \<noteq> [], p, out)"
  by (cases e) simp_all

lemma decode_loop_eq:
  assumes "unat ilen \<le> length input"
  shows "drop (unat i) (take (unat ilen) input) = base64_body bs @ replicate k pad_char \<Longrightarrow>
   decode_loop input ilen olen i p out = rbind (emit bs olen p out) (\<lambda>(stop, p, out). returns (p, out))"
proof (induction bs arbitrary: i p out rule: base64_body.induct)
  case 1
  then have left: "drop (unat i) (take (unat ilen) input) = replicate k pad_char" by simp
  show ?case
  proof (cases "k = 0")
    case True
    then have "\<not> i < ilen" using left assms by (auto simp: word_less_nat_alt)
    then show ?thesis by (simp add: decode_loop.simps)
  next
    case False
    then have ne: "replicate k pad_char \<noteq> []" by simp
    have "i < ilen" using rest_length [OF left assms ne] False by (simp add: word_less_nat_alt)
    moreover have "\<not> sint (code_at (replicate k pad_char) (Suc 0)) < 64"
      using code_at_pad [of k 1] by simp
    ultimately show ?thesis
      using decode_group_eq [OF left assms ne]
      by (simp add: decode_loop.simps [of _ _ _ i] decode_codes_def cong: if_cong)
  qed
next
  case (2 a)
  let ?ys = "base64_body [a] @ replicate k pad_char"
  have ne: "?ys \<noteq> []" by simp
  have l: "i < ilen" using rest_length [OF 2 assms ne] by (simp add: word_less_nat_alt)
  have c: "code_at ?ys 0 = ucast (sextet 3 (group24 a 0 0))" "code_at ?ys 1 = ucast (sextet 2 (group24 a 0 0))"
    "\<not> sint (code_at ?ys 2) < 64"
    using code_at_pad [of k 0] by (simp_all add: code_at_append code_at_def)
  show ?case
    using l decode_group_eq [OF 2 assms ne] c
    by (simp add: decode_loop.simps [of _ _ _ i] decode_codes_def join_sextets [unfolded One_nat_def] rbind_assoc rbind_if
        case_prod_unfold cong: if_cong)
next
  case (3 a b)
  let ?ys = "base64_body [a, b] @ replicate k pad_char"
  have ne: "?ys \<noteq> []" by simp
  have l: "i < ilen" using rest_length [OF 3 assms ne] by (simp add: word_less_nat_alt)
  have c: "code_at ?ys 0 = ucast (sextet 3 (group24 a b 0))" "code_at ?ys 1 = ucast (sextet 2 (group24 a b 0))"
    "code_at ?ys 2 = ucast (sextet 1 (group24 a b 0))" "\<not> sint (code_at ?ys 3) < 64"
    using code_at_pad [of k 0] by (simp_all add: code_at_append code_at_def)
  show ?case
    using l decode_group_eq [OF 3 assms ne] c
    by (simp add: decode_loop.simps [of _ _ _ i] decode_codes_def join_sextets [unfolded One_nat_def] rbind_assoc rbind_if
        case_prod_unfold cong: if_cong)
next
  case (4 a b c r)
  let ?g = "group24 a b c"
  let ?ys = "base64_body (a # b # c # r) @ replicate k pad_char"
  have ne: "?ys \<noteq> []" by simp
  have n: "unat i + (4 + length (base64_body r) + k) = unat ilen" using rest_length [OF 4(2) assms ne] by simp
  then have l: "i < ilen" by (simp add: word_less_nat_alt)
  have i4: "unat (i + 4) = unat i + 4"
    using n unsigned_less [of ilen, where ?'a = nat] by (simp add: unat_word_ariths)
  have "drop 4 (drop (unat i) (take (unat ilen) input)) = base64_body r @ replicate k pad_char"
    unfolding 4(2) by simp
  then have "drop (unat (i + 4)) (take (unat ilen) input) = base64_body r @ replicate k pad_char"
    by (simp add: i4 add.commute)
  note IH = 4(1) [OF this]
  have c: "code_at ?ys 0 = ucast (sextet 3 ?g)" "code_at ?ys 1 = ucast (sextet 2 ?g)"
    "code_at ?ys 2 = ucast (sextet 1 ?g)" "code_at ?ys 3 = ucast (sextet 0 ?g)"
    by (simp_all add: code_at_def numeral_2_eq_2 numeral_3_eq_3)
  show ?case
    using l decode_group_eq [OF 4(2) assms ne] c IH
    by (simp add: decode_loop.simps [of _ _ _ i] decode_codes_def join_sextets [unfolded One_nat_def] rbind_assoc rbind_if
        emit_full case_prod_unfold cong: if_cong) (auto intro!: rbind_cong simp: emit_full)
qed

lemma Base64Decode_eq:
  assumes "take (unat ilen) input = base64_body bs @ replicate k pad_char"
    and "unat ilen \<le> length input" and "0 < olen" and "unat olen \<le> length out"
  shows "attoHTTPBase64Decode input ilen out olen = returns (truncated bs olen out)"
  using decode_loop_eq [OF assms(2), of 0 bs k olen 0 out] emit_finish [OF assms(3,4)] assms(1)
  by (simp add: attoHTTPBase64Decode_def rbind_assoc case_prod_unfold)

section \<open>Round trip and safety\<close>

lemma truncated_fits:
  assumes "length e < unat olen"
  shows "truncated e olen out = (of_nat (length e), e @ 0 # drop (length e + 1) out)"
proof -
  have "min (length e) (unat olen - 1) = length e" using assms by simp
  then show ?thesis by (simp add: truncated_def Let_def)
qed

lemma base64_pad_replicate: "\<exists>k. base64_pad bs = replicate k pad_char"
proof (induction bs rule: base64_pad.induct)
  case 1
  show ?case by (rule exI [of _ 0]) simp
next
  case (2 a)
  show ?case by (rule exI [of _ 2]) (simp add: numeral_2_eq_2)
next
  case (3 a b)
  show ?case by (rule exI [of _ 1]) simp
qed simp

lemma base64_roundtrip_eq:
  assumes "length (base64 bs) < 65536" and "0 < olen" and "unat olen \<le> length out"
  shows "attoHTTPBase64Decode (base64 bs @ r) (of_nat (length (base64 bs))) out olen =
    returns (truncated bs olen out)"
proof -
  obtain k where k: "base64_pad bs = replicate k pad_char" using base64_pad_replicate by blast
  have n: "unat (of_nat (length (base64 bs)) :: 16 word) = length (base64 bs)"
    using assms(1) by (simp add: unat_of_nat_small)
  show ?thesis
    by (rule Base64Decode_eq [where k = k]) (simp_all add: assms n, simp add: base64_def k)
qed

text \<open>Whatever the input is, only the first \<open>olen\<close> bytes of the output are written.\<close>

definition written :: "16 word \<Rightarrow> 8 word list \<Rightarrow> 16 word \<Rightarrow> 8 word list \<Rightarrow> bool" where
  "written olen out p out' \<longleftrightarrow> p \<le> olen \<and> length out' = length out \<and>
     drop (unat olen) out' = drop (unat olen) out"

lemma written_refl: "p \<le> olen \<Longrightarrow> written olen out p out"
  by (simp add: written_def)

lemma put_byte_written:
  assumes "p < olen" and "unat olen \<le> length out0" and "written olen out0 p out"
  shows "ensures (put_byte d p out) (\<lambda>(p', out'). written olen out0 p' out')"
proof -
  have "unat (p + 1) = unat p + 1" by (rule next_index [OF assms(1)])
  moreover have "unat p < unat olen" using assms(1) by (simp add: word_less_nat_alt)
  ultimately show ?thesis
    using assms by (simp add: put_byte_store written_def word_le_nat_alt)
qed

lemma decode_codes_written:
  "unat olen \<le> length out0 \<Longrightarrow> written olen out0 p out \<Longrightarrow>
   ensures (decode_codes olen c0 c1 c2 c3 p out) (\<lambda>(stop, p', out'). written olen out0 p' out')"
  by (auto simp: decode_codes_def linorder_not_le intro!: ensures_mono [OF put_byte_written])

lemma decode_loop_written:
  "unat ilen \<le> length input \<Longrightarrow> unat olen \<le> length out0 \<Longrightarrow> written olen out0 p out \<Longrightarrow>
   ensures (decode_loop input ilen olen i p out) (\<lambda>(p', out'). written olen out0 p' out')"
proof (induction input ilen olen i p out rule: decode_loop.induct)
  case (1 input ilen olen i p out)
  show ?case
  proof (cases "i < ilen")
    case True
    let ?ys = "drop (unat i) (take (unat ilen) input)"
    have "?ys \<noteq> []" using True 1(2) by (simp add: word_less_nat_alt)
    from decode_group_eq [OF refl 1(2) this, of olen p out] decode_codes_written [OF 1(3,4)]
    have "ensures (decode_group input ilen olen i p out) (\<lambda>(stop, p', out'). written olen out0 p' out')"
      by simp
    then show ?thesis
      using True 1(1) [OF True] 1(2,3)
      by (auto simp: decode_loop.simps [of _ _ _ i] elim!: ensuresE)
  next
    case False
    with 1 show ?thesis by (simp add: decode_loop.simps)
  qed
qed

lemma finish_output_written:
  assumes "0 < olen" and "unat olen \<le> length out0" and "written olen out0 p out"
  shows "ensures (finish_output olen p out) (\<lambda>(n, out').
    n < olen \<and> out' ! unat n = 0 \<and> written olen out0 n out')"
proof -
  let ?p = "if p \<ge> olen then olen - 1 else p"
  have o: "0 < unat olen" using assms(1) by (simp add: word_less_nat_alt)
  then have "unat (olen - 1) = unat olen - 1"
    using unat_minus_one [of olen] by (metis unat_0 less_irrefl)
  then have "unat ?p < unat olen" using o by (auto simp: word_le_nat_alt)
  then show ?thesis
    using assms(2,3)
    by (auto simp: finish_output_def Let_def written_def word_less_nat_alt word_le_nat_alt)
qed

lemma Base64Decode_safe:
  assumes "unat ilen \<le> length input" and "0 < olen" and "unat olen \<le> length out"
  shows "ensures (attoHTTPBase64Decode input ilen out olen) (\<lambda>(n, out').
    n < olen \<and> out' ! unat n = 0 \<and> length out' = length out \<and>
    drop (unat olen) out' = drop (unat olen) out)"
proof -
  obtain p out1 where "decode_loop input ilen olen 0 0 out = returns (p, out1)" "written olen out p out1"
    using decode_loop_written [OF assms(1,3) written_refl, of 0 0] by (auto elim!: ensuresE)
  with finish_output_written [OF assms(2,3) this(2)] show ?thesis
    by (auto simp: attoHTTPBase64Decode_def written_def elim!: ensures_mono)
qed

text \<open>Without room for the terminator it goes to the index 65535.\<close>

lemma encode_no_room: "length out < 65536 \<Longrightarrow> attoHTTPBase64Encode input ilen out 0 = faults OutOfBounds"
proof -
  assume l: "length out < 65536"
  have "unat (- 1 :: 16 word) = 65535" by (simp add: unsigned_minus_1_eq_mask mask_eq_exp_minus_1)
  then have "finish_output 0 0 out = faults OutOfBounds" using l by (simp add: finish_output_def store_def)
  then show ?thesis
    by (simp add: attoHTTPBase64Encode_def encode_loop.simps [of input ilen 0 0 0 out] encode_group_def)
qed

text \<open>The first character of a group is not checked by the decoder.\<close>

lemma decode_first_unchecked:
  "attoHTTPBase64Decode (ascii_bytes ''!A=='') 4 (replicate 4 0) 4 = returns (1, [4, 0, 0, 0])"
  by code_simp

end
