(* ===== verification/Md5.thy ===== *)
theory Md5
  imports Prelude
begin

text \<open>
  The hash of the Digest authorisation build, \<^verbatim>\<open>src/src/md5.c\<close> with the context of
  \<^verbatim>\<open>src/src/md5.h\<close>: \<^verbatim>\<open>body\<close>, \<^verbatim>\<open>MD5_Init\<close>, \<^verbatim>\<open>MD5_Update\<close>, \<^verbatim>\<open>MD5_Final\<close>. Both branches of the
  macros \<^verbatim>\<open>SET\<close> and \<^verbatim>\<open>GET\<close> are modelled; the argument \<open>x86\<close> of \<open>body\<close> and of what calls it tells
  which one is compiled. \<^verbatim>\<open>unsigned long\<close> has 32 bits. The theory \<^verbatim>\<open>Md5Spec\<close> has the
  reference definition of RFC 1321.
\<close>

unbundle bit_operations_syntax

section \<open>The context\<close>

record MD5_CTX =
  md_lo :: "32 word"
  md_hi :: "32 word"
  md_a :: "32 word"
  md_b :: "32 word"
  md_c :: "32 word"
  md_d :: "32 word"
  md_buffer :: "8 word list"
  md_block :: "32 word list"

type_synonym regs = "32 word \<times> 32 word \<times> 32 word \<times> 32 word"

section \<open>The macros\<close>

definition F :: "32 word \<Rightarrow> 32 word \<Rightarrow> 32 word \<Rightarrow> 32 word" where
  "F x y z = z XOR (x AND (y XOR z))"

definition G :: "32 word \<Rightarrow> 32 word \<Rightarrow> 32 word \<Rightarrow> 32 word" where
  "G x y z = y XOR (z AND (x XOR y))"

definition H :: "32 word \<Rightarrow> 32 word \<Rightarrow> 32 word \<Rightarrow> 32 word" where
  "H x y z = (x XOR y) XOR z"

definition H2 :: "32 word \<Rightarrow> 32 word \<Rightarrow> 32 word \<Rightarrow> 32 word" where
  "H2 x y z = x XOR (y XOR z)"

definition I :: "32 word \<Rightarrow> 32 word \<Rightarrow> 32 word \<Rightarrow> 32 word" where
  "I x y z = y XOR (x OR NOT z)"

datatype basic = MF | MG | MH | MH2 | MI

fun basic_function :: "basic \<Rightarrow> 32 word \<Rightarrow> 32 word \<Rightarrow> 32 word \<Rightarrow> 32 word" where
  "basic_function MF = F"
| "basic_function MG = G"
| "basic_function MH = H"
| "basic_function MH2 = H2"
| "basic_function MI = I"

text \<open>
  \<^verbatim>\<open>STEP(f, a, b, c, d, x, t, s)\<close>. The registers come back in the order in which the next
  \<^verbatim>\<open>STEP\<close> of the source names them: after \<open>a, b, c, d\<close> comes \<open>d, a, b, c\<close>.
\<close>

definition STEP ::
    "(32 word \<Rightarrow> 32 word \<Rightarrow> 32 word \<Rightarrow> 32 word) \<Rightarrow> 32 word \<Rightarrow> 32 word \<Rightarrow> nat \<Rightarrow> regs \<Rightarrow> regs" where
  "STEP f x t n r =
     (case r of (a, b, c, d) \<Rightarrow>
        let a = a + (f b c d + x + t);
            a = push_bit n a OR drop_bit (32 - n) (a AND 0xffffffff);
            a = a + b
        in (d, a, b, c))"

text \<open>The portable \<^verbatim>\<open>SET(n)\<close>: four bytes, the least significant first.\<close>

definition SET :: "8 word list \<Rightarrow> nat \<Rightarrow> nat \<Rightarrow> 32 word run" where
  "SET data ptr n =
     rbind (load data (ptr + n * 4)) (\<lambda>b0.
     rbind (load data (ptr + n * 4 + 1)) (\<lambda>b1.
     rbind (load data (ptr + n * 4 + 2)) (\<lambda>b2.
     rbind (load data (ptr + n * 4 + 3)) (\<lambda>b3.
     returns (ucast b0 OR push_bit 8 (ucast b1) OR push_bit 16 (ucast b2) OR push_bit 24 (ucast b3))))))"

text \<open>
  \<^verbatim>\<open>SET(n)\<close> and \<^verbatim>\<open>GET(n)\<close> on an x86: one load of a word in the byte order of the host, the byte
  with the lowest address the least significant.
\<close>

definition SET_x86 :: "8 word list \<Rightarrow> nat \<Rightarrow> nat \<Rightarrow> 32 word run" where
  "SET_x86 data ptr n =
     (if ptr + n * 4 + 4 \<le> length data then returns (word_rcat (rev (take 4 (drop (ptr + n * 4) data))))
      else faults OutOfBounds)"

section \<open>The block transformation\<close>

text \<open>The 64 steps in the order of the source: basic function, index into the block, constant, shift.\<close>

definition steps :: "(basic \<times> nat \<times> 32 word \<times> nat) list" where
  "steps =
     [(MF, 0, 0xd76aa478, 7), (MF, 1, 0xe8c7b756, 12),
      (MF, 2, 0x242070db, 17), (MF, 3, 0xc1bdceee, 22),
      (MF, 4, 0xf57c0faf, 7), (MF, 5, 0x4787c62a, 12),
      (MF, 6, 0xa8304613, 17), (MF, 7, 0xfd469501, 22),
      (MF, 8, 0x698098d8, 7), (MF, 9, 0x8b44f7af, 12),
      (MF, 10, 0xffff5bb1, 17), (MF, 11, 0x895cd7be, 22),
      (MF, 12, 0x6b901122, 7), (MF, 13, 0xfd987193, 12),
      (MF, 14, 0xa679438e, 17), (MF, 15, 0x49b40821, 22),
      (MG, 1, 0xf61e2562, 5), (MG, 6, 0xc040b340, 9),
      (MG, 11, 0x265e5a51, 14), (MG, 0, 0xe9b6c7aa, 20),
      (MG, 5, 0xd62f105d, 5), (MG, 10, 0x02441453, 9),
      (MG, 15, 0xd8a1e681, 14), (MG, 4, 0xe7d3fbc8, 20),
      (MG, 9, 0x21e1cde6, 5), (MG, 14, 0xc33707d6, 9),
      (MG, 3, 0xf4d50d87, 14), (MG, 8, 0x455a14ed, 20),
      (MG, 13, 0xa9e3e905, 5), (MG, 2, 0xfcefa3f8, 9),
      (MG, 7, 0x676f02d9, 14), (MG, 12, 0x8d2a4c8a, 20),
      (MH, 5, 0xfffa3942, 4), (MH2, 8, 0x8771f681, 11),
      (MH, 11, 0x6d9d6122, 16), (MH2, 14, 0xfde5380c, 23),
      (MH, 1, 0xa4beea44, 4), (MH2, 4, 0x4bdecfa9, 11),
      (MH, 7, 0xf6bb4b60, 16), (MH2, 10, 0xbebfbc70, 23),
      (MH, 13, 0x289b7ec6, 4), (MH2, 0, 0xeaa127fa, 11),
      (MH, 3, 0xd4ef3085, 16), (MH2, 6, 0x04881d05, 23),
      (MH, 9, 0xd9d4d039, 4), (MH2, 12, 0xe6db99e5, 11),
      (MH, 15, 0x1fa27cf8, 16), (MH2, 2, 0xc4ac5665, 23),
      (MI, 0, 0xf4292244, 6), (MI, 7, 0x432aff97, 10),
      (MI, 14, 0xab9423a7, 15), (MI, 5, 0xfc93a039, 21),
      (MI, 12, 0x655b59c3, 6), (MI, 3, 0x8f0ccc92, 10),
      (MI, 10, 0xffeff47d, 15), (MI, 1, 0x85845dd1, 21),
      (MI, 8, 0x6fa87e4f, 6), (MI, 15, 0xfe2ce6e0, 10),
      (MI, 6, 0xa3014314, 15), (MI, 13, 0x4e0811a1, 21),
      (MI, 4, 0xf7537e82, 6), (MI, 11, 0xbd3af235, 10),
      (MI, 2, 0x2ad7d2bb, 15), (MI, 9, 0xeb86d391, 21)]"

definition run_steps :: "32 word list \<Rightarrow> regs \<Rightarrow> regs" where
  "run_steps block r = fold (\<lambda>(f, k, t, n). STEP (basic_function f) (block ! k) t n) steps r"

text \<open>The same on an x86: every step loads its word from the data.\<close>

fun run_steps_x86 :: "8 word list \<Rightarrow> nat \<Rightarrow> (basic \<times> nat \<times> 32 word \<times> nat) list \<Rightarrow> regs \<Rightarrow> regs run" where
  "run_steps_x86 data ptr [] r = returns r"
| "run_steps_x86 data ptr ((f, k, t, n) # ss) r =
     rbind (SET_x86 data ptr k) (\<lambda>w. run_steps_x86 data ptr ss (STEP (basic_function f) w t n r))"

definition add_saved :: "regs \<Rightarrow> regs \<Rightarrow> regs" where
  "add_saved r saved =
     (case (r, saved) of ((a, b, c, d), (a', b', c', d')) \<Rightarrow> (a + a', b + b', c + c', d + d'))"

text \<open>The words \<^verbatim>\<open>ctx->block[n]\<close>, \<^verbatim>\<open>ctx->block[n+1]\<close>, ..., as round 1 sets them.\<close>

fun set_block :: "8 word list \<Rightarrow> nat \<Rightarrow> nat list \<Rightarrow> 32 word list run" where
  "set_block data ptr [] = returns []"
| "set_block data ptr (n # ns) =
     rbind (SET data ptr n) (\<lambda>w. rbind (set_block data ptr ns) (\<lambda>ws. returns (w # ws)))"

lemma SET_bound: "SET data ptr n = returns w \<Longrightarrow> ptr + n * 4 + 3 < length data"
  by (auto simp: SET_def rbind_eq_returns load_def split: if_splits)

lemma set_block_bound: "set_block data ptr ns = returns ws \<Longrightarrow> n \<in> set ns \<Longrightarrow> ptr + n * 4 + 3 < length data"
  by (induction ns arbitrary: ws) (auto simp: rbind_eq_returns dest: SET_bound)

function body_loop ::
    "8 word list \<Rightarrow> nat \<Rightarrow> regs \<Rightarrow> 32 word \<Rightarrow> (regs \<times> 32 word list \<times> nat) run" where
  "body_loop data ptr r sz =
     rbind (set_block data ptr [0..<16]) (\<lambda>block.
       let r = add_saved (run_steps block r) r in
       if sz - 64 \<noteq> 0 then body_loop data (ptr + 64) r (sz - 64)
       else returns (r, block, ptr + 64))"
  by pat_completeness auto
termination
  by (relation "measure (\<lambda>(data, ptr, r, sz). length data - ptr)")
    (auto dest: set_block_bound [where n = 15])

declare body_loop.simps [simp del]

lemma SET_x86_bound: "SET_x86 data ptr n = returns w \<Longrightarrow> ptr + n * 4 + 4 \<le> length data"
  by (auto simp: SET_x86_def split: if_splits)

lemma run_steps_x86_bound:
  "run_steps_x86 data ptr ss r = returns r' \<Longrightarrow> (f, k, t, n) \<in> set ss \<Longrightarrow> ptr + k * 4 + 4 \<le> length data"
  by (induction data ptr ss r rule: run_steps_x86.induct) (auto simp: rbind_eq_returns dest: SET_x86_bound)

lemma step_15: "(MF, 15, 0x49b40821, 22) \<in> set steps"
  by (simp add: steps_def)

function body_loop_x86 :: "8 word list \<Rightarrow> nat \<Rightarrow> regs \<Rightarrow> 32 word \<Rightarrow> (regs \<times> nat) run" where
  "body_loop_x86 data ptr r sz =
     rbind (run_steps_x86 data ptr steps r) (\<lambda>r'.
       let r = add_saved r' r in
       if sz - 64 \<noteq> 0 then body_loop_x86 data (ptr + 64) r (sz - 64)
       else returns (r, ptr + 64))"
  by pat_completeness auto
termination
  by (relation "measure (\<lambda>(data, ptr, r, sz). length data - ptr)")
    (auto dest: run_steps_x86_bound [OF _ step_15])

declare body_loop_x86.simps [simp del]

text \<open>
  The second result is the pointer that \<^verbatim>\<open>body\<close> returns, as an index. On an x86 the words are
  not kept in \<^verbatim>\<open>ctx->block\<close>.
\<close>

definition body :: "bool \<Rightarrow> MD5_CTX \<Rightarrow> 8 word list \<Rightarrow> nat \<Rightarrow> 32 word \<Rightarrow> (MD5_CTX \<times> nat) run" where
  "body x86 ctx data ptr sz =
     (if x86 then
        rbind (body_loop_x86 data ptr (md_a ctx, md_b ctx, md_c ctx, md_d ctx) sz) (\<lambda>((a, b, c, d), ptr).
        returns (ctx\<lparr>md_a := a, md_b := b, md_c := c, md_d := d\<rparr>, ptr))
      else
        rbind (body_loop data ptr (md_a ctx, md_b ctx, md_c ctx, md_d ctx) sz) (\<lambda>((a, b, c, d), block, ptr).
        returns (ctx\<lparr>md_block := block, md_a := a, md_b := b, md_c := c, md_d := d\<rparr>, ptr)))"

section \<open>Init, Update, Final\<close>

definition MD5_Init :: "MD5_CTX \<Rightarrow> MD5_CTX" where
  "MD5_Init ctx = ctx\<lparr>md_a := 0x67452301, md_b := 0xefcdab89, md_c := 0x98badcfe,
     md_d := 0x10325476, md_lo := 0, md_hi := 0\<rparr>"

text \<open>\<^verbatim>\<open>memcpy(&dst[at], &src[from], n)\<close>, \<^verbatim>\<open>memset(&dst[at], 0, n)\<close>: the destination afterwards.\<close>

definition memcpy :: "'a list \<Rightarrow> nat \<Rightarrow> 'a list \<Rightarrow> nat \<Rightarrow> nat \<Rightarrow> 'a list run" where
  "memcpy dst at src frm n =
     (if at + n \<le> length dst \<and> frm + n \<le> length src
      then returns (splice dst at (take n (drop frm src))) else faults OutOfBounds)"

definition memset0 :: "8 word list \<Rightarrow> nat \<Rightarrow> nat \<Rightarrow> 8 word list run" where
  "memset0 dst at n =
     (if at + n \<le> length dst then returns (splice dst at (replicate n 0)) else faults OutOfBounds)"

text \<open>The counters: bytes modulo \<open>2 ^ 29\<close>, and the carries.\<close>

definition count_bytes :: "32 word \<Rightarrow> MD5_CTX \<Rightarrow> MD5_CTX" where
  "count_bytes sz ctx =
     (let saved_lo = md_lo ctx;
          ctx = ctx\<lparr>md_lo := (saved_lo + sz) AND 0x1fffffff\<rparr>;
          ctx = (if md_lo ctx < saved_lo then ctx\<lparr>md_hi := md_hi ctx + 1\<rparr> else ctx)
      in ctx\<lparr>md_hi := md_hi ctx + drop_bit 29 sz\<rparr>)"

text \<open>The part of \<^verbatim>\<open>MD5_Update\<close> after the buffered block: whole blocks, then the rest.\<close>

definition update_blocks :: "bool \<Rightarrow> MD5_CTX \<Rightarrow> 8 word list \<Rightarrow> nat \<Rightarrow> 32 word \<Rightarrow> MD5_CTX run" where
  "update_blocks x86 ctx data pos sz =
     rbind (if sz \<ge> 64 then
              rbind (body x86 ctx data pos (sz AND NOT 0x3f)) (\<lambda>(ctx, pos).
              returns (ctx, pos, sz AND 0x3f))
            else returns (ctx, pos, sz)) (\<lambda>(ctx, pos, sz).
     rbind (memcpy (md_buffer ctx) 0 data pos (unat sz)) (\<lambda>b.
     returns (ctx\<lparr>md_buffer := b\<rparr>)))"

definition MD5_Update :: "bool \<Rightarrow> MD5_CTX \<Rightarrow> 8 word list \<Rightarrow> 32 word \<Rightarrow> MD5_CTX run" where
  "MD5_Update x86 ctx data sz =
     (let used = md_lo ctx AND 0x3f;
          ctx = count_bytes sz ctx
      in if used \<noteq> 0 then
           let available = 64 - used in
           if sz < available then
             rbind (memcpy (md_buffer ctx) (unat used) data 0 (unat sz)) (\<lambda>b.
             returns (ctx\<lparr>md_buffer := b\<rparr>))
           else
             rbind (memcpy (md_buffer ctx) (unat used) data 0 (unat available)) (\<lambda>b.
             rbind (body x86 (ctx\<lparr>md_buffer := b\<rparr>) b 0 64) (\<lambda>(ctx, _).
             update_blocks x86 ctx data (unat available) (sz - available)))
         else update_blocks x86 ctx data 0 sz)"

definition le_bytes :: "32 word \<Rightarrow> 8 word list" where
  "le_bytes w = [ucast w, ucast (drop_bit 8 w), ucast (drop_bit 16 w), ucast (drop_bit 24 w)]"

text \<open>
  The stores \<^verbatim>\<open>buffer[56]\<close> to \<^verbatim>\<open>buffer[63]\<close> and \<^verbatim>\<open>result[0]\<close> to \<^verbatim>\<open>result[15]\<close> are one \<^const>\<open>memcpy\<close> each.
\<close>

definition final_block :: "bool \<Rightarrow> 8 word list \<Rightarrow> MD5_CTX \<Rightarrow> nat \<Rightarrow> nat \<Rightarrow> (8 word list \<times> MD5_CTX) run" where
  "final_block x86 result ctx used available =
     rbind (memset0 (md_buffer ctx) used (available - 8)) (\<lambda>b.
     let ctx = ctx\<lparr>md_lo := push_bit 3 (md_lo ctx)\<rparr> in
     rbind (memcpy b 56 (le_bytes (md_lo ctx) @ le_bytes (md_hi ctx)) 0 8) (\<lambda>b.
     rbind (body x86 (ctx\<lparr>md_buffer := b\<rparr>) b 0 64) (\<lambda>(ctx, _).
     rbind (memcpy result 0
              (le_bytes (md_a ctx) @ le_bytes (md_b ctx) @ le_bytes (md_c ctx) @ le_bytes (md_d ctx)) 0 16)
       (\<lambda>result.
     returns (result, \<lparr>md_lo = 0, md_hi = 0, md_a = 0, md_b = 0, md_c = 0, md_d = 0,
       md_buffer = replicate 64 0, md_block = replicate 16 0\<rparr>)))))"

definition MD5_Final :: "bool \<Rightarrow> 8 word list \<Rightarrow> MD5_CTX \<Rightarrow> (8 word list \<times> MD5_CTX) run" where
  "MD5_Final x86 result ctx =
     (let used = unat (md_lo ctx AND 0x3f) in
      rbind (store (md_buffer ctx) used 0x80) (\<lambda>b.
      let used = used + 1; available = 64 - used; ctx = ctx\<lparr>md_buffer := b\<rparr> in
      if available < 8 then
        rbind (memset0 b used available) (\<lambda>b.
        rbind (body x86 (ctx\<lparr>md_buffer := b\<rparr>) b 0 64) (\<lambda>(ctx, _).
        final_block x86 result ctx 0 64))
      else final_block x86 result ctx used available))"

end
