(* ===== verification/Md5Spec.thy ===== *)
theory Md5Spec
  imports Md5
begin

text \<open>
  The message digest as RFC 1321 defines it, on whole messages, and the proof that the code of
  \<^verbatim>\<open>Md5\<close> computes it however the message is split into calls of \<^verbatim>\<open>MD5_Update\<close>.
\<close>

section \<open>The reference\<close>

fun rfc_function :: "nat \<Rightarrow> 32 word \<Rightarrow> 32 word \<Rightarrow> 32 word \<Rightarrow> 32 word" where
  "rfc_function rnd x y z =
     (if rnd = 0 then (x AND y) OR (NOT x AND z)
      else if rnd = 1 then (x AND z) OR (y AND NOT z)
      else if rnd = 2 then x XOR y XOR z
      else y XOR (x OR NOT z))"

text \<open>Which word of the block step \<open>i\<close> uses, the rotation counts and the table of sines.\<close>

definition rfc_index :: "nat \<Rightarrow> nat" where
  "rfc_index i =
     (if i div 16 = 0 then i mod 16
      else if i div 16 = 1 then (5 * i + 1) mod 16
      else if i div 16 = 2 then (3 * i + 5) mod 16
      else 7 * i mod 16)"

definition rfc_shift :: "nat \<Rightarrow> nat" where
  "rfc_shift i =
     [[7, 12, 17, 22], [5, 9, 14, 20], [4, 11, 16, 23], [6, 10, 15, 21]] ! (i div 16) ! (i mod 4)"

definition rfc_table :: "32 word list" where
  "rfc_table =
     [0xd76aa478, 0xe8c7b756, 0x242070db, 0xc1bdceee, 0xf57c0faf, 0x4787c62a, 0xa8304613, 0xfd469501,
      0x698098d8, 0x8b44f7af, 0xffff5bb1, 0x895cd7be, 0x6b901122, 0xfd987193, 0xa679438e, 0x49b40821,
      0xf61e2562, 0xc040b340, 0x265e5a51, 0xe9b6c7aa, 0xd62f105d, 0x02441453, 0xd8a1e681, 0xe7d3fbc8,
      0x21e1cde6, 0xc33707d6, 0xf4d50d87, 0x455a14ed, 0xa9e3e905, 0xfcefa3f8, 0x676f02d9, 0x8d2a4c8a,
      0xfffa3942, 0x8771f681, 0x6d9d6122, 0xfde5380c, 0xa4beea44, 0x4bdecfa9, 0xf6bb4b60, 0xbebfbc70,
      0x289b7ec6, 0xeaa127fa, 0xd4ef3085, 0x04881d05, 0xd9d4d039, 0xe6db99e5, 0x1fa27cf8, 0xc4ac5665,
      0xf4292244, 0x432aff97, 0xab9423a7, 0xfc93a039, 0x655b59c3, 0x8f0ccc92, 0xffeff47d, 0x85845dd1,
      0x6fa87e4f, 0xfe2ce6e0, 0xa3014314, 0x4e0811a1, 0xf7537e82, 0xbd3af235, 0x2ad7d2bb, 0xeb86d391]"

definition rfc_step :: "32 word list \<Rightarrow> nat \<Rightarrow> regs \<Rightarrow> regs" where
  "rfc_step block i r =
     (case r of (a, b, c, d) \<Rightarrow>
        (d, b + word_rotl (rfc_shift i)
               (a + rfc_function (i div 16) b c d + block ! rfc_index i + rfc_table ! i), b, c))"

definition rfc_block :: "32 word list \<Rightarrow> regs \<Rightarrow> regs" where
  "rfc_block block r = add_saved (fold (rfc_step block) [0..<64] r) r"

text \<open>Words from bytes, the least significant byte first.\<close>

fun words_of :: "8 word list \<Rightarrow> 32 word list" where
  "words_of (b0 # b1 # b2 # b3 # bs) =
     (ucast b0 + 2 ^ 8 * ucast b1 + 2 ^ 16 * ucast b2 + 2 ^ 24 * ucast b3) # words_of bs"
| "words_of _ = []"

function rfc_blocks :: "8 word list \<Rightarrow> regs \<Rightarrow> regs" where
  "rfc_blocks bs r =
     (if length bs < 64 then r else rfc_blocks (drop 64 bs) (rfc_block (words_of (take 64 bs)) r))"
  by pat_completeness auto
termination
  by (relation "measure (\<lambda>(bs, r). length bs)") auto

declare rfc_blocks.simps [simp del]

definition rfc_init :: regs where
  "rfc_init = (0x67452301, 0xefcdab89, 0x98badcfe, 0x10325476)"

text \<open>
  The padding: a 1 bit, zeros up to 56 bytes modulo 64, the length in bits modulo \<open>2 ^ 64\<close>.
\<close>

definition rfc_length :: "nat \<Rightarrow> 8 word list" where
  "rfc_length n = map (\<lambda>k. ucast (drop_bit (8 * k) (of_nat (8 * n) :: 64 word))) [0..<8]"

definition rfc_pad :: "nat \<Rightarrow> 8 word list" where
  "rfc_pad n = 0x80 # replicate ((119 - n mod 64) mod 64) 0 @ rfc_length n"

definition digest_bytes :: "regs \<Rightarrow> 8 word list" where
  "digest_bytes r =
     (case r of (a, b, c, d) \<Rightarrow>
        concat (map (\<lambda>w. map (\<lambda>k. ucast (drop_bit (8 * k) w)) [0..<4]) [a, b, c, d]))"

definition md5 :: "8 word list \<Rightarrow> 8 word list" where
  "md5 m = digest_bytes (rfc_blocks (m @ rfc_pad (length m)) rfc_init)"

section \<open>The block transformation\<close>

lemma basic_function_rfc:
  "F = rfc_function 0" "G = rfc_function 1" "H = rfc_function 2" "H2 = rfc_function 2"
  "I = rfc_function 3"
proof -
  show "F = rfc_function 0"
    by (intro ext, simp add: F_def, rule bit_word_eqI) (auto simp: bit_simps)
  show "G = rfc_function 1"
    by (intro ext, simp add: G_def, rule bit_word_eqI) (auto simp: bit_simps)
  show "H = rfc_function 2" by (intro ext) (simp add: H_def ac_simps)
  show "H2 = rfc_function 2" by (intro ext) (simp add: H2_def ac_simps)
  show "I = rfc_function 3" by (intro ext) (simp add: I_def)
qed

definition rfc_entry :: "nat \<Rightarrow> nat \<times> nat \<times> 32 word \<times> nat" where
  "rfc_entry i = (i div 16, rfc_index i, rfc_table ! i, rfc_shift i)"

fun basic_round :: "basic \<Rightarrow> nat" where
  "basic_round MF = 0" | "basic_round MG = 1" | "basic_round MH = 2" | "basic_round MH2 = 2"
| "basic_round MI = 3"

lemma steps_rfc: "map (\<lambda>(f, k, t, n). (basic_round f, k, t, n)) steps = map rfc_entry [0..<64]"
  by code_simp

lemma basic_round_function: "basic_function f = rfc_function (basic_round f)"
  by (cases f) (simp_all only: basic_function.simps basic_round.simps basic_function_rfc)

lemma full_mask [simp]: "w AND 0xffffffff = (w :: 32 word)"
proof -
  have "(0xffffffff :: 32 word) = - 1" by simp
  then show ?thesis by (simp only: and.right_neutral)
qed

lemma rotate_word_rotl:
  assumes "0 < n" and "n < 32"
  shows "push_bit n w OR drop_bit (32 - n) w = word_rotl n (w :: 32 word)"
proof (rule bit_word_eqI)
  fix m assume "m < LENGTH(32)"
  then have m: "m < 32" by simp
  have r: "bit (word_rotl n w) m = bit w ((m + (32 - n)) mod 32)"
    using m assms by (simp add: bit_word_rotl_iff)
  have l: "bit (push_bit n w OR drop_bit (32 - n) w) m = (n \<le> m \<and> bit w (m - n) \<or> bit w (32 - n + m))"
    using m by (auto simp: bit_simps)
  show "bit (push_bit n w OR drop_bit (32 - n) w) m = bit (word_rotl n w) m"
  proof (cases "n \<le> m")
    case True
    then have "(m + (32 - n)) mod 32 = m - n" using m assms by (simp add: mod_if)
    moreover have "\<not> bit w (32 - n + m)"
      using bit_imp_le_length [of w "32 - n + m"] True assms by auto
    ultimately show ?thesis using True by (simp add: r l)
  next
    case False
    then have "(m + (32 - n)) mod 32 = 32 - n + m" using assms by simp
    then show ?thesis using False by (simp add: r l)
  qed
qed

lemma rfc_shift_bounds: "i < 64 \<Longrightarrow> 0 < rfc_shift i \<and> rfc_shift i < 32"
proof -
  have "list_all (\<lambda>i. 0 < rfc_shift i \<and> rfc_shift i < 32) [0..<64]" by code_simp
  then show "i < 64 \<Longrightarrow> 0 < rfc_shift i \<and> rfc_shift i < 32" by (simp add: list_all_iff)
qed

lemma STEP_rfc:
  "i < 64 \<Longrightarrow> STEP (rfc_function (i div 16)) (block ! rfc_index i) (rfc_table ! i) (rfc_shift i) =
     rfc_step block i"
  using rfc_shift_bounds [of i]
  by (auto simp: STEP_def rfc_step_def rotate_word_rotl Let_def ac_simps simp del: rfc_function.simps
      intro!: ext)

lemma run_steps_rfc: "run_steps block r = fold (rfc_step block) [0..<64] r"
proof -
  let ?g = "\<lambda>(rnd, k, t, n). STEP (rfc_function rnd) (block ! k) t n"
  let ?conv = "\<lambda>(f, k, t, n). (basic_round f, k, t, n)"
  have "(\<lambda>(f, k, t, n). STEP (basic_function f) (block ! k) t n) = ?g \<circ> ?conv"
    by (auto simp: basic_round_function fun_eq_iff simp del: rfc_function.simps)
  then have "run_steps block r = fold ?g (map ?conv steps) r"
    by (simp only: run_steps_def fold_map)
  also have "\<dots> = fold (?g \<circ> rfc_entry) [0..<64] r"
    by (simp only: steps_rfc fold_map)
  also have "\<dots> = fold (rfc_step block) [0..<64] r"
    by (rule fold_cong) (simp_all add: rfc_entry_def STEP_rfc del: rfc_function.simps)
  finally show ?thesis .
qed

lemma le_word:
  "ucast (b0 :: 8 word) OR push_bit 8 (ucast (b1 :: 8 word)) OR push_bit 16 (ucast (b2 :: 8 word)) OR
     push_bit 24 (ucast (b3 :: 8 word)) =
     (ucast b0 + 2 ^ 8 * ucast b1 + 2 ^ 16 * ucast b2 + 2 ^ 24 * ucast b3 :: 32 word)"
proof -
  have lt: "\<And>n. bit (b :: 8 word) n \<Longrightarrow> n < 8" for b using bit_imp_le_length by fastforce
  have "ucast b0 + push_bit 8 (ucast b1) = (ucast b0 OR push_bit 8 (ucast b1) :: 32 word)"
    by (rule disjunctive_add) (auto simp: bit_simps dest!: lt)
  moreover have "(ucast b0 OR push_bit 8 (ucast b1)) + push_bit 16 (ucast b2) =
      ((ucast b0 OR push_bit 8 (ucast b1)) OR push_bit 16 (ucast b2) :: 32 word)"
    by (rule disjunctive_add) (auto simp: bit_simps dest!: lt)
  moreover have "((ucast b0 OR push_bit 8 (ucast b1)) OR push_bit 16 (ucast b2)) + push_bit 24 (ucast b3) =
      (((ucast b0 OR push_bit 8 (ucast b1)) OR push_bit 16 (ucast b2)) OR push_bit 24 (ucast b3) :: 32 word)"
    by (rule disjunctive_add) (auto simp: bit_simps dest!: lt)
  ultimately show ?thesis by (simp add: push_bit_eq_mult ac_simps)
qed

lemma SET_eq:
  assumes "ptr + n * 4 + 4 \<le> length data"
  shows "SET data ptr n = returns
    (ucast (data ! (ptr + n * 4)) + 2 ^ 8 * ucast (data ! (ptr + n * 4 + 1)) +
     2 ^ 16 * ucast (data ! (ptr + n * 4 + 2)) + 2 ^ 24 * ucast (data ! (ptr + n * 4 + 3)))"
  unfolding le_word [symmetric] using assms by (simp add: SET_def)

lemma words_of_drop:
  assumes "i + 4 \<le> length bs"
  shows "words_of (drop i bs) =
    (ucast (bs ! i) + 2 ^ 8 * ucast (bs ! (i + 1)) + 2 ^ 16 * ucast (bs ! (i + 2)) +
     2 ^ 24 * ucast (bs ! (i + 3))) # words_of (drop (i + 4) bs)"
proof -
  have "drop i bs = bs ! i # bs ! (i + 1) # bs ! (i + 2) # bs ! (i + 3) # drop (i + 4) bs"
    using assms by (simp add: Cons_nth_drop_Suc numeral_eq_Suc)
  then show ?thesis by simp
qed

lemma set_block_eq:
  "ptr + n * 4 + 4 * k = m \<Longrightarrow> m \<le> length data \<Longrightarrow>
   set_block data ptr [n..<n + k] = returns (words_of (drop (ptr + n * 4) (take m data)))"
proof (induction k arbitrary: n)
  case (Suc k)
  then have b: "ptr + n * 4 + 4 \<le> length data" "ptr + n * 4 + 4 \<le> length (take m data)" by simp_all
  have "set_block data ptr [n + 1..<n + 1 + k] = returns (words_of (drop (ptr + (n + 1) * 4) (take m data)))"
    by (rule Suc.IH) (use Suc.prems in simp_all)
  moreover have u: "[n..<n + Suc k] = n # [n + 1..<n + 1 + k]"
    by (simp add: upt_conv_Cons)
  moreover have "ptr + (n + 1) * 4 = ptr + n * 4 + 4" by simp
  moreover have "j < 4 \<Longrightarrow> take m data ! (ptr + n * 4 + j) = data ! (ptr + n * 4 + j)" for j
    using Suc.prems by simp
  from this [of 0] this [of 1] this [of 2] this [of 3]
  have "words_of (drop (ptr + n * 4) (take m data)) =
    (ucast (data ! (ptr + n * 4)) + 2 ^ 8 * ucast (data ! (ptr + n * 4 + 1)) +
     2 ^ 16 * ucast (data ! (ptr + n * 4 + 2)) + 2 ^ 24 * ucast (data ! (ptr + n * 4 + 3))) #
    words_of (drop (ptr + n * 4 + 4) (take m data))"
    using words_of_drop [OF b(2)] by simp
  ultimately show ?case
    unfolding u by (simp only: set_block.simps SET_eq [OF b(1)] rbind_simps)
qed simp

lemma block_words: "ptr + 64 \<le> length data \<Longrightarrow>
   set_block data ptr [0..<16] = returns (words_of (take 64 (drop ptr data)))"
  using set_block_eq [of ptr 0 16 "ptr + 64" data] by (simp add: drop_take)

lemma block_transform: "add_saved (run_steps block r) r = rfc_block block r"
  by (simp add: rfc_block_def run_steps_rfc)

lemma rfc_blocks_short [simp]: "length bs < 64 \<Longrightarrow> rfc_blocks bs r = r"
  by (simp add: rfc_blocks.simps)

lemma rfc_blocks_append:
  "length xs = 64 * k \<Longrightarrow> rfc_blocks (xs @ ys) r = rfc_blocks ys (rfc_blocks xs r)"
proof (induction k arbitrary: xs r)
  case (Suc k)
  then have "length (drop 64 xs) = 64 * k" by simp
  from Suc.IH [OF this] Suc.prems show ?case
    by (simp add: rfc_blocks.simps [of "xs @ ys"] rfc_blocks.simps [of xs])
qed simp

lemma body_loop_eq:
  "ptr + 64 * Suc k \<le> length data \<Longrightarrow> 64 * Suc k < 2 ^ 32 \<Longrightarrow>
   \<exists>block. body_loop data ptr r (of_nat (64 * Suc k)) =
     returns (rfc_blocks (take (64 * Suc k) (drop ptr data)) r, block, ptr + 64 * Suc k)"
proof (induction k arbitrary: ptr r)
  case 0
  then show ?case
    by (simp add: body_loop.simps [of _ _ _ 64] block_words block_transform Let_def
        rfc_blocks.simps [of "take 64 _"])
next
  case (Suc k)
  let ?n = "64 * Suc k" and ?r = "rfc_block (words_of (take 64 (drop ptr data))) r"
  define w :: "32 word" where "w = of_nat (64 * Suc (Suc k))"
  have sz: "w - 64 = of_nat ?n" by (simp add: w_def)
  have "unat (of_nat ?n :: 32 word) = ?n" by (rule unat_of_nat_small) (use Suc.prems in simp)
  then have nz: "(of_nat ?n :: 32 word) \<noteq> 0" by (metis unat_0 mult_is_0 nat.distinct(1) zero_neq_numeral)
  from Suc.IH [of "ptr + 64" ?r] Suc.prems obtain block where
    "body_loop data (ptr + 64) ?r (of_nat ?n) =
      returns (rfc_blocks (take ?n (drop (ptr + 64) data)) ?r, block, ptr + 64 + ?n)" by auto
  moreover have "rfc_blocks (take (64 * Suc (Suc k)) (drop ptr data)) r =
      rfc_blocks (take ?n (drop (ptr + 64) data)) ?r"
  proof -
    let ?bs = "take (64 * Suc (Suc k)) (drop ptr data)"
    have "\<not> length ?bs < 64" using Suc.prems by simp
    moreover have "take 64 ?bs = take 64 (drop ptr data)" by simp
    moreover have "drop 64 ?bs = take ?n (drop (ptr + 64) data)" by (simp add: drop_take add.commute)
    ultimately show ?thesis by (simp only: rfc_blocks.simps [of ?bs] if_False)
  qed
  moreover have "set_block data ptr [0..<16] = returns (words_of (take 64 (drop ptr data)))"
    by (rule block_words) (use Suc.prems in simp)
  moreover have "ptr + 64 * Suc (Suc k) = ptr + 64 + ?n" by simp
  ultimately show ?case
    unfolding w_def [symmetric] body_loop.simps [of _ _ _ w] block_transform Let_def sz rbind_simps
    using nz by simp
qed

section \<open>The invariant of the context\<close>

text \<open>
  After the bytes \<open>m\<close>: the registers have absorbed the whole blocks, the buffer starts with the
  rest, and \<open>lo\<close>, \<open>hi\<close> count the bytes modulo \<open>2 ^ 61\<close>.
\<close>

definition regs_of :: "MD5_CTX \<Rightarrow> regs" where
  "regs_of ctx = (md_a ctx, md_b ctx, md_c ctx, md_d ctx)"

definition md5_inv :: "8 word list \<Rightarrow> MD5_CTX \<Rightarrow> bool" where
  "md5_inv m ctx \<longleftrightarrow>
     regs_of ctx = rfc_blocks m rfc_init \<and>
     unat (md_lo ctx) = length m mod 2 ^ 29 \<and>
     unat (md_hi ctx) = length m div 2 ^ 29 mod 2 ^ 32 \<and>
     length (md_buffer ctx) = 64 \<and>
     take (length m mod 64) (md_buffer ctx) = drop (64 * (length m div 64)) m"

lemma Init_inv: "length (md_buffer ctx) = 64 \<Longrightarrow> md5_inv [] (MD5_Init ctx)"
  by (simp add: md5_inv_def regs_of_def MD5_Init_def rfc_init_def)

lemma div_add_carry:
  fixes L n B :: nat
  assumes "0 < B"
  shows "(L + n) div B = L div B + (if (L + n) mod B < L mod B then 1 else 0) + n div B"
proof -
  define x y where "x = L mod B" and "y = n mod B"
  then have lt: "x < B" "y < B" using assms by simp_all
  then have "(x + y) mod B = (if x + y < B then x + y else x + y - B)"
    by (auto simp: mod_if)
  moreover have "(L + n) mod B = (x + y) mod B" by (simp add: x_def y_def mod_add_eq)
  ultimately have m: "(L + n) mod B < L mod B \<longleftrightarrow> \<not> x + y < B"
    using lt by (auto simp: x_def [symmetric])
  have "(x + y) div B = (if x + y < B then 0 else 1)"
    using lt by (auto simp: div_if)
  then have "(L + n) div B = L div B + n div B + (if x + y < B then 0 else 1)"
    by (simp only: div_add1_eq [of L n B] x_def y_def)
  then show ?thesis by (simp only: m) simp
qed

lemma len32: "LENGTH(32) = 32"
  by simp

lemma low29: "unat (w AND 0x1fffffff) = unat (w :: 32 word) mod 2 ^ 29"
proof -
  have "(0x1fffffff :: 32 word) = mask 29" by (simp add: mask_eq_exp_minus_1)
  then have "w AND 0x1fffffff = take_bit 29 w" by (simp only: take_bit_eq_mask)
  then show ?thesis by (simp add: take_bit_eq_mod unat_mod_distrib)
qed

lemma low6_word: "unat (w AND 0x3f) = unat (w :: 32 word) mod 64"
proof -
  have "(0x3f :: 32 word) = mask 6" by (simp add: mask_eq_exp_minus_1)
  then have "w AND 0x3f = take_bit 6 w" by (simp only: take_bit_eq_mask)
  then show ?thesis by (simp add: take_bit_eq_mod unat_mod_distrib)
qed

lemma count_bytes_eq:
  assumes "unat (md_lo ctx) = L mod 2 ^ 29" and "unat (md_hi ctx) = L div 2 ^ 29 mod 2 ^ 32"
  shows "unat (md_lo (count_bytes sz ctx)) = (L + unat sz) mod 2 ^ 29"
    and "unat (md_hi (count_bytes sz ctx)) = (L + unat sz) div 2 ^ 29 mod 2 ^ 32"
proof -
  let ?lo = "(md_lo ctx + sz) AND 0x1fffffff"
  have "unat ?lo = (unat (md_lo ctx) + unat sz) mod 2 ^ 32 mod 2 ^ 29"
    by (simp only: low29 unat_word_ariths(1) len32)
  also have "\<dots> = (unat (md_lo ctx) + unat sz) mod 2 ^ 29"
    by (rule mod_mod_cancel) simp
  finally have lo: "unat ?lo = (L + unat sz) mod 2 ^ 29"
    by (simp add: assms(1) mod_simps)
  then show "unat (md_lo (count_bytes sz ctx)) = (L + unat sz) mod 2 ^ 29"
    by (simp add: count_bytes_def Let_def)
  let ?c = "if (L + unat sz) mod 2 ^ 29 < L mod 2 ^ 29 then 1 else 0 :: nat"
  have c: "?lo < md_lo ctx \<longleftrightarrow> (L + unat sz) mod 2 ^ 29 < L mod 2 ^ 29"
    by (simp add: word_less_nat_alt lo assms(1))
  have "md_hi (count_bytes sz ctx) = md_hi ctx + of_nat ?c + drop_bit 29 sz"
    by (simp add: count_bytes_def Let_def c)
  moreover have "unat (drop_bit 29 sz) = unat sz div 2 ^ 29"
    by (simp add: drop_bit_eq_div unat_div_distrib)
  moreover have "unat (of_nat ?c :: 32 word) = ?c" by simp
  ultimately have "unat (md_hi (count_bytes sz ctx)) =
      (L div 2 ^ 29 + ?c + unat sz div 2 ^ 29) mod 2 ^ 32"
    by (simp only: unat_word_ariths(1) assms(2) len32 mod_add_left_eq mod_add_right_eq add.assoc)
  also have "\<dots> = (L + unat sz) div 2 ^ 29 mod 2 ^ 32"
    by (subst div_add_carry [of "2 ^ 29" L "unat sz"]) simp_all
  finally show "unat (md_hi (count_bytes sz ctx)) = (L + unat sz) div 2 ^ 29 mod 2 ^ 32" .
qed

lemma count_bytes_fields [simp]:
  "regs_of (count_bytes sz ctx) = regs_of ctx" "md_buffer (count_bytes sz ctx) = md_buffer ctx"
  by (simp_all add: count_bytes_def regs_of_def Let_def)

lemma regs_of_buffer [simp]: "regs_of (ctx\<lparr>md_buffer := b\<rparr>) = regs_of ctx"
  by (simp add: regs_of_def)

text \<open>The block loop of the x86 build takes the same steps on the same words.\<close>

lemma bit_word_rcat:
  "bit (word_rcat ws :: 32 word) n \<longleftrightarrow> n < 32 \<and> n div 8 < length ws \<and> bit (rev ws ! (n div 8) :: 8 word) (n mod 8)"
  unfolding word_rcat_def o_def bit_word_of_int_iff bit_horner_sum_uint_exp_iff by simp

lemma bit_byte: "bit (x :: 8 word) n \<Longrightarrow> n < 8"
  using bit_imp_le_length [of x n] by simp

lemma word_rcat_4:
  "(word_rcat [b3, b2, b1, b0 :: 8 word] :: 32 word) =
     ucast b0 OR push_bit 8 (ucast b1) OR push_bit 16 (ucast b2) OR push_bit 24 (ucast b3)"
proof (rule bit_word_eqI)
  fix n assume "n < LENGTH(32)"
  then have "n < 32" by simp
  then have "\<exists>i < 8. n = i \<or> n = 8 + i \<or> n = 16 + i \<or> n = 24 + i" by presburger
  then obtain i where "i < 8" "n = i \<or> n = 8 + i \<or> n = 16 + i \<or> n = 24 + i" by blast
  moreover from this have "\<not> bit (b :: 8 word) (8 + i)" "\<not> bit b (16 + i)" "\<not> bit b (24 + i)" for b
    by (auto dest: bit_byte)
  moreover from \<open>i < 8\<close> have "(16 + i) div 8 = 2" "(16 + i) mod 8 = i" "(24 + i) div 8 = 3" "(24 + i) mod 8 = i"
    by presburger+
  ultimately show "bit (word_rcat [b3, b2, b1, b0] :: 32 word) n \<longleftrightarrow>
      bit (ucast b0 OR push_bit 8 (ucast b1) OR push_bit 16 (ucast b2) OR push_bit 24 (ucast b3) :: 32 word) n"
    by (auto simp: bit_word_rcat bit_simps)
qed

lemma SET_x86_eq: "SET data ptr n = returns w \<Longrightarrow> SET_x86 data ptr n = returns w"
proof -
  assume s: "SET data ptr n = returns w"
  define bs where "bs = take 4 (drop (ptr + n * 4) data)"
  have l: "ptr + n * 4 + 4 \<le> length data" using SET_bound [OF s] by simp
  then have bs: "bs = map (\<lambda>j. data ! (ptr + n * 4 + j)) [0, 1, 2, 3]"
    by (intro nth_equalityI) (auto simp: bs_def less_Suc_eq numeral_eq_Suc nth_Cons split: nat.splits)
  have "SET_x86 data ptr n = returns (word_rcat (rev bs))" using l by (simp add: SET_x86_def bs_def)
  moreover have "word_rcat (rev bs) = w"
    using s l by (simp add: bs SET_def word_rcat_4)
  ultimately show ?thesis by simp
qed

lemma set_block_nth:
  "set_block data ptr ns = returns ws \<Longrightarrow> j < length ns \<Longrightarrow> SET data ptr (ns ! j) = returns (ws ! j)"
proof (induction ns arbitrary: ws j)
  case (Cons n ns)
  then show ?case by (cases j) (auto simp: rbind_eq_returns)
qed simp

lemma run_steps_x86_eq:
  assumes "set_block data ptr [0..<16] = returns block"
  shows "run_steps_x86 data ptr steps r = returns (run_steps block r)"
proof -
  have word: "SET_x86 data ptr k = returns (block ! k)" if "k < 16" for k
    using set_block_nth [OF assms, of k] that by (intro SET_x86_eq) simp
  have "run_steps_x86 data ptr ss r = returns (fold (\<lambda>(f, k, t, n). STEP (basic_function f) (block ! k) t n) ss r)"
    if "\<forall>(f, k, t, n) \<in> set ss. k < 16" for ss
    using that
  proof (induction ss arbitrary: r)
    case (Cons s ss)
    then show ?case by (cases s) (simp add: word)
  qed simp
  moreover have "\<forall>(f, k, t, n) \<in> set steps. k < 16" by (simp add: steps_def)
  ultimately show ?thesis by (simp add: run_steps_def)
qed

lemma body_loop_x86_eq:
  "body_loop data ptr r sz = returns (r', block, p) \<Longrightarrow> body_loop_x86 data ptr r sz = returns (r', p)"
proof (induction data ptr r sz rule: body_loop.induct)
  case (1 data ptr r sz)
  from 1(2) obtain ws where ws: "set_block data ptr [0..<16] = returns ws"
    by (subst (asm) body_loop.simps) (auto simp: rbind_eq_returns simp del: upt_rec_numeral)
  with 1 show ?case
    by (subst body_loop_x86.simps, subst (asm) body_loop.simps)
      (auto simp: run_steps_x86_eq [OF ws] Let_def simp del: upt_rec_numeral split: if_splits)
qed

lemma body_ensures:
  assumes "unat sz = 64 * Suc k" and "ptr + unat sz \<le> length data"
  shows "ensures (body x86 ctx data ptr sz) (\<lambda>(ctx', p).
    regs_of ctx' = rfc_blocks (take (unat sz) (drop ptr data)) (regs_of ctx) \<and>
    md_lo ctx' = md_lo ctx \<and> md_hi ctx' = md_hi ctx \<and> md_buffer ctx' = md_buffer ctx \<and>
    p = ptr + unat sz)"
proof -
  have sz: "sz = of_nat (64 * Suc k)" using assms(1) by (metis of_nat_unat_id)
  have "64 * Suc k < 2 ^ 32" using unsigned_less [of sz, where ?'a = nat] assms(1) by simp
  then obtain block where
    "body_loop data ptr (regs_of ctx) (of_nat (64 * Suc k)) =
      returns (rfc_blocks (take (64 * Suc k) (drop ptr data)) (regs_of ctx), block, ptr + 64 * Suc k)"
    using body_loop_eq [of ptr k data "regs_of ctx"] assms by auto
  then have "body_loop data ptr (regs_of ctx) sz =
      returns (rfc_blocks (take (unat sz) (drop ptr data)) (regs_of ctx), block, ptr + unat sz)"
    by (simp only: assms(1) sz [symmetric])
  from this body_loop_x86_eq [OF this] show ?thesis
    unfolding body_def regs_of_def [symmetric] by (auto simp: regs_of_def split: prod.splits)
qed

lemma high26_word: "unat (w AND NOT 0x3f) = 64 * (unat (w :: 32 word) div 64)"
proof -
  have "(0x3f :: 32 word) = mask 6" by (simp add: mask_eq_exp_minus_1)
  moreover have "w AND NOT (mask 6) = push_bit 6 (drop_bit 6 w)"
    by (rule bit_word_eqI) (auto simp: bit_simps)
  ultimately have "w AND NOT 0x3f = push_bit 6 (drop_bit 6 w)" by (simp only:)
  also have "\<dots> = (w div 64) * 64" by (simp add: push_bit_eq_mult drop_bit_eq_div)
  finally have w: "w AND NOT 0x3f = (w div 64) * 64" .
  have "unat w div 64 * 64 < 2 ^ 32"
    using unsigned_less [of w, where ?'a = nat] by (simp add: le_less_trans [OF div_times_less_eq_dividend])
  then have "unat ((w div 64) * 64) = unat w div 64 * 64"
    by (simp only: unat_word_ariths(2) unat_div_distrib len32 unat_numeral) simp
  then show ?thesis unfolding w by (simp add: mult.commute)
qed

lemma rfc_blocks_whole: "rfc_blocks m r = rfc_blocks (take (64 * (length m div 64)) m) r"
proof -
  let ?n = "64 * (length m div 64)"
  have "rfc_blocks (take ?n m @ drop ?n m) r = rfc_blocks (drop ?n m) (rfc_blocks (take ?n m) r)"
    by (rule rfc_blocks_append [of _ "length m div 64"]) simp
  moreover have "length (drop ?n m) < 64"
    by (simp add: minus_mult_div_eq_mod)
  ultimately show ?thesis by simp
qed

text \<open>The part of the invariant about the registers and the buffer.\<close>

definition absorbed :: "8 word list \<Rightarrow> MD5_CTX \<Rightarrow> bool" where
  "absorbed m ctx \<longleftrightarrow> regs_of ctx = rfc_blocks m rfc_init \<and> length (md_buffer ctx) = 64 \<and>
     take (length m mod 64) (md_buffer ctx) = drop (64 * (length m div 64)) m"

lemma md5_inv_absorbed:
  "md5_inv m ctx \<longleftrightarrow> absorbed m ctx \<and> unat (md_lo ctx) = length m mod 2 ^ 29 \<and>
     unat (md_hi ctx) = length m div 2 ^ 29 mod 2 ^ 32"
  by (auto simp: md5_inv_def absorbed_def)

lemma update_blocks_ensures:
  assumes regs: "regs_of ctx = rfc_blocks m rfc_init" and m: "length m = 64 * j"
    and buf: "length (md_buffer ctx) = 64" and n: "pos + unat sz \<le> length data"
  shows "ensures (update_blocks x86 ctx data pos sz) (\<lambda>ctx'.
    absorbed (m @ take (unat sz) (drop pos data)) ctx' \<and>
    md_lo ctx' = md_lo ctx \<and> md_hi ctx' = md_hi ctx)"
proof -
  define d where "d = take (unat sz) (drop pos data)"
  let ?q = "64 * (unat sz div 64)"
  have len: "length d = unat sz" using n by (simp add: d_def)
  have all: "rfc_blocks (m @ d) rfc_init = rfc_blocks (take ?q d) (rfc_blocks m rfc_init)"
    using rfc_blocks_append [OF m, of d] rfc_blocks_whole [of d] unfolding len by metis
  have pos: "length (m @ d) mod 64 = unat sz mod 64" "64 * (length (m @ d) div 64) = length m + ?q"
    by (simp_all add: len m)
  have rest: "take (unat sz mod 64) (drop (pos + ?q) data) = drop ?q d"
    by (simp add: d_def drop_take minus_mult_div_eq_mod add.commute)
  have step: "ensures (if sz \<ge> 64 then rbind (body x86 ctx data pos (sz AND NOT 0x3f))
        (\<lambda>(ctx, pos). returns (ctx, pos, sz AND 0x3f)) else returns (ctx, pos, sz))
      (\<lambda>(ctx', pos', sz'). regs_of ctx' = rfc_blocks (m @ d) rfc_init \<and> md_lo ctx' = md_lo ctx \<and>
        md_hi ctx' = md_hi ctx \<and> md_buffer ctx' = md_buffer ctx \<and> pos' = pos + ?q \<and>
        unat sz' = unat sz mod 64)"
  proof (cases "sz \<ge> 64")
    case True
    then have "64 \<le> unat sz" by (simp add: word_le_nat_alt)
    then obtain k where "unat sz div 64 = Suc k" by (metis div_greater_zero_iff gr0_implies_Suc zero_less_numeral)
    then have "unat (sz AND NOT 0x3f) = 64 * Suc k" by (simp only: high26_word)
    moreover have "pos + unat (sz AND NOT 0x3f) \<le> length data"
      unfolding high26_word using n times_div_less_eq_dividend [of 64 "unat sz"] by linarith
    ultimately have "ensures (body x86 ctx data pos (sz AND NOT 0x3f)) (\<lambda>(ctx', p).
        regs_of ctx' = rfc_blocks (take ?q (drop pos data)) (regs_of ctx) \<and>
        md_lo ctx' = md_lo ctx \<and> md_hi ctx' = md_hi ctx \<and> md_buffer ctx' = md_buffer ctx \<and> p = pos + ?q)"
      using body_ensures [of "sz AND NOT 0x3f" k pos data x86 ctx] by (simp only: high26_word)
    moreover have "take ?q d = take ?q (drop pos data)" by (simp add: d_def min_def)
    ultimately show ?thesis
      using True by (auto simp: all regs low6_word elim!: ensures_mono)
  next
    case False
    then have "unat sz < 64" by (simp add: word_le_nat_alt)
    then show ?thesis using False all regs by simp
  qed
  then obtain x where x: "(if sz \<ge> 64 then rbind (body x86 ctx data pos (sz AND NOT 0x3f))
        (\<lambda>(ctx, pos). returns (ctx, pos, sz AND 0x3f)) else returns (ctx, pos, sz)) = returns x"
    and post: "case x of (ctx', pos', sz') \<Rightarrow> regs_of ctx' = rfc_blocks (m @ d) rfc_init \<and> md_lo ctx' = md_lo ctx \<and>
        md_hi ctx' = md_hi ctx \<and> md_buffer ctx' = md_buffer ctx \<and> pos' = pos + ?q \<and>
        unat sz' = unat sz mod 64"
    by (rule ensuresE)
  obtain ctx' pos' sz' where xe: "x = (ctx', pos', sz')" by (cases x)
  have e: "(if sz \<ge> 64 then rbind (body x86 ctx data pos (sz AND NOT 0x3f))
        (\<lambda>(ctx, pos). returns (ctx, pos, sz AND 0x3f)) else returns (ctx, pos, sz)) = returns (ctx', pos', sz')"
    and c: "regs_of ctx' = rfc_blocks (m @ d) rfc_init" "md_lo ctx' = md_lo ctx"
      "md_hi ctx' = md_hi ctx" "md_buffer ctx' = md_buffer ctx" "pos' = pos + ?q" "unat sz' = unat sz mod 64"
    using x post by (simp_all add: xe)
  have b: "pos + ?q + unat sz mod 64 \<le> length data" "unat sz mod 64 \<le> 64"
    using n by simp_all
  then have "memcpy (md_buffer ctx) 0 data (pos + ?q) (unat sz mod 64) =
      returns (splice (md_buffer ctx) 0 (drop ?q d))"
    using buf by (simp add: memcpy_def rest)
  moreover have "length (drop ?q d) = unat sz mod 64"
    by (simp add: len minus_mult_div_eq_mod)
  ultimately show ?thesis
    using c buf pos b(2) unfolding update_blocks_def e rbind_simps prod.case d_def [symmetric]
    by (simp add: absorbed_def splice_def)
qed

lemma splice_full:
  assumes "length buf = n" and "i + length x = n"
  shows "splice buf i x = take i buf @ x"
  using assms by (simp add: splice_def)

lemma buffered_split:
  assumes "absorbed m ctx"
  obtains m1 m2 where "m = m1 @ m2" and "length m1 = 64 * (length m div 64)"
    and "length m2 = length m mod 64" and "regs_of ctx = rfc_blocks m1 rfc_init"
    and "take (length m mod 64) (md_buffer ctx) = m2"
proof -
  let ?n = "64 * (length m div 64)"
  show thesis
  proof (rule that [of "take ?n m" "drop ?n m"])
    show "length (drop ?n m) = length m mod 64" by (simp add: minus_mult_div_eq_mod)
    show "regs_of ctx = rfc_blocks (take ?n m) rfc_init"
      using assms rfc_blocks_whole [of m rfc_init] by (simp add: absorbed_def)
  qed (use assms in \<open>simp_all add: absorbed_def\<close>)
qed

lemma same_block:
  fixes L n :: nat
  assumes "L mod 64 + n < 64"
  shows "(L + n) div 64 = L div 64" and "(L + n) mod 64 = L mod 64 + n"
proof -
  define q r where "q = L div 64" and "r = L mod 64"
  then have L: "L = 64 * q + r" "r < 64" by simp_all
  from assms have "r + n < 64" by (simp add: r_def)
  then show "(L + n) div 64 = L div 64" "(L + n) mod 64 = L mod 64 + n"
    using L(2) by (simp_all add: L(1) add.assoc)
qed

text \<open>The three ways \<^verbatim>\<open>MD5_Update\<close> takes, on the registers and the buffer.\<close>

abbreviation counters_kept :: "MD5_CTX \<Rightarrow> MD5_CTX \<Rightarrow> bool" where
  "counters_kept ctx c \<equiv> md_lo c = md_lo ctx \<and> md_hi c = md_hi ctx"

lemma update_aligned:
  assumes "absorbed m ctx" and "length m mod 64 = 0" and "unat sz \<le> length data"
  shows "ensures (update_blocks x86 ctx data 0 sz) (\<lambda>c.
    absorbed (m @ take (unat sz) data) c \<and> counters_kept ctx c)"
proof -
  have "length m = 64 * (length m div 64)" 
    using assms(2) mult_div_mod_eq [of 64 "length m"] by simp
  from update_blocks_ensures [OF _ this, of ctx 0 sz data x86] show ?thesis
    using assms by (simp add: absorbed_def)
qed

lemma update_short:
  assumes ab: "absorbed m ctx" and lt: "length m mod 64 + unat sz < 64" and n: "unat sz \<le> length data"
  shows "ensures (rbind (memcpy (md_buffer ctx) (length m mod 64) data 0 (unat sz)) (\<lambda>b.
      returns (ctx\<lparr>md_buffer := b\<rparr>))) (\<lambda>c.
    absorbed (m @ take (unat sz) data) c \<and> counters_kept ctx c)"
proof -
  define d where "d = take (unat sz) data"
  define used where "used = length m mod 64"
  obtain m1 m2 where m: "m = m1 @ m2" "length m1 = 64 * (length m div 64)" "length m2 = used"
    "regs_of ctx = rfc_blocks m1 rfc_init" "take used (md_buffer ctx) = m2"
    using buffered_split [OF ab] unfolding used_def by metis
  have buf: "length (md_buffer ctx) = 64" using ab by (simp add: absorbed_def)
  have len: "length d = unat sz" using n by (simp add: d_def)
  have q: "length (m @ d) div 64 = length m div 64" "length (m @ d) mod 64 = used + unat sz"
    unfolding length_append len used_def by (rule same_block [OF lt])+
  have "length (m2 @ d) < 64" using m(3) lt by (simp add: len used_def)
  then have "rfc_blocks ((m1 @ m2) @ d) rfc_init = regs_of ctx"
    using rfc_blocks_append [OF m(2), of "m2 @ d"] m(4) by simp
  then have "rfc_blocks (m @ d) rfc_init = regs_of ctx" by (simp only: m(1))
  moreover have "take (used + unat sz) (splice (md_buffer ctx) used d) = m2 @ d"
  proof -
    have "splice (md_buffer ctx) used d = (m2 @ d) @ drop (used + unat sz) (md_buffer ctx)"
      by (simp add: splice_def m(5) len)
    moreover have "length (m2 @ d) = used + unat sz" by (simp add: m(3) len)
    ultimately show ?thesis by (metis append_eq_conv_conj)
  qed
  moreover have "drop (64 * (length m div 64)) (m @ d) = m2 @ d"
    using m(1,2) by (metis append.assoc append_eq_conv_conj)
  ultimately have "absorbed (m @ d) (ctx\<lparr>md_buffer := splice (md_buffer ctx) used d\<rparr>)"
    unfolding absorbed_def q using buf lt len by (simp add: used_def)
  then show ?thesis
    using n buf lt by (simp add: memcpy_def used_def [symmetric] d_def [symmetric])
qed

lemma update_fill:
  assumes ab: "absorbed m ctx" and av: "unat av = 64 - length m mod 64" and le: "av \<le> sz"
    and n: "unat sz \<le> length data"
  shows "ensures (rbind (memcpy (md_buffer ctx) (length m mod 64) data 0 (unat av)) (\<lambda>b.
      rbind (body x86 (ctx\<lparr>md_buffer := b\<rparr>) b 0 64) (\<lambda>(ctx, _).
      update_blocks x86 ctx data (unat av) (sz - av)))) (\<lambda>c.
    absorbed (m @ take (unat sz) data) c \<and> counters_kept ctx c)"
proof -
  define used where "used = length m mod 64"
  define b where "b = take used (md_buffer ctx) @ take (unat av) data"
  obtain m1 m2 where m: "m = m1 @ m2" "length m1 = 64 * (length m div 64)" "length m2 = used"
    "regs_of ctx = rfc_blocks m1 rfc_init" "take used (md_buffer ctx) = m2"
    using buffered_split [OF ab] unfolding used_def by metis
  have buf: "length (md_buffer ctx) = 64" using ab by (simp add: absorbed_def)
  have u: "used < 64" by (simp add: used_def)
  have k: "unat av = 64 - used" "unat av \<le> unat sz"
    using av le by (simp_all add: used_def word_le_nat_alt)
  then have lb: "length b = 64" using m(3,5) n u by (simp add: b_def)
  have cp: "memcpy (md_buffer ctx) used data 0 (unat av) = returns b"
    using buf k n u by (simp add: memcpy_def splice_full b_def)
  obtain c p where c: "body x86 (ctx\<lparr>md_buffer := b\<rparr>) b 0 64 = returns (c, p)"
    "regs_of c = rfc_blocks b (regs_of ctx)" "counters_kept ctx c" "md_buffer c = b"
    using body_ensures [of 64 0 0 b x86 "ctx\<lparr>md_buffer := b\<rparr>"] lb by (auto elim!: ensuresE)
  have r: "regs_of c = rfc_blocks (m @ take (unat av) data) rfc_init"
    using rfc_blocks_append [OF m(2), of b] m(1,4,5) c(2) by (simp add: b_def)
  have j: "length (m @ take (unat av) data) = 64 * (length m div 64 + 1)"
  proof -
    have "length (m @ take (unat av) data) = length m + (64 - used)" using k n by simp
    then show ?thesis unfolding used_def by presburger
  qed
  have s: "unat (sz - av) = unat sz - unat av" using le by (simp add: unat_sub)
  have d: "(m @ take (unat av) data) @ take (unat sz - unat av) (drop (unat av) data) = m @ take (unat sz) data"
    using k by (simp add: take_add [symmetric])
  from update_blocks_ensures [OF r j, of "unat av" "sz - av" data] c(4) lb k(2) n s
  have "ensures (update_blocks x86 c data (unat av) (sz - av)) (\<lambda>c'.
      absorbed (m @ take (unat sz) data) c' \<and> counters_kept c c')"
    unfolding s d by simp
  then show ?thesis
    by (simp add: used_def [symmetric] cp c)
qed

lemma Update_inv:
  assumes inv: "md5_inv m ctx" and n: "unat sz \<le> length data"
  shows "ensures (MD5_Update x86 ctx data sz) (md5_inv (m @ take (unat sz) data))"
proof -
  let ?ctx = "count_bytes sz ctx" and ?av = "64 - (md_lo ctx AND 0x3f)"
  from inv have lo: "unat (md_lo ctx) = length m mod 2 ^ 29"
    and hi: "unat (md_hi ctx) = length m div 2 ^ 29 mod 2 ^ 32"
    and ab: "absorbed m ?ctx" by (simp_all add: md5_inv_absorbed absorbed_def)
  have "length m mod 2 ^ 29 mod 64 = length m mod 64" by (rule mod_mod_cancel) simp
  then have used: "unat (md_lo ctx AND 0x3f) = length m mod 64" by (simp only: low6_word lo)
  then have "md_lo ctx AND 0x3f \<le> 64" by (simp add: word_le_nat_alt)
  then have av: "unat ?av = 64 - length m mod 64" by (simp add: unat_sub used)
  have "ensures (MD5_Update x86 ctx data sz) (\<lambda>c. absorbed (m @ take (unat sz) data) c \<and> counters_kept ?ctx c)"
  proof (cases "length m mod 64 = 0")
    case True
    with used have "md_lo ctx AND 0x3f = 0" by (simp add: unat_eq_0)
    with update_aligned [OF ab True n] show ?thesis by (simp add: MD5_Update_def)
  next
    case False
    with used have nz: "md_lo ctx AND 0x3f \<noteq> 0" by (metis unat_0)
    show ?thesis
    proof (cases "sz < ?av")
      case True
      then have "length m mod 64 + unat sz < 64" using av by (simp add: word_less_nat_alt)
      from update_short [OF ab this n] nz True show ?thesis
        unfolding MD5_Update_def Let_def used by simp
    next
      case False
      then have "?av \<le> sz" by simp
      from update_fill [OF ab av this n] nz False show ?thesis
        unfolding MD5_Update_def Let_def used by simp
    qed
  qed
  then show ?thesis
    by (rule ensures_mono) (use count_bytes_eq [OF lo hi, of sz] n in \<open>simp add: md5_inv_absorbed\<close>)
qed

section \<open>The digest\<close>

lemma le_bytes_map: "le_bytes w = map (\<lambda>k. ucast (drop_bit (8 * k) w)) [0..<4]"
  by (simp add: le_bytes_def upt_rec)

lemma digest_le_bytes: "digest_bytes (a, b, c, d) = le_bytes a @ le_bytes b @ le_bytes c @ le_bytes d"
  by (simp add: digest_bytes_def le_bytes_map)

text \<open>The counters give the length in bits, the least significant byte first.\<close>

lemma length_bytes:
  assumes lo: "unat lo = n mod 2 ^ 29" and hi: "unat hi = n div 2 ^ 29 mod 2 ^ 32"
  shows "le_bytes (push_bit 3 lo) @ le_bytes hi = rfc_length n"
proof -
  define w :: "64 word" where "w = of_nat (8 * n)"
  have uw: "unat w = 8 * n mod 2 ^ 64"
    unfolding w_def by (simp add: unat_of_nat take_bit_eq_mod del: of_nat_mult)
  have "unat (ucast w :: 32 word) = 8 * n mod 2 ^ 64 mod 2 ^ 32"
    by (simp add: unsigned_ucast_eq uw take_bit_eq_mod)
  also have "\<dots> = 8 * n mod 2 ^ 32" by (rule mod_mod_cancel) simp
  also have "\<dots> = 8 * (n mod 2 ^ 29)" using mult_mod_right [of 8 n "2 ^ 29"] by simp
  also have "\<dots> = unat (push_bit 3 lo)"
    by (simp add: push_bit_eq_mult unat_word_ariths lo)
  finally have l: "push_bit 3 lo = ucast w" by (simp add: word_unat_eq_iff)
  have "unat (ucast (drop_bit 32 w) :: 32 word) = 8 * n mod 2 ^ 64 div 2 ^ 32 mod 2 ^ 32"
    by (simp add: unsigned_ucast_eq uw take_bit_eq_mod drop_bit_eq_div unat_div_distrib)
  also have "\<dots> = n div 2 ^ 29 mod 2 ^ 32"
  proof -
    have "8 * n mod 2 ^ 64 = 8 * (n mod 2 ^ 61)" using mult_mod_right [of 8 n "2 ^ 61"] by simp
    then have "8 * n mod 2 ^ 64 div 2 ^ 32 = n mod 2 ^ 61 div 2 ^ 29"
      using div_mult_mult1 [of 8 "n mod 2 ^ 61" "2 ^ 29"] by simp
    also have "\<dots> = n div 2 ^ 29 mod 2 ^ 32"
      using drop_bit_take_bit [of 29 61 n] by (simp add: drop_bit_eq_div take_bit_eq_mod)
    finally show ?thesis by simp
  qed
  finally have h: "hi = ucast (drop_bit 32 w)" by (simp add: word_unat_eq_iff hi)
  have "ucast (drop_bit (8 * k) (ucast w :: 32 word)) = (ucast (drop_bit (8 * k) w) :: 8 word)"
    if "k < 4" for k
    by (rule bit_word_eqI) (use that in \<open>auto simp: bit_simps\<close>)
  then have "le_bytes (ucast w) = map (\<lambda>k. ucast (drop_bit (8 * k) w)) [0..<4]"
    by (simp add: le_bytes_map)
  moreover have "ucast (drop_bit (8 * k) (ucast (drop_bit 32 w) :: 32 word)) =
      (ucast (drop_bit (8 * (k + 4)) w) :: 8 word)" if "k < 4" for k
    by (rule bit_word_eqI) (use that in \<open>auto simp: bit_simps ac_simps\<close>)
  then have "le_bytes (ucast (drop_bit 32 w)) = map (\<lambda>k. ucast (drop_bit (8 * (k + 4)) w)) [0..<4]"
    by (simp add: le_bytes_map)
  ultimately show ?thesis
    unfolding l h by (simp add: rfc_length_def upt_rec w_def)
qed

lemma length_le_bytes [simp]: "length (le_bytes w) = 4"
  by (simp add: le_bytes_def)

lemma length_rfc_length [simp]: "length (rfc_length n) = 8"
  by (simp add: rfc_length_def)

lemma body_64:
  assumes "length b = 64"
  obtains c where "body x86 ctx b 0 64 = returns (c, 64)" and "regs_of c = rfc_blocks b (regs_of ctx)"
    and "counters_kept ctx c" and "md_buffer c = md_buffer ctx"
  using body_ensures [of 64 0 0 b x86 ctx] assms by (auto elim!: ensuresE)

text \<open>The last block: \<open>x\<close> is in the buffer already, zeros and the length complete it.\<close>

lemma final_block_eq:
  assumes regs: "regs_of ctx = rfc_blocks p rfc_init" and p: "length p = 64 * j"
    and x: "md_buffer ctx = x @ y" "length x = used" "length x + length y = 64" "used \<le> 56"
    and lo: "unat (md_lo ctx) = n mod 2 ^ 29" and hi: "unat (md_hi ctx) = n div 2 ^ 29 mod 2 ^ 32"
    and r: "16 \<le> length result"
  shows "ensures (final_block x86 result ctx used (64 - used)) (\<lambda>(result', _).
    result' = digest_bytes (rfc_blocks (p @ x @ replicate (56 - used) 0 @ rfc_length n) rfc_init) @
      drop 16 result)"
proof -
  let ?b = "x @ replicate (56 - used) 0 @ rfc_length n"
  let ?ctx = "ctx\<lparr>md_lo := push_bit 3 (md_lo ctx), md_buffer := ?b\<rparr>"
  have b: "length ?b = 64" using x by simp
  have m1: "memset0 (md_buffer ctx) used (56 - used) =
      returns (x @ replicate (56 - used) 0 @ drop (56 - used) y)"
    using x by (simp add: memset0_def splice_def)
  have m2: "memcpy (x @ replicate (56 - used) 0 @ drop (56 - used) y) 56
      (le_bytes (push_bit 3 (md_lo ctx)) @ le_bytes (md_hi ctx)) 0 8 = returns ?b"
    using x unfolding length_bytes [OF lo hi] by (simp add: memcpy_def splice_def)
  obtain c where c: "body x86 ?ctx ?b 0 64 = returns (c, 64)" "regs_of c = rfc_blocks ?b (regs_of ?ctx)"
    using body_64 [OF b, of x86 ?ctx] by metis
  have rg: "regs_of ?ctx = regs_of ctx" by (simp add: regs_of_def)
  have "regs_of c = rfc_blocks (p @ ?b) rfc_init"
    unfolding c(2) rg regs by (rule rfc_blocks_append [OF p, symmetric])
  then have "le_bytes (md_a c) @ le_bytes (md_b c) @ le_bytes (md_c c) @ le_bytes (md_d c) =
      digest_bytes (rfc_blocks (p @ ?b) rfc_init)"
    by (simp add: regs_of_def digest_le_bytes [symmetric])
  moreover have "length (digest_bytes r) = 16" for r
    by (cases r) (simp add: digest_bytes_def)
  ultimately have m3: "memcpy result 0 (le_bytes (md_a c) @ le_bytes (md_b c) @ le_bytes (md_c c) @
      le_bytes (md_d c)) 0 16 = returns (digest_bytes (rfc_blocks (p @ ?b) rfc_init) @ drop 16 result)"
    using r by (simp add: memcpy_def splice_def)
  show ?thesis
    by (simp add: final_block_def m1 m2 m3 Let_def c(1) del: append.assoc append_assoc)
qed

text \<open>What \<^verbatim>\<open>MD5_Final\<close> finds: the absorbed blocks \<open>m1\<close>, the buffered bytes \<open>m2\<close>.\<close>

lemma Final_start:
  assumes inv: "md5_inv m ctx"
  obtains m1 m2 used where "length m1 = 64 * (length m div 64)" and "length m2 = used"
    and "regs_of ctx = rfc_blocks m1 rfc_init" and "used < 64" and "length (md_buffer ctx) = 64"
    and "unat (md_lo ctx AND 0x3f) = used"
    and "store (md_buffer ctx) used 0x80 = returns ((m2 @ [0x80]) @ drop (used + 1) (md_buffer ctx))"
    and "md5 m = digest_bytes (rfc_blocks
      (m1 @ m2 @ 0x80 # replicate ((119 - used) mod 64) 0 @ rfc_length (length m)) rfc_init)"
proof -
  define used where "used = length m mod 64"
  from inv have lo: "unat (md_lo ctx) = length m mod 2 ^ 29" and ab: "absorbed m ctx"
    by (simp_all add: md5_inv_absorbed absorbed_def)
  have "length m mod 2 ^ 29 mod 64 = length m mod 64" by (rule mod_mod_cancel) simp
  then have u: "unat (md_lo ctx AND 0x3f) = used" by (simp only: low6_word lo used_def)
  have buf: "length (md_buffer ctx) = 64" using ab by (simp add: absorbed_def)
  have u64: "used < 64" by (simp add: used_def)
  obtain m1 m2 where m: "m = m1 @ m2" "length m1 = 64 * (length m div 64)" "length m2 = used"
    "regs_of ctx = rfc_blocks m1 rfc_init" "take used (md_buffer ctx) = m2"
    using buffered_split [OF ab] unfolding used_def by metis
  have "store (md_buffer ctx) used 0x80 = returns ((m2 @ [0x80]) @ drop (used + 1) (md_buffer ctx))"
    using buf u64 m(5) by (simp add: upd_conv_take_nth_drop)
  moreover have "md5 m = digest_bytes (rfc_blocks (m1 @ m2 @ rfc_pad (length m)) rfc_init)"
    unfolding md5_def by (simp only: m(1) append.assoc)
  ultimately show ?thesis
    using that [OF m(2,3,4) u64 buf u] by (simp add: rfc_pad_def used_def)
qed

lemma Final_digest:
  assumes inv: "md5_inv m ctx" and r: "16 \<le> length result"
  shows "ensures (MD5_Final x86 result ctx) (\<lambda>(result', _). result' = md5 m @ drop 16 result)"
proof -
  from inv have lo: "unat (md_lo ctx) = length m mod 2 ^ 29"
    and hi: "unat (md_hi ctx) = length m div 2 ^ 29 mod 2 ^ 32" by (simp_all add: md5_inv_absorbed)
  obtain m1 m2 used where m: "length m1 = 64 * (length m div 64)" "length m2 = used"
    "regs_of ctx = rfc_blocks m1 rfc_init" and u64: "used < 64" and buf: "length (md_buffer ctx) = 64"
    and u: "unat (md_lo ctx AND 0x3f) = used"
    and st: "store (md_buffer ctx) used 0x80 = returns ((m2 @ [0x80]) @ drop (used + 1) (md_buffer ctx))"
    and md: "md5 m = digest_bytes (rfc_blocks
      (m1 @ m2 @ 0x80 # replicate ((119 - used) mod 64) 0 @ rfc_length (length m)) rfc_init)"
    using Final_start [OF inv] by metis
  let ?x = "m2 @ [0x80]"
  let ?ctx = "ctx\<lparr>md_buffer := ?x @ drop (used + 1) (md_buffer ctx)\<rparr>"
  show ?thesis
  proof (cases "used < 56")
    case True
    then have "(119 - used) mod 64 = 56 - (used + 1)" by (simp add: mod_if)
    then have "md5 m = digest_bytes
        (rfc_blocks (m1 @ ?x @ replicate (56 - (used + 1)) 0 @ rfc_length (length m)) rfc_init)"
      unfolding md by simp
    moreover have "ensures (final_block x86 result ?ctx (used + 1) (64 - (used + 1))) (\<lambda>(result', _).
        result' = digest_bytes (rfc_blocks (m1 @ ?x @ replicate (56 - (used + 1)) 0 @
          rfc_length (length m)) rfc_init) @ drop 16 result)"
      by (rule final_block_eq [OF _ m(1), where y = "drop (used + 1) (md_buffer ctx)"])
        (use True m(2,3) lo hi r buf in \<open>simp_all\<close>)
    moreover have "\<not> 63 - used < 8" using True by arith
    ultimately show ?thesis
      by (simp add: MD5_Final_def u st Let_def)
  next
    case False
    let ?b = "?x @ replicate (63 - used) 0"
    have b: "length ?b = 64" using m(2) u64 by simp
    have ms: "memset0 (?x @ drop (used + 1) (md_buffer ctx)) (used + 1) (64 - (used + 1)) = returns ?b"
      using buf m(2) u64 by (simp add: memset0_def splice_full)
    obtain c where c: "body x86 (ctx\<lparr>md_buffer := ?b\<rparr>) ?b 0 64 = returns (c, 64)"
      "regs_of c = rfc_blocks ?b (regs_of ctx)" "counters_kept ctx c" "md_buffer c = ?b"
      using body_64 [OF b, of x86 "ctx\<lparr>md_buffer := ?b\<rparr>"] by auto
    have rg: "regs_of c = rfc_blocks (m1 @ ?b) rfc_init"
      unfolding c(2) m(3) by (rule rfc_blocks_append [OF m(1), symmetric])
    have len: "length (m1 @ ?b) = 64 * (length m div 64 + 1)" using b m(1) by simp
    have "(119 - used) mod 64 = (63 - used) + 56" using False u64 by (simp add: mod_if)
    then have "replicate ((119 - used) mod 64) (0 :: 8 word) = replicate (63 - used) 0 @ replicate 56 0"
      by (simp only: replicate_add)
    then have "md5 m = digest_bytes
        (rfc_blocks ((m1 @ ?b) @ [] @ replicate (56 - 0) 0 @ rfc_length (length m)) rfc_init)"
      unfolding md by simp
    moreover have "ensures (final_block x86 result c 0 (64 - 0)) (\<lambda>(result', _).
        result' = digest_bytes (rfc_blocks ((m1 @ ?b) @ [] @ replicate (56 - 0) 0 @
          rfc_length (length m)) rfc_init) @ drop 16 result)"
      by (rule final_block_eq [OF rg len, of _ ?b]) (use b c(3,4) lo hi r in \<open>simp_all\<close>)
    moreover have "63 - used < 8" using False by arith
    ultimately show ?thesis
      using ms c(1) by (simp add: MD5_Final_def u st Let_def)
  qed
qed

section \<open>Hashing in chunks\<close>

text \<open>
  The contract of a hash that is fed piece by piece: an invariant relates the context to the
  bytes absorbed so far. The MD5 functions meet it, with chunks of fewer than \<open>2 ^ 32\<close> bytes.
\<close>

fun feed :: "('ctx \<Rightarrow> 'b list \<Rightarrow> 'ctx run) \<Rightarrow> 'ctx \<Rightarrow> 'b list list \<Rightarrow> 'ctx run" where
  "feed upd ctx [] = returns ctx"
| "feed upd ctx (d # ds) = rbind (upd ctx d) (\<lambda>ctx. feed upd ctx ds)"

locale incremental_hash =
  fixes upd :: "'ctx \<Rightarrow> 'b list \<Rightarrow> 'ctx run"
    and fin :: "'ctx \<Rightarrow> 'd run"
    and inv :: "'b list \<Rightarrow> 'ctx \<Rightarrow> bool"
    and chunk :: "'b list \<Rightarrow> bool"
    and digest :: "'b list \<Rightarrow> 'd"
  assumes upd_inv: "inv m ctx \<Longrightarrow> chunk d \<Longrightarrow> ensures (upd ctx d) (inv (m @ d))"
    and fin_digest: "inv m ctx \<Longrightarrow> fin ctx = returns (digest m)"
begin

lemma feed_inv: "inv m ctx \<Longrightarrow> \<forall>d \<in> set ds. chunk d \<Longrightarrow> ensures (feed upd ctx ds) (inv (m @ concat ds))"
proof (induction ds arbitrary: m ctx)
  case (Cons d ds)
  from upd_inv [OF Cons.prems(1), of d] Cons.prems(2)
  obtain c where "upd ctx d = returns c" "inv (m @ d) c" by (auto elim!: ensuresE)
  with Cons.IH [of "m @ d" c] Cons.prems(2) show ?case by simp
qed simp

lemma feed_digest:
  assumes "inv [] ctx" and "\<forall>d \<in> set ds. chunk d"
  shows "rbind (feed upd ctx ds) fin = returns (digest (concat ds))"
proof -
  obtain c where "feed upd ctx ds = returns c" "inv (concat ds) c"
    using feed_inv [OF assms] by (auto elim!: ensuresE)
  then show ?thesis by (simp add: fin_digest)
qed

end

definition Update_chunk :: "bool \<Rightarrow> MD5_CTX \<Rightarrow> 8 word list \<Rightarrow> MD5_CTX run" where
  "Update_chunk x86 ctx d = MD5_Update x86 ctx d (of_nat (length d))"

definition Final_result :: "bool \<Rightarrow> 8 word list \<Rightarrow> MD5_CTX \<Rightarrow> 8 word list run" where
  "Final_result x86 result ctx = rbind (MD5_Final x86 result ctx) (\<lambda>(result, _). returns result)"

interpretation md5_hash: incremental_hash "Update_chunk x86" "Final_result x86 (replicate 16 0)" md5_inv
  "\<lambda>d. length d < 2 ^ 32" md5
proof
  show "ensures (Update_chunk x86 ctx d) (md5_inv (m @ d))"
    if "md5_inv m ctx" and "length d < 2 ^ 32" for m ctx d
  proof -
    have "unat (of_nat (length d) :: 32 word) = length d"
      using that(2) by (simp add: unat_of_nat_small)
    then show ?thesis
      using Update_inv [OF that(1), of "of_nat (length d)" d] by (simp add: Update_chunk_def)
  qed
  show "Final_result x86 (replicate 16 0) ctx = returns (md5 m)" if "md5_inv m ctx" for m ctx
    using Final_digest [OF that, of "replicate 16 0" x86]
    by (auto simp: Final_result_def elim!: ensuresE)
qed

lemma md5_chunks:
  assumes "length (md_buffer ctx) = 64" and "\<forall>d \<in> set ds. length d < 2 ^ 32"
  shows "rbind (feed (Update_chunk x86) (MD5_Init ctx) ds) (Final_result x86 (replicate 16 0)) =
    returns (md5 (concat ds))"
  by (rule md5_hash.feed_digest [OF Init_inv [OF assms(1)] assms(2)])

end
