(* ===== verification/Spec2Isabelle.thy ===== *)
theory Spec2Isabelle
  imports DemoTransports Bodies Base64 Md5Spec
begin

text \<open>
  attoHTTP: a web server for microcontrollers, \<^verbatim>\<open>src/src/\<close>.

  \<^bold>\<open>The program.\<close> The core, \<^verbatim>\<open>attohttp.c\<close> with \<^verbatim>\<open>attohttp.h\<close>, serves one connection per call of
  \<^verbatim>\<open>attoHTTPExecute\<close>. It reads the request byte by byte through \<^verbatim>\<open>attoHTTPGetByte\<close>, with one
  pushed-back character, parses method, URL, version and headers into global variables, checks
  the credentials, and dispatches: a registered page, the events URL, or the REST callback with
  the segments of the path. The callback reads the parameters of the request from the URL or
  from the body with \<^verbatim>\<open>attoHTTPParseParam\<close>, and everything is written through
  \<^verbatim>\<open>attoHTTPSetByte\<close>. The two byte functions come from a wrapper of the platform:
  \<^verbatim>\<open>wrapper_esp8266.c\<close> (callbacks of the network stack and a connection table),
  \<^verbatim>\<open>wrapper_unix_sockets.h\<close> and \<^verbatim>\<open>wrapper_win32_sockets.h\<close> (sockets and a main loop), and
  \<^verbatim>\<open>wrapper_particle_io.cpp\<close> (a TCP client object). \<^verbatim>\<open>md5.c\<close> is the hash of the Digest build.

  \<^bold>\<open>How C is modelled.\<close> A call is a value of type \<open>'a run\<close> (theory \<open>Prelude\<close>): it never returns, it
  has undefined behaviour or ends the process, or it returns a value. Every array access is
  checked against the length of the array, so that a theorem with \<open>returns\<close> on the right
  is also a theorem about memory safety. A loop whose end depends on the input is a
  \<^theory_text>\<open>partial_function (option)\<close>, so not to end is the value \<open>None\<close>, and no fuel is
  needed; the other loops are structural recursions. Integers have the width of the C type: words
  where the source has unsigned types, \<open>int\<close> with the narrowing conversions \<open>int8\<close>, \<open>uint8\<close>, \<open>int16\<close>
  written out where it has signed ones. A buffer is the list of the bytes of its array, a pointer
  into one an index. Local variables and arrays that the source does not initialise hold what the
  environment gives (field \<open>junk\<close> of \<open>env\<close>), so no theorem depends on it. Static variables
  and globals are the fields of the record \<open>http\<close>, which every function takes and returns.

  \<^bold>\<open>Parameters.\<close> What is not in the repository is an argument: the user's callback and check of
  credentials, the two byte functions as the core sees them (record \<open>env\<close>), the socket functions
  (record \<open>sockapi\<close>), the TCP objects (record \<open>particle\<close>), and the functions of the ESP8266 SDK
  (record \<open>espapi\<close>). The build options (authorisation mode, gzip) are fields of \<open>env\<close>; the one of \<^verbatim>\<open>md5.c\<close> is an
  argument of its functions. What the
  code relies on is the assumptions of locales: \<open>byte_source\<close> and \<open>byte_channel\<close> for the byte
  functions, \<open>stream_socket\<close>, \<open>listening\<close> and \<open>steady_socket\<close> for sockets, \<open>tcp_stream\<close>,
  \<open>tcp_client\<close> and \<open>tcp_dropped\<close> for TCP objects, \<open>espconn_link\<close> for the SDK. Each wrapper is
  proved to give a \<open>byte_channel\<close> over its platform, which is how the theorems on whole requests
  reach every platform.

  \<^bold>\<open>The theories.\<close>
  \<^item> \<open>Prelude\<close>: runs, total correctness \<open>ensures\<close>, checked arrays, conversions, \<^verbatim>\<open><ctype.h>\<close>.
    \<open>CString\<close>: the functions of \<^verbatim>\<open><string.h>\<close> and \<^verbatim>\<open><stdio.h>\<close> that the code calls, on buffers.
  \<^item> \<open>HttpState\<close>: enumerations, page record, global state, environment, \<^verbatim>\<open>_attoHTTPInitRun\<close>,
    \<^verbatim>\<open>_attoHTTPReadC\<close>, \<^verbatim>\<open>_attoHTTPPushC\<close>, \<^verbatim>\<open>_attoHTTPWriteC\<close>.
    \<open>ByteChannel\<close>: the interface to the transport and the server's view of its input; a generic
    loop that reads a token into a buffer (\<open>token_loop\<close>) which serves four loops of the parser.
  \<^item> \<open>RequestLine\<close>: \<^verbatim>\<open>_attoHTTPParseSpace\<close>, \<^verbatim>\<open>ParseEOL\<close>, \<^verbatim>\<open>ParseMethod\<close>, \<^verbatim>\<open>ParseURL\<close>,
    \<^verbatim>\<open>ParseVersion\<close>: they end, stay in their buffers, and what they compute on well-formed input.
    \<open>Headers\<close>: \<^verbatim>\<open>_attoHTTPParseHeader\<close>, \<^verbatim>\<open>_attoHTTPParseHeaders\<close>, \<^verbatim>\<open>_attoHTTPCheckAuth\<close>.
  \<^item> \<open>Output\<close>: the print functions, the status line, the three kinds of headers, the 401
    message, \<^verbatim>\<open>attoHTTPSendEvent\<close>: which bytes each sends.
    \<open>Pages\<close>: registration, \<^verbatim>\<open>attoHTTPInit\<close>, \<^verbatim>\<open>_attoHTTPFindPage\<close>, \<^verbatim>\<open>_attoHTTPFindAPICallback\<close>; the
    page table refines a finite map (\<open>page_registry\<close>). \<open>Dispatch\<close>: the invariant \<open>server_ok\<close> of the
    buffers and the outcome of the dispatch.
  \<^item> \<open>Server\<close>: \<^verbatim>\<open>attoHTTPExecute\<close>, its totality, and the answer to a refused request. \<open>Requests\<close>: whole
    requests, byte for byte. \<open>HeaderBlock\<close>: the meaning of a list of headers and the
    proof that the parser computes it. \<open>Admission\<close>: which requests are let through, with and without
    authorisation, and what they are answered. \<open>Lifecycle\<close>: registrations and requests as a step relation,
    its reachable states and their invariants.
  \<^item> \<open>UrlParams\<close>, \<open>JsonParams\<close>: \<^verbatim>\<open>attoHTTPParseURLParam\<close>, \<^verbatim>\<open>attoHTTPParseJSONParam\<close>,
    \<^verbatim>\<open>attoHTTPParseParam\<close>, \<^verbatim>\<open>attoHTTPGetRawParamChar\<close>. \<open>Params\<close>: the parameters of a query or a form as a
    callback reads them, call by call. \<open>JsonText\<close>: the states of the JSON parser as a scanner of
    its own, and the texts of objects and lists it accepts; \<open>JsonCall\<close>: one call follows the scanner;
    \<open>JsonRead\<close>: all calls of a callback on a JSON body. \<open>Queries\<close>, \<open>Bodies\<close>: the same from the socket
    on, through \<^verbatim>\<open>attoHTTPExecute\<close>.
  \<^item> \<open>Base64\<close>: the codec, RFC 4648 as a reference, equivalence and round trip. \<open>Md5\<close>,
    \<open>Md5Spec\<close>: the hash, RFC 1321 as a reference, equivalence for every split of the message, in both builds of the macros.
  \<^item> \<open>SocketApi\<close>, \<open>WrapperUnix\<close>, \<open>WrapperWin32\<close>: the socket wrappers with their main loops.
    \<open>WrapperParticle\<close>, \<open>Disconnect\<close>: the TCP object, and what the server does when it is cut off.
    \<open>WrapperEsp8266\<close>: the connection table as a state machine, in which the platform may do anything with
    its structures (\<open>esp_step\<close>). \<open>Demo\<close>, \<open>DemoTransports\<close>: concrete
    servers and platforms at which the theorems are applied.

  \<^bold>\<open>What is shown.\<close> The theorems of this theory go from whole requests to the parts. Requests: they all
  end and keep the invariant; who is not authorised gets the 401 message only; for who is let
  through, pages, REST calls, events, and the error answers are determined byte for byte. Codecs and
  hash: what they compute in terms of their standards, on every input. Life of the server: the reachable
  states, in which the icon is served. Output: the exact texts.
  Parameters: reading gives back what was encoded in a query, a form or a JSON text, also through
  a whole request. The JSON texts are objects of strings, words and flat lists, and arrays of strings and
  words (\<open>member_ok\<close>, \<open>item_fits\<close>): the code misreads commas, brackets and braces in strings, empty
  elements, and anything nested deeper. Wrappers: a client of the unix sockets and of the TCP objects
  gets the page it asks for, the Windows wrapper does what the unix wrapper does, the port is opened or
  the process exits, main loops go on, and the connection table of the ESP8266 stays consistent.
  Where the code falls short, the theorem says how: a client that goes away in the URL,
  parameters of an earlier request in the URL buffer, the reading of parameters that stops behind a
  nested JSON object, the terminators behind full buffers, texts longer than the print buffer, the sign bits in the
  Base64 encoder, the lost byte on Windows, the second connection on the ESP8266.

  \<^bold>\<open>Bounds.\<close> The constants of \<^verbatim>\<open>attohttp.h\<close> (URL 64, header name and value 64, print buffer 128,
  8 pages, 32 characters of a page URL) are the defaults. The parameter \<open>k\<close> of \<open>read_params\<close> and
  \<open>read_raw\<close> is how often the user calls; the theorems hold for all \<open>k\<close> above the
  number of parameters. \<open>call_params\<close> goes on whatever the calls return; there \<open>k\<close> is at most 65000,
  since each call moves on the 16-bit position in the URL, which in the end wraps around. The parameter of
  \<open>unix_serve\<close> is the number of rounds of a main loop
  that the user's program repeats for ever; the theorem holds for all of them.

  \<^bold>\<open>Not modelled.\<close> Debug output (\<^verbatim>\<open>__DEBUG__\<close>). \<^verbatim>\<open>attoHTTPRestAPI_t\<close>, which no code uses.
  Conversions of \<^verbatim>\<open>printf\<close> formats other than those for numbers and strings, which the core does not
  use. An \<^verbatim>\<open>unsigned long\<close> of more than 32 bits in \<^verbatim>\<open>md5.c\<close>. Interrupts and preemption: the code has no
  concurrency of its own. The tests, examples and build files of the repository.
\<close>

section \<open>Whole requests\<close>

text \<open>
  C1. Whatever bytes the transport delivers, attoHTTPExecute returns: every parsing loop ends,
  no array access is out of bounds, and the buffers satisfy the invariant the next call needs.
\<close>
theorem execute_total:
  assumes "byte_channel E pending sent" and "server_ok s" and "callback_ok E"
  shows "\<exists>rc s'. attoHTTPExecute E rd wr s = returns (rc, s') \<and> server_ok s'"
  using byte_channel.Execute_total [OF assms, of rd wr] unfolding ensures_def by auto

theorem execute_total_witness:
  "\<exists>rc s'. attoHTTPExecute (demo_env NO_AUTH) 0 0 (demo_http [index_page] (demo_session ''GET /index''))
    = returns (rc, s') \<and> server_ok s'"
  by (rule execute_total [OF demo_channel demo_server_ok demo_callback]) (simp_all add: blank_page_ok)

text \<open>
  C2. In a build with Basic or Digest authorisation, when the user's check accepts no credential,
  every request, however it is formed, is answered with the 401 status line, the
  WWW-Authenticate header and the error page, and nothing else is sent.
\<close>
theorem execute_denied:
  assumes "byte_channel E pending sent" and "server_ok s" and "denies E"
  shows "\<exists>s'. attoHTTPExecute E rd wr s = returns (STATUS_UNAUTHORIZED, s') \<and>
    sent wr (io s') = sent wr (io s) @ status_line 401 @ auth_message (authMode E) None"
  by (rule byte_channel.Execute_denied [OF assms])

theorem execute_denied_witness:
  "\<exists>s'. attoHTTPExecute (demo_env BASIC_BUILD) 0 0 (demo_http [index_page] (demo_session ''GET /index.html HTTP/1.0''))
      = returns (STATUS_UNAUTHORIZED, s') \<and>
    session_sent (\<lambda>a w. w a) 0 (io s') = status_line 401 @ auth_message BASIC_BUILD None"
proof -
  have "server_ok (demo_http [index_page] (demo_session ''GET /index.html HTTP/1.0''))"
    by (rule demo_server_ok) (simp_all add: blank_page_ok)
  moreover have "denies (demo_env BASIC_BUILD)" by (rule demo_denies) simp
  ultimately show ?thesis
    using execute_denied [OF demo_channel, of "demo_http [index_page] (demo_session ''GET /index.html HTTP/1.0'')"
        BASIC_BUILD 0 0]
    by (simp add: session_of_demo)
qed

text \<open>
  C3. A request with a method the server knows and any block of well-formed headers that do not
  authorise it: whatever the URL is, a page, the event stream or a REST call, the answer is the 401
  message and nothing else.
\<close>
theorem execute_refused:
  assumes "byte_channel E pending sent" and "server_ok s"
    and "pending rd (io s) = request_text m tok ver hs content" and "method_of_token m = Some mm"
    and "\<forall>c \<in> set tok. \<not> isblank c" and "NUL \<notin> set tok" and "tok \<noteq> []"
    and "\<forall>c \<in> set ver. \<not> isspace c" and "NUL \<notin> set ver" and "ver \<noteq> []" and "length ver \<le> 8"
    and "\<forall>h \<in> set hs. header_ok h" and "auth_is E chk" and "\<not> authorised (request_info (authMode E) chk hs)"
  shows "\<exists>s'. attoHTTPExecute E rd wr s = returns (STATUS_UNAUTHORIZED, s') \<and>
    sent wr (io s') = sent wr (io s) @ status_line 401 @ auth_message (authMode E) None"
  by (rule byte_channel.Execute_refused [OF assms])

theorem execute_refused_witness:
  "\<exists>s'. attoHTTPExecute (keyed_env BASIC_BUILD) 0 0 ((demo_http [index_page] (demo_session
        (request_text ''PUT'' ''/led'' ''HTTP/1.0'' bad_headers ''{}'')))\<lparr>defaultCallback := Some 5\<rparr>) =
      returns (STATUS_UNAUTHORIZED, s') \<and>
    session_sent (\<lambda>a w. w a) 0 (io s') = status_line 401 @ auth_message BASIC_BUILD None"
proof -
  let ?x = "request_text ''PUT'' ''/led'' ''HTTP/1.0'' bad_headers ''{}''"
  let ?s = "(demo_http [index_page] (demo_session ?x))\<lparr>defaultCallback := Some 5\<rparr>"
  have ok: "server_ok ?s" unfolding server_ok_updates by (rule demo_server_ok) (simp_all add: blank_page_ok)
  have l: "length ?x < 2 ^ 16" by (simp add: request_text_def block_text_def header_text_def bad_headers_def)
  have pend: "session_pending 0 (io ?s) = ?x" by (simp add: session_of_demo [OF l])
  have m: "method_of_token ''PUT'' = Some METHOD_PUT" by (simp add: method_of_token_def)
  have tok: "\<forall>c \<in> set ''/led''. \<not> isblank c" "NUL \<notin> set ''/led''" "''/led'' \<noteq> []" by (simp_all add: isblank_def)
  have no: "\<not> authorised (request_info (authMode (keyed_env BASIC_BUILD)) demo_check bad_headers)"
    by (simp add: demo_headers(4))
  from execute_refused [OF keyed_channel ok pend m tok demo_version demo_headers(3) keyed_check no, of 0]
  show ?thesis by (simp add: session_of_demo [OF l])
qed

text \<open>
  C4. A GET request for the URL of a registered page (up to the question mark, in the first
  63 characters) that the server lets through, because the build has no authorisation or because the
  headers have accepted credentials, is answered with the 200 status line, the headers of the page and
  exactly page_size bytes of its content.
\<close>
theorem execute_page:
  assumes "byte_channel E pending sent" and "server_ok s" and "admitted E ''GET'' tok (pending rd (io s))"
    and "\<forall>c \<in> set tok. \<not> isblank c" and "NUL \<notin> set tok" and "tok \<noteq> []"
    and "page_at s tok = Some p" and "page_content p = Some b"
  shows "\<exists>s'. attoHTTPExecute E rd wr s = returns (STATUS_OK, s') \<and>
    sent wr (io s') = sent wr (io s) @ status_line 200 @
      page_headers (page_type p) (page_size p) (gzipPages E) @ take (unat (page_size p)) b"
  by (rule byte_channel.admitted_page [OF assms])

theorem execute_page_witness:
  "\<exists>s'. attoHTTPExecute (keyed_env BASIC_BUILD) 0 0 (demo_http [index_page] (demo_session
        (request_text ''GET'' ''/index.html'' ''HTTP/1.0'' good_headers []))) = returns (STATUS_OK, s') \<and>
    session_sent (\<lambda>a w. w a) 0 (io s') = status_line 200 @ page_headers TEXT_HTML 7 False @ ''Default''"
proof -
  let ?x = "request_text ''GET'' ''/index.html'' ''HTTP/1.0'' good_headers []"
  let ?s = "demo_http [index_page] (demo_session ?x)"
  have ok: "server_ok ?s" by (rule demo_server_ok) (simp_all add: blank_page_ok)
  have l: "length ?x < 2 ^ 16" by (simp add: request_text_def block_text_def header_text_def good_headers_def)
  have adm: "admitted (keyed_env BASIC_BUILD) ''GET'' ''/index.html'' (session_pending 0 (io ?s))"
    by (simp add: session_of_demo [OF l] keyed_admitted)
  have p: "page_content index_page = Some ''Default''" by (simp add: index_page_def)
  from execute_page [OF keyed_channel ok adm _ _ _ demo_page_at(1) p, of 0]
  show ?thesis
    by (simp add: session_of_demo [OF l] isblank_def) (simp add: index_page_def)
qed

text \<open>
  C5. A request that the server lets through, for a URL that is no page and not the event stream, in
  a server with a REST callback, calls the callback once. The callback gets the segments of the path as C strings,
  alternately as commands and ids and at most three of each, and its return code is the answer.
\<close>
theorem execute_rest:
  assumes "byte_channel E pending sent" and "server_ok s" and "admitted E m tok (pending rd (io s))"
    and "method_of_token m = Some mm"
    and "\<forall>c \<in> set tok. \<not> isblank c" and "NUL \<notin> set tok" and "tok \<noteq> []"
    and "page_at s tok = None" and "path_part tok \<noteq> strz (ssePage s) \<or> strz (ssePage s) = []"
    and "defaultCallback s = Some cb"
    and "path_part tok = path_of segs" and "segs \<noteq> []" and "\<forall>x \<in> set segs. segment x"
  shows "\<exists>d ks js. server_ok d \<and> http_method d = mm \<and> url_params d = query_at 0 None (take 63 tok) \<and>
    sent wr (io d) = sent wr (io s) \<and>
    map (\<lambda>k. strz (drop k (url d))) ks = take 3 (fst (alternate segs)) \<and>
    map (\<lambda>k. strz (drop k (url d))) js = take 3 (snd (alternate segs)) \<and>
    attoHTTPExecute E rd wr s =
      rbind (callback E cb mm (accept d) (map Some ks @ replicate (3 - length ks) None)
        (map Some js @ replicate (3 - length js) None) (length ks) (length js) d) (\<lambda>(rc, s).
      after_find E 1 (s\<lparr>returnCode := rc\<rparr>))"
  by (rule byte_channel.admitted_rest [OF assms])

theorem execute_rest_witness:
  "\<exists>d ks js. server_ok d \<and> http_method d = METHOD_PUT \<and> url_params d = None \<and>
    session_sent (\<lambda>a w. w a) 0 (io d) = [] \<and>
    map (\<lambda>k. strz (drop k (url d))) ks = [''device''] \<and> map (\<lambda>k. strz (drop k (url d))) js = [''12''] \<and>
    attoHTTPExecute (demo_env NO_AUTH) 0 0
        ((demo_http [index_page] (demo_session ''PUT /device/12 HTTP/1.0''))\<lparr>defaultCallback := Some 5\<rparr>) =
      after_find (demo_env NO_AUTH) 1 (d\<lparr>returnCode := STATUS_ACCEPTED\<rparr>)"
proof -
  let ?s = "(demo_http [index_page] (demo_session ''PUT /device/12 HTTP/1.0''))\<lparr>defaultCallback := Some 5\<rparr>"
  have ok: "server_ok ?s" unfolding server_ok_updates by (rule demo_server_ok) (simp_all add: blank_page_ok)
  have adm: "admitted (demo_env NO_AUTH) ''PUT'' ''/device/12'' (session_pending 0 (io ?s))"
    by (rule demo_admitted [of _ _ _ "''HTTP/1.0''"]) (simp add: session_of_demo)
  have m: "method_of_token ''PUT'' = Some METHOD_PUT" by (simp add: method_of_token_def)
  have at: "page_at ?s ''/device/12'' = None"
    by (simp add: page_at_def page_of_def blank_page_matches find_blank path_part_def page_key_def)
      (simp add: page_matches_def index_page_def page_key_def)
  have seg: "path_part ''/device/12'' = path_of [''device'', ''12'']" by (simp add: path_part_def path_of_def)
  have sg: "\<forall>x \<in> set [''device'', ''12'']. segment x" by (simp add: segment_def)
  have tok: "\<forall>c \<in> set ''/device/12''. \<not> isblank c" "NUL \<notin> set ''/device/12''" "''/device/12'' \<noteq> []"
    by (simp_all add: isblank_def)
  have sse: "path_part ''/device/12'' \<noteq> strz (ssePage ?s) \<or> strz (ssePage ?s) = []" by simp
  have cb: "defaultCallback ?s = Some 5" by simp
  have ne: "[''device'', ''12''] \<noteq> []" by simp
  from execute_rest [OF demo_channel ok adm m tok at sse cb seg ne sg, of 0]
  show ?thesis by (simp add: session_of_demo)
qed

text \<open>
  C6. A request that the server lets through, for a URL that is no page and not the event stream, in
  a server without a REST callback, is answered with the 404 status line and nothing else.
\<close>
theorem execute_not_found:
  assumes "byte_channel E pending sent" and "server_ok s" and "admitted E m tok (pending rd (io s))"
    and "method_of_token m = Some mm"
    and "\<forall>c \<in> set tok. \<not> isblank c" and "NUL \<notin> set tok" and "tok \<noteq> []"
    and "page_at s tok = None" and "path_part tok \<noteq> strz (ssePage s) \<or> strz (ssePage s) = []"
    and "defaultCallback s = None"
  shows "\<exists>s'. attoHTTPExecute E rd wr s = returns (STATUS_NOT_FOUND, s') \<and>
    sent wr (io s') = sent wr (io s) @ status_line 404"
  by (rule byte_channel.admitted_not_found [OF assms])

theorem execute_not_found_witness:
  "\<exists>s'. attoHTTPExecute (demo_env NO_AUTH) 0 0
        (demo_http [index_page] (demo_session ''POST /other HTTP/1.1'')) = returns (STATUS_NOT_FOUND, s') \<and>
    session_sent (\<lambda>a w. w a) 0 (io s') = ''HTTP/1.0 404 Not Found'' @ [CR, LF]"
proof -
  let ?s = "demo_http [index_page] (demo_session ''POST /other HTTP/1.1'')"
  have ok: "server_ok ?s" by (rule demo_server_ok) (simp_all add: blank_page_ok)
  have adm: "admitted (demo_env NO_AUTH) ''POST'' ''/other'' (session_pending 0 (io ?s))"
    by (rule demo_admitted [of _ _ _ "''HTTP/1.1''"]) (simp add: session_of_demo)
  have m: "method_of_token ''POST'' = Some METHOD_POST" by (simp add: method_of_token_def)
  from execute_not_found [OF demo_channel ok adm m _ _ _ demo_page_at(2), of 0]
  show ?thesis
    by (simp add: session_of_demo isblank_def demo_status_lines)
qed

text \<open>
  C7. A request that the server lets through, with a method other than GET for a registered
  page, is answered with the 501 status line; neither the page nor the REST callback is reached.
\<close>
theorem execute_page_method:
  assumes "byte_channel E pending sent" and "server_ok s" and "admitted E m tok (pending rd (io s))"
    and "method_of_token m = Some mm" and "mm \<noteq> METHOD_GET"
    and "\<forall>c \<in> set tok. \<not> isblank c" and "NUL \<notin> set tok" and "tok \<noteq> []"
    and "page_at s tok = Some p"
  shows "\<exists>s'. attoHTTPExecute E rd wr s = returns (STATUS_UNSUPPORTED, s') \<and>
    sent wr (io s') = sent wr (io s) @ status_line 501"
  by (rule byte_channel.admitted_page_method [OF assms])

theorem execute_page_method_witness:
  "\<exists>s'. attoHTTPExecute (demo_env NO_AUTH) 0 0
        (demo_http [index_page] (demo_session ''DELETE /index.html HTTP/1.0'')) = returns (STATUS_UNSUPPORTED, s') \<and>
    session_sent (\<lambda>a w. w a) 0 (io s') = ''HTTP/1.0 501 Not Implemented'' @ [CR, LF]"
proof -
  let ?s = "demo_http [index_page] (demo_session ''DELETE /index.html HTTP/1.0'')"
  have ok: "server_ok ?s" by (rule demo_server_ok) (simp_all add: blank_page_ok)
  have adm: "admitted (demo_env NO_AUTH) ''DELETE'' ''/index.html'' (session_pending 0 (io ?s))"
    by (rule demo_admitted [of _ _ _ "''HTTP/1.0''"]) (simp add: session_of_demo)
  have m: "method_of_token ''DELETE'' = Some METHOD_DELETE" by (simp add: method_of_token_def)
  from execute_page_method [OF demo_channel ok adm m _ _ _ _ demo_page_at(1), of 0]
  show ?thesis
    by (simp add: session_of_demo isblank_def demo_status_lines)
qed

text \<open>
  C8. A request whose method is none of GET, POST, PUT, DELETE and PATCH, of whatever length and
  whatever follows it, is answered with the 501 status line in a build without authorisation, and with
  the 401 message in the others, where the headers are not read any more.
\<close>
theorem execute_unsupported:
  assumes "byte_channel E pending sent" and "pending rd (io s) = m @ SP # rest" and "method_of_token m = None"
    and "\<forall>c \<in> set m. \<not> isblank c" and "NUL \<notin> set m" and "m \<noteq> []"
  shows "if authMode E = NO_AUTH
    then \<exists>s'. attoHTTPExecute E rd wr s = returns (STATUS_UNSUPPORTED, s') \<and>
      sent wr (io s') = sent wr (io s) @ status_line 501
    else \<exists>s'. attoHTTPExecute E rd wr s = returns (STATUS_UNAUTHORIZED, s') \<and>
      sent wr (io s') = sent wr (io s) @ status_line 401 @ auth_message (authMode E) None"
  by (rule byte_channel.Execute_unsupported [OF assms])

theorem execute_unsupported_witness:
  "\<exists>s'. attoHTTPExecute (demo_env NO_AUTH) 0 0
        (demo_http [index_page] (demo_session ''PROPPATCH-ALL * HTTP/1.1'')) = returns (STATUS_UNSUPPORTED, s') \<and>
    session_sent (\<lambda>a w. w a) 0 (io s') = ''HTTP/1.0 501 Not Implemented'' @ [CR, LF]"
proof -
  let ?s = "demo_http [index_page] (demo_session ''PROPPATCH-ALL * HTTP/1.1'')"
  have pend: "session_pending 0 (io ?s) = ''PROPPATCH-ALL'' @ SP # ''* HTTP/1.1''"
    by (simp add: session_of_demo)
  have m: "method_of_token ''PROPPATCH-ALL'' = None" by (simp add: method_of_token_def)
  from execute_unsupported [OF demo_channel [of NO_AUTH] pend m, of 0]
  show ?thesis
    by (simp add: session_of_demo isblank_def demo_status_lines)
qed

text \<open>
  C9. A request that the server lets through, for the URL set with attoHTTPServerSetEventsURL,
  is answered with the 200 status line and the headers of an event stream, and leaves the connection in that state.
\<close>
theorem execute_events:
  assumes "byte_channel E pending sent" and "server_ok s" and "admitted E m tok (pending rd (io s))"
    and "method_of_token m = Some mm"
    and "\<forall>c \<in> set tok. \<not> isblank c" and "NUL \<notin> set tok" and "tok \<noteq> []"
    and "page_at s tok = None" and "path_part tok = strz (ssePage s)" and "strz (ssePage s) \<noteq> []"
  shows "\<exists>s'. attoHTTPExecute E rd wr s = returns (STATUS_SERVERSENTEVENTS, s') \<and>
    sent wr (io s') = sent wr (io s) @ status_line 200 @ event_stream_headers"
  by (rule byte_channel.admitted_events [OF assms])

theorem execute_events_witness:
  "\<exists>s'. attoHTTPExecute (demo_env NO_AUTH) 0 0
      ((demo_http [index_page] (demo_session ''GET /other HTTP/1.1''))\<lparr>ssePage := ''/other'' @ replicate 26 NUL\<rparr>) =
        returns (STATUS_SERVERSENTEVENTS, s') \<and>
    session_sent (\<lambda>a w. w a) 0 (io s') = status_line 200 @ event_stream_headers"
proof -
  let ?d = "demo_http [index_page] (demo_session ''GET /other HTTP/1.1'')"
  let ?s = "?d\<lparr>ssePage := ''/other'' @ replicate 26 NUL\<rparr>"
  have "server_ok ?d" by (rule demo_server_ok) (simp_all add: blank_page_ok)
  then have ok: "server_ok ?s" by (simp add: server_ok_def terminated_def)
  have adm: "admitted (demo_env NO_AUTH) ''GET'' ''/other'' (session_pending 0 (io ?s))"
    by (rule demo_admitted [of _ _ _ "''HTTP/1.1''"]) (simp add: session_of_demo)
  have m: "method_of_token ''GET'' = Some METHOD_GET" by (simp add: method_of_token_def)
  have at: "page_at ?s ''/other'' = None"
    using demo_page_at(2) by (simp only: page_at_updates)
  have sse: "path_part ''/other'' = strz (ssePage ?s)" "strz (ssePage ?s) \<noteq> []"
    by (simp_all add: path_part_def)
  from execute_events [OF demo_channel ok adm m _ _ _ at sse, of 0]
  show ?thesis by (simp add: session_of_demo isblank_def)
qed

section \<open>Encodings\<close>

text \<open>
  C10. attoHTTPBase64Encode writes, cut to olen - 1 characters and terminated, the RFC 4648 encoding
  of its input with the sign bits smeared: a byte from 128 on in the second or third place of a group sets
  the low bits of the byte in front of it. For bytes below 128 it is the RFC 4648 encoding of the input.
\<close>
theorem base64_encode:
  assumes "unat ilen \<le> length input" and "0 < olen" and "unat olen \<le> length out"
  shows "let bs = take (unat ilen) input; e = base64 (smeared bs); k = min (length e) (unat olen - 1)
    in attoHTTPBase64Encode input ilen out olen = returns (of_nat k, take k e @ 0 # drop (k + 1) out) \<and>
      ((\<forall>x \<in> set bs. x < 128) \<longrightarrow> e = base64 bs)"
  using Base64Encode_eq [OF assms] by (simp add: truncated_def smeared_ascii Let_def)

theorem base64_encode_witness:
  "attoHTTPBase64Encode (ascii_bytes ''Hello'') 5 (replicate 10 0) 10 = returns (8, ascii_bytes ''SGVsbG8='' @ [0, 0]) \<and>
   attoHTTPBase64Encode [0, 0x80] 2 (replicate 6 0) 6 = returns (4, ascii_bytes ''A4A='' @ [0, 0]) \<and>
   base64 [0, 0x80] = ascii_bytes ''AIA=''"
proof -
  let ?x = "ascii_bytes ''Hello''" and ?y = "ascii_bytes ''SGVsbG8=''" and ?z = "ascii_bytes ''A4A=''"
  have x: "take (unat (5 :: 16 word)) ?x = ?x" "base64 (smeared ?x) = ?y" "min (length ?y) (unat (10 :: 16 word) - 1) = 8"
      "take 8 ?y @ 0 # drop (8 + 1) (replicate 10 0) = ?y @ [0, 0]" "of_nat 8 = (8 :: 16 word)"
    and z: "take (unat (2 :: 16 word)) [0, 0x80 :: 8 word] = [0, 0x80]" "base64 (smeared [0, 0x80]) = ?z"
      "min (length ?z) (unat (6 :: 16 word) - 1) = 4" "take 4 ?z @ 0 # drop (4 + 1) (replicate 6 0) = ?z @ [0, 0]"
      "of_nat 4 = (4 :: 16 word)"
    and l: "unat (5 :: 16 word) \<le> length ?x" "(0 :: 16 word) < 10" "unat (10 :: 16 word) \<le> length (replicate 10 (0 :: 8 word))"
      "unat (2 :: 16 word) \<le> length [0, 0x80 :: 8 word]" "(0 :: 16 word) < 6"
      "unat (6 :: 16 word) \<le> length (replicate 6 (0 :: 8 word))"
    and r: "base64 [0, 0x80] = ascii_bytes ''AIA=''"
    by code_simp+
  show ?thesis
    using base64_encode [OF l(1-3)] base64_encode [OF l(4-6)] r unfolding Let_def x z by blast
qed

text \<open>
  C11. attoHTTPBase64Decode recovers any bytes from their RFC 4648 encoding, whatever is behind it
  in memory, as far as the output buffer goes: at most olen - 1 bytes, terminated. What
  attoHTTPBase64Encode wrote, it decodes to the bytes with the sign bits smeared, which
  are the bytes themselves when they are below 128.
\<close>
theorem base64_round_trip:
  assumes "length (base64 bs) < unat clen" and "unat clen \<le> length code" and "length bs < 2 ^ 16"
    and "0 < olen" and "unat olen \<le> length out"
  shows "let k = min (length bs) (unat olen - 1); result = (\<lambda>bs. returns (of_nat k, take k bs @ 0 # drop (k + 1) out))
    in attoHTTPBase64Decode (base64 bs @ rest) (of_nat (length (base64 bs))) out olen = result bs \<and>
      rbind (attoHTTPBase64Encode bs (of_nat (length bs)) code clen) (\<lambda>(n, code).
        attoHTTPBase64Decode code n out olen) = result (smeared bs) \<and>
      ((\<forall>x \<in> set bs. x < 128) \<longrightarrow> smeared bs = bs)"
proof -
  have n: "unat (of_nat (length bs) :: 16 word) = length bs" using assms(3) by (simp add: unat_of_nat_small)
  have c: "unat clen < 65536" using unsigned_less [of clen] by simp
  then have pos: "0 < clen" and l: "length (base64 bs) < 65536"
    using assms(1) by (simp_all add: word_less_nat_alt)
  have enc: "attoHTTPBase64Encode bs (of_nat (length bs)) code clen =
      returns (of_nat (length (base64 bs)), base64 (smeared bs) @ 0 # drop (length (base64 bs) + 1) code)"
    using Base64Encode_eq [of "of_nat (length bs)" bs clen code] assms(1,2) pos by (simp add: n truncated_fits)
  have dec: "attoHTTPBase64Decode (base64 bs @ r) (of_nat (length (base64 bs))) out olen =
      returns (truncated bs olen out)" for r
    by (rule base64_roundtrip_eq [OF l assms(4,5)])
  have "attoHTTPBase64Decode (base64 (smeared bs) @ r) (of_nat (length (base64 bs))) out olen =
      returns (truncated (smeared bs) olen out)" for r
    using base64_roundtrip_eq [of "smeared bs" olen out r] l assms(4,5) by simp
  then show ?thesis by (simp add: Let_def enc dec truncated_def smeared_ascii)
qed

theorem base64_round_trip_witness:
  "attoHTTPBase64Decode (ascii_bytes ''/wDDqQ==*'') 8 (replicate 5 7) 4 = returns (3, [0xff, 0x00, 0xc3, 0, 7])"
proof -
  let ?bs = "[0xff, 0x00, 0xc3, 0xa9] :: 8 word list"
  have e: "base64 ?bs @ ascii_bytes ''*'' = ascii_bytes ''/wDDqQ==*''" "of_nat (length (base64 ?bs)) = (8 :: 16 word)"
    and k: "min (length ?bs) (unat (4 :: 16 word) - 1) = 3" "of_nat 3 = (3 :: 16 word)"
    and r: "take 3 ?bs @ 0 # drop (3 + 1) (replicate 5 7) = [0xff, 0x00, 0xc3, 0, 7]"
    and l: "length (base64 ?bs) < unat (9 :: 16 word)" "unat (9 :: 16 word) \<le> length (replicate 9 (7 :: 8 word))"
      "(0 :: 16 word) < 4" "unat (4 :: 16 word) \<le> length (replicate 5 (7 :: 8 word))"
    by code_simp+
  have b: "length ?bs < 2 ^ 16" by simp
  show ?thesis
    using base64_round_trip [OF l(1,2) b l(3,4), of "ascii_bytes ''*''"] unfolding Let_def e k r by (rule conjunct1)
qed

text \<open>
  C12. attoHTTPBase64Decode terminates on every input and writes only the first olen bytes of the
  output: the result is terminated within them and what lies behind them is kept.
\<close>
theorem base64_decode_bounds:
  assumes "unat ilen \<le> length input" and "0 < olen" and "unat olen \<le> length out"
  shows "\<exists>n out'. attoHTTPBase64Decode input ilen out olen = returns (n, out') \<and> n < olen \<and>
    out' ! unat n = 0 \<and> length out' = length out \<and> drop (unat olen) out' = drop (unat olen) out"
  using Base64Decode_safe [OF assms] by (auto elim!: ensuresE)

theorem base64_decode_bounds_witness:
  "\<exists>n out'. attoHTTPBase64Decode (ascii_bytes ''!?=*Zm9v'') 8 (replicate 6 1) 2 = returns (n, out') \<and> n < 2 \<and>
    out' ! unat n = 0 \<and> length out' = 6 \<and> drop 2 out' = [1, 1, 1, 1]"
proof -
  have r: "replicate 4 1 = [1, 1, 1, 1 :: 8 word]" by code_simp
  show ?thesis
    using base64_decode_bounds [of 8 "ascii_bytes ''!?=*Zm9v''" 2 "replicate 6 1"]
    by (simp add: ascii_bytes_def r)
qed

text \<open>
  C13. MD5_Init, any number of calls of MD5_Update and MD5_Final compute the MD5 digest of RFC 1321
  of the concatenation of the data, however it is cut into chunks, with the portable macros and with
  those for an x86.
\<close>
theorem md5_digest:
  assumes "length (md_buffer ctx) = 64" and "\<forall>d \<in> set ds. length d < 2 ^ 32"
  shows "rbind (feed (\<lambda>ctx d. MD5_Update x86 ctx d (of_nat (length d))) (MD5_Init ctx) ds) (\<lambda>ctx.
      rbind (MD5_Final x86 (replicate 16 0) ctx) (\<lambda>(digest, _). returns digest)) = returns (md5 (concat ds))"
  using md5_chunks [OF assms] unfolding Final_result_def [abs_def] Update_chunk_def [abs_def] .

theorem md5_digest_witness:
  "rbind (feed (\<lambda>ctx d. MD5_Update True ctx d (of_nat (length d)))
      (MD5_Init \<lparr>md_lo = 7, md_hi = 7, md_a = 7, md_b = 7, md_c = 7, md_d = 7, md_buffer = replicate 64 7, md_block = []\<rparr>)
      [ascii_bytes ''message'', [], ascii_bytes '' digest'']) (\<lambda>ctx.
      rbind (MD5_Final True (replicate 16 0) ctx) (\<lambda>(digest, _). returns digest)) =
    returns [0xf9, 0x6b, 0x69, 0x7d, 0x7c, 0xb7, 0x93, 0x8d, 0x52, 0x5a, 0x2f, 0x31, 0xaa, 0xf1, 0x61, 0xd0]"
proof -
  have d: "md5 (concat [ascii_bytes ''message'', [], ascii_bytes '' digest'']) =
    [0xf9, 0x6b, 0x69, 0x7d, 0x7c, 0xb7, 0x93, 0x8d, 0x52, 0x5a, 0x2f, 0x31, 0xaa, 0xf1, 0x61, 0xd0]"
    by code_simp
  show ?thesis
    unfolding d [symmetric] by (rule md5_digest) (simp_all add: ascii_bytes_def)
qed

section \<open>Registrations\<close>

text \<open>
  C14. In every state that attoHTTPInit, registrations and requests lead to, in any order, the
  buffers are well formed, the page table is filled from the front and holds the icon. A GET request
  for /favicon.ico that is let through in such a state, on any connection, gets the icon, unless the
  program registered a default page under that very URL, which is tested first.
\<close>
theorem server_invariant:
  assumes "byte_channel E pending sent" and "callback_ok E" and "callback_keeps E"
    and "booted E s0" and "server_steps E s0 s"
  shows "server_ok s \<and> table_inv (pages s) \<and>
    page_table (pages s) ''/favicon.ico'' = Some (favicon_ico, favicon_ico_len, IMAGE_PNG) \<and>
    (page_content (defaultPage s) = None \<or> page_key (page_url (defaultPage s)) \<noteq> ''/favicon.ico'' \<longrightarrow>
      (\<forall>n rd wr tok. admitted E ''GET'' tok (pending rd n) \<and> path_part tok = ''/favicon.ico'' \<and>
          (\<forall>c \<in> set tok. \<not> isblank c) \<and> NUL \<notin> set tok \<longrightarrow>
        (\<exists>s'. attoHTTPExecute E rd wr (s\<lparr>io := n\<rparr>) = returns (STATUS_OK, s') \<and>
          sent wr (io s') = sent wr n @ status_line 200 @
            page_headers IMAGE_PNG favicon_ico_len (gzipPages E) @ favicon_ico)))"
proof -
  have inv: "server_ok s" "table_inv (pages s)"
    and icon: "page_table (pages s) ''/favicon.ico'' = Some (favicon_ico, favicon_ico_len, IMAGE_PNG)"
    using byte_channel.server_steps_inv [OF assms(1,5) booted_inv(1) [OF assms(4)] assms(2,3)] booted_inv(2) [OF assms(4)]
    by (auto simp: server_inv_def kept_def map_le_def)
  have serves: "\<exists>s'. attoHTTPExecute E rd wr (s\<lparr>io := n\<rparr>) = returns (STATUS_OK, s') \<and>
      sent wr (io s') = sent wr n @ status_line 200 @ page_headers IMAGE_PNG favicon_ico_len (gzipPages E) @ favicon_ico"
    if "page_content (defaultPage s) = None \<or> page_key (page_url (defaultPage s)) \<noteq> ''/favicon.ico''"
      and tok: "admitted E ''GET'' tok (pending rd n)" "path_part tok = ''/favicon.ico''"
        "\<forall>c \<in> set tok. \<not> isblank c" "NUL \<notin> set tok" for n rd wr tok
  proof -
    have "tok \<noteq> []" using tok(2) by (auto simp: path_part_def)
    with byte_channel.Execute_table_page [OF assms(1), of "s\<lparr>io := n\<rparr>" "''/favicon.ico''" favicon_ico
        favicon_ico_len IMAGE_PNG tok rd wr] inv(1) icon that
    show ?thesis by (simp add: favicon_length favicon_ico_len_def)
  qed
  with inv icon show ?thesis by blast
qed

theorem server_invariant_witness:
  "\<exists>s0 s. booted (demo_env NO_AUTH) s0 \<and> server_steps (demo_env NO_AUTH) s0 s \<and> defaultCallback s = Some 5 \<and>
    server_ok s \<and> table_inv (pages s) \<and>
    (\<exists>s'. attoHTTPExecute (demo_env NO_AUTH) 0 0 (s\<lparr>io := demo_session ''GET /favicon.ico?v=2 HTTP/1.0''\<rparr>) =
        returns (STATUS_OK, s') \<and>
      session_sent (\<lambda>a w. w a) 0 (io s') = status_line 200 @ page_headers IMAGE_PNG 325 False @ favicon_ico)"
proof -
  let ?E = "demo_env NO_AUTH" and ?x = "demo_session ''GET /favicon.ico?v=2 HTTP/1.0''"
  obtain s0 where s0: "booted ?E s0" "defaultCallback s0 = None" "page_content (defaultPage s0) = None"
    by (rule demo_booted)
  let ?s = "s0\<lparr>defaultCallback := Some 5\<rparr>"
  have "server_step ?E s0 ?s"
    by (rule default_rest [of "Some 5" _ True]) (simp add: attoHTTPDefaultREST_def s0(2))
  then have st: "server_steps ?E s0 ?s" by (rule more [OF here])
  have tok: "admitted ?E ''GET'' ''/favicon.ico?v=2'' (session_pending 0 ?x)"
    "path_part ''/favicon.ico?v=2'' = ''/favicon.ico''" "\<forall>c \<in> set ''/favicon.ico?v=2''. \<not> isblank c"
    "NUL \<notin> set ''/favicon.ico?v=2''"
    by (rule demo_admitted [of _ _ _ "''HTTP/1.0''"], simp add: session_of_demo)
      (simp_all add: path_part_def isblank_def)
  have d: "page_content (defaultPage ?s) = None" using s0(3) by simp
  note inv = server_invariant [OF demo_channel demo_callback demo_keeps s0(1) st]
  have "\<exists>s'. attoHTTPExecute ?E 0 0 (?s\<lparr>io := ?x\<rparr>) = returns (STATUS_OK, s') \<and>
      session_sent (\<lambda>a w. w a) 0 (io s') = session_sent (\<lambda>a w. w a) 0 ?x @ status_line 200 @
        page_headers IMAGE_PNG favicon_ico_len (gzipPages ?E) @ favicon_ico"
    by (rule inv [THEN conjunct2, THEN conjunct2, THEN conjunct2, rule_format]) (rule disjI1 [OF d], intro conjI, (rule tok)+)
  then have "\<exists>s'. attoHTTPExecute ?E 0 0 (?s\<lparr>io := ?x\<rparr>) = returns (STATUS_OK, s') \<and>
      session_sent (\<lambda>a w. w a) 0 (io s') = status_line 200 @ page_headers IMAGE_PNG 325 False @ favicon_ico"
    by (simp add: session_of_demo favicon_ico_len_def)
  with inv s0(1) st show ?thesis by (intro exI [of _ s0] exI [of _ ?s]) simp
qed

text \<open>
  C15. What is registered stays registered: over any sequence of registrations and requests, the
  entry of a URL in the page table, the default page, the URL of the events and the REST
  callback do not change once they are set.
\<close>
theorem registrations_kept:
  assumes "byte_channel E pending sent" and "callback_ok E" and "callback_keeps E"
    and "booted E s0" and "server_steps E s0 s" and "server_steps E s s'"
  shows "page_table (pages s) \<subseteq>\<^sub>m page_table (pages s') \<and>
    (page_content (defaultPage s) \<noteq> None \<longrightarrow> defaultPage s' = defaultPage s) \<and>
    (strz (ssePage s) \<noteq> [] \<longrightarrow> strz (ssePage s') = strz (ssePage s)) \<and>
    (defaultCallback s \<noteq> None \<longrightarrow> defaultCallback s' = defaultCallback s)"
proof -
  note inv = byte_channel.server_steps_inv [OF assms(1) _ _ assms(2,3)]
  show ?thesis
    using inv [OF assms(5) booted_inv(1) [OF assms(4)]] inv [OF assms(6)] by (simp add: kept_def)
qed

theorem registrations_kept_witness:
  "\<exists>s0 s s'. booted (demo_env NO_AUTH) s0 \<and> defaultCallback s = Some 5 \<and>
    server_step (demo_env NO_AUTH) s s' \<and> page_table (pages s) \<subseteq>\<^sub>m page_table (pages s') \<and>
    defaultCallback s' = Some 5"
proof -
  let ?E = "demo_env NO_AUTH"
  obtain s0 where s0: "booted ?E s0" "defaultCallback s0 = None" by (rule demo_booted)
  let ?s = "s0\<lparr>defaultCallback := Some 5\<rparr>"
  have "server_step ?E s0 ?s"
    by (rule default_rest [of "Some 5" _ True]) (simp add: attoHTTPDefaultREST_def s0(2))
  then have 1: "server_steps ?E s0 ?s" by (rule more [OF here])
  have 2: "server_step ?E ?s ?s"
    by (rule default_rest [of "Some 7" _ False]) (simp add: attoHTTPDefaultREST_def)
  from registrations_kept [OF demo_channel demo_callback demo_keeps s0(1) 1 more [OF here 2]] 2 s0(1) show ?thesis
    by (intro exI [of _ s0] exI [of _ ?s]) simp
qed

text \<open>
  C16. Registering pages implements a finite map with 32-character keys: as long as there are free
  slots, each page is found under its URL, and the first registration of a URL wins.
\<close>
theorem pages_refine_map:
  assumes "table_inv (pages s)" and "\<forall>(u, e) \<in> set es. readable u 32" and "length es \<le> free_slots (pages s)"
  shows "\<exists>s'. register_pages es s = returns s' \<and> table_inv (pages s') \<and>
    free_slots (pages s') = free_slots (pages s) - length es \<and>
    (\<forall>k. page_table (pages s') k = (case page_table (pages s) k of Some e \<Rightarrow> Some e
      | None \<Rightarrow> map_of (map (\<lambda>(u, e). (page_key u, e)) es) k))"
  using register_pages_eq [OF assms(1,2)] pt.add_all_slots [OF assms(1)] pt.add_all_lookup [OF assms(1,3)]
  by (intro exI [of _ "s\<lparr>pages := pt.add_all es (pages s)\<rparr>"]) simp

theorem pages_refine_map_witness:
  "\<exists>s'. register_pages [(cstr ''/a'', ''A'', 1, TEXT_HTML), (cstr ''/b'', ''BB'', 2, TEXT_CSS), (cstr ''/a'', ''C'', 1, TEXT_HTML)]
      (demo_http [] (demo_session [])) = returns s' \<and>
    page_table (pages s') ''/a'' = Some (''A'', 1, TEXT_HTML) \<and> page_table (pages s') ''/b'' = Some (''BB'', 2, TEXT_CSS) \<and>
    page_table (pages s') ''/c'' = None \<and> free_slots (pages s') = 5"
proof -
  let ?es = "[(cstr ''/a'', ''A'', 1, TEXT_HTML), (cstr ''/b'', ''BB'', 2, TEXT_CSS), (cstr ''/a'', ''C'', 1, TEXT_HTML)]"
  let ?s = "demo_http [] (demo_session [])"
  have 8: "replicate 8 blank_page = [blank_page, blank_page, blank_page, blank_page, blank_page, blank_page, blank_page, blank_page]"
    by (simp add: numeral_eq_Suc)
  have inv: "table_inv (pages ?s)" "free_slots (pages ?s) = 8" "page_table (pages ?s) = Map.empty"
    by (simp_all add: 8 table_inv_def free_slots_def blank_page_matches page_table_empty) (simp add: blank_page_def)
  have k: "page_key (cstr x) = x" if "NUL \<notin> set x" "length x \<le> 32" for x
    using that by (simp add: page_key_def)
  have r: "\<forall>(u, e) \<in> set ?es. readable u 32" by simp
  have "length ?es \<le> free_slots (pages ?s)" unfolding inv(2) by simp
  from pages_refine_map [OF inv(1) r this] obtain s' where s': "register_pages ?es ?s = returns s'"
    "free_slots (pages s') = 8 - length ?es"
    "\<And>k. page_table (pages s') k = map_of (map (\<lambda>(u, e). (page_key u, e)) ?es) k"
    unfolding inv(2,3) by auto
  show ?thesis
    by (rule exI [of _ s']) (simp add: s' k del: register_pages.simps)
qed

text \<open>
  attoHTTPAddPage says whether there was a free slot. It changes nothing when there was none, and a page
  without content is accepted without being registered: its slot stays free.
\<close>
lemma add_page_limits:
  assumes "\<forall>p \<in> set (pages s). length (page_url p) = 32" and "readable u 32"
  shows "\<exists>s'. attoHTTPAddPage u content len type s = returns (0 < free_slots (pages s), s') \<and>
    (free_slots (pages s) = 0 \<longrightarrow> s' = s) \<and>
    (content = None \<longrightarrow> free_slots (pages s') = free_slots (pages s) \<and> page_table (pages s') = page_table (pages s))"
  using AddPage_eq [OF assms] add_first_empty_unchanged by (simp add: free_slots_pos fun_eq_iff)

lemma add_page_limits_witness:
  "\<exists>s'. attoHTTPAddPage (cstr ''/a'') None 0 TEXT_HTML (demo_http [index_page] (demo_session [])) = returns (True, s') \<and>
    page_table (pages s') ''/a'' = None \<and> free_slots (pages s') = 7"
proof -
  let ?s = "demo_http [index_page] (demo_session [])"
  have ps: "pages ?s = index_page # replicate 7 blank_page" by simp
  have l: "\<forall>p \<in> set (pages ?s). length (page_url p) = 32" by (simp add: index_page_def blank_page_def)
  have f: "free_slots (pages ?s) = 7" by (simp add: free_slots_def index_page_def blank_page_def)
  have t: "page_table (pages ?s) ''/a'' = None"
    unfolding ps page_table_simps by (simp add: page_table_def find_blank) (simp add: page_matches_def index_page_def page_key_def)
  have r: "readable (cstr ''/a'') 32" by simp
  from add_page_limits [OF l r, of None 0 TEXT_HTML] f t show ?thesis by auto
qed

text \<open>
  attoHTTPInit leaves a well formed server with the icon as its only page: no default page, no REST
  callback and no URL of events, whatever was registered before.
\<close>
lemma init_state:
  assumes "sized s"
  shows "\<exists>s'. attoHTTPInit E s = returns s' \<and> server_ok s' \<and> table_inv (pages s') \<and> free_slots (pages s') = 7 \<and>
    page_table (pages s') = [''/favicon.ico'' \<mapsto> (favicon_ico, favicon_ico_len, IMAGE_PNG)] \<and>
    page_content (defaultPage s') = None \<and> defaultCallback s' = None \<and> strz (ssePage s') = []"
  using Init_ok [OF assms, of E] by (auto elim!: ensuresE)

lemma init_state_witness:
  "\<exists>s'. attoHTTPInit (demo_env NO_AUTH) ((demo_http [index_page] (demo_session []))\<lparr>defaultCallback := Some 5\<rparr>) = returns s' \<and>
    page_table (pages s') ''/index.html'' = None \<and> defaultCallback s' = None"
proof -
  let ?s = "(demo_http [index_page] (demo_session []))\<lparr>defaultCallback := Some 5\<rparr>"
  have "sized ?s" by (simp add: sized_def demo_http_def index_page_def blank_page_def)
  from init_state [OF this, of "demo_env NO_AUTH"] show ?thesis by auto
qed

section \<open>Output\<close>

text \<open>
  C17. attoHTTPSendEvent sends an event in the format of server-sent events, the name and the data
  each on a line of its own when they are not empty and an empty line at the end, and returns
  the number of bytes, modulo 2 ^ 16.
\<close>
theorem send_event:
  assumes "byte_channel E pending sent" and "unat elen \<le> length event" and "unat dlen \<le> length data"
  shows "\<exists>i'. attoHTTPSendEvent E h event elen data dlen i =
      returns (of_nat (length (event_text (take (unat elen) event) (take (unat dlen) data))), i') \<and>
    sent h i' = sent h i @ event_text (take (unat elen) event) (take (unat dlen) data)"
  using byte_channel.SendEvent_sends [OF assms] by blast

theorem send_event_witness:
  "\<exists>i'. attoHTTPSendEvent (demo_env NO_AUTH) 0 ''tick'' 4 ''12'' 2 (demo_session []) = returns (20, i') \<and>
    session_sent (\<lambda>a w. w a) 0 i' = ''event:tick'' @ [LF] @ ''data:12'' @ [LF, LF]"
  using send_event [OF demo_channel, of 4 "''tick''" 2 "''12''" NO_AUTH 0 "demo_session []"]
  by (simp add: session_of_demo event_text_def)

text \<open>
  C18. A REST callback that calls attoHTTPRESTSendHeaders first sends the status line of its code,
  the content type, its own headers and the empty line, in this order and once.
\<close>
theorem rest_headers:
  assumes "byte_channel E pending sent" and "\<not> firstlineSent s" and "\<not> headersSent s"
    and "terminated type" and "length (strz type) \<le> 94" and "terminated headers" and "length (strz headers) < 2 ^ 32"
  shows "\<exists>n s' m. attoHTTPRESTSendHeaders E code type (Some headers) s = returns (n, s') \<and>
    sent (write_h s) (io s') = sent (write_h s) (io s) @
      status_line code @ content_type_line (strz type) @ strz headers @ HTTPEOL \<and>
    attoHTTPRESTSendHeaders E code type (Some headers) s' = returns (m, s')"
proof -
  obtain n s' where s': "attoHTTPRESTSendHeaders E code type (Some headers) s = returns (n, s')"
    "sends pending sent (first_line_part code s @ content_type_line (strz type) @ strz headers @ HTTPEOL)
      (first_line_state code s\<lparr>headersSent := True\<rparr>) s'"
    using byte_channel.RESTSendHeaders_sends [OF assms(1,3,4,5), of "Some headers" code] assms(6,7) by auto
  have "firstlineSent s'" "headersSent s'"
    using sends_fields [OF s'(2)] assms(2) by (simp_all add: first_line_state_def after_first_line_def)
  then have "attoHTTPRESTSendHeaders E code type (Some headers) s' = returns (0, s')"
    by (simp add: attoHTTPRESTSendHeaders_def)
  moreover have "sent (write_h s) (io s') = sent (write_h s) (io s) @
      status_line code @ content_type_line (strz type) @ strz headers @ HTTPEOL"
    using s'(2) assms(2) by (simp add: sends_def first_line_part_def first_line_state_def after_first_line_def)
  ultimately show ?thesis using s'(1) by blast
qed

theorem rest_headers_witness:
  "\<exists>n s'. attoHTTPRESTSendHeaders (demo_env NO_AUTH) 404 (cstr ''text/css'') (Some (cstr ''X: 1;''))
      (demo_http [] (demo_session [])) = returns (n, s') \<and>
    session_sent (\<lambda>a w. w a) 0 (io s') = ''HTTP/1.0 404 Not Found'' @ [CR, LF] @
      ''Content-Type: text/css; charset=utf-8'' @ [CR, LF] @ ''X: 1;'' @ [CR, LF]"
proof -
  let ?s = "demo_http [] (demo_session [])"
  have s: "\<not> firstlineSent ?s" "\<not> headersSent ?s" "write_h ?s = 0" by (simp_all add: demo_http_def)
  from rest_headers [OF demo_channel s(1,2), of "cstr ''text/css''" "cstr ''X: 1;''" NO_AUTH 404]
  show ?thesis
    by (auto simp: s session_of_demo demo_status_lines content_type_line_def line_def HTTPEOL_def)
qed

text \<open>
  C19. attoHTTPprintf sends at most 127 bytes of a text of up to 128 bytes; a longer text makes it
  send bytes from behind its buffer.
\<close>
theorem printf_bounds:
  assumes "byte_channel E pending sent" and "length (format fmt ap) < 2 ^ 16"
  shows "if length (format fmt ap) \<le> 128
    then \<exists>s'. attoHTTPprintf E fmt ap s = returns (of_nat (min 127 (length (format fmt ap))), s') \<and>
      sent (write_h s) (io s') = sent (write_h s) (io s) @ take 127 (format fmt ap)
    else attoHTTPprintf E fmt ap s = faults OutOfBounds"
proof (cases "length (format fmt ap) \<le> 128")
  case True
  then obtain s' where "attoHTTPvprintf E fmt ap s = returns (of_nat (min 127 (length (format fmt ap))), s')"
    "sends pending sent (take 127 (format fmt ap)) s s'"
    by (rule byte_channel.vprintf_sends [OF assms(1)])
  then show ?thesis using True by (auto simp: attoHTTPprintf_def sends_def)
next
  case False
  then show ?thesis
    using byte_channel.vprintf_overread [OF assms(1) _ assms(2)] by (simp add: attoHTTPprintf_def)
qed

theorem printf_bounds_witness:
  "(\<exists>s'. attoHTTPprintf (demo_env NO_AUTH) ''%s'' [ArgS (cstr (replicate 128 (CHR ''x'')))]
        (demo_http [] (demo_session [])) = returns (127, s') \<and>
      session_sent (\<lambda>a w. w a) 0 (io s') = replicate 127 (CHR ''x'')) \<and>
   attoHTTPprintf (demo_env NO_AUTH) ''%s'' [ArgS (cstr (replicate 129 (CHR ''x'')))]
        (demo_http [] (demo_session [])) = faults OutOfBounds"
proof -
  let ?s = "demo_http [] (demo_session [])"
  have f: "format ''%s'' [ArgS (cstr (replicate n (CHR ''x'')))] = replicate n (CHR ''x'')" for n
    by (simp add: format_conv_def)
  have s: "write_h ?s = 0" by (simp add: demo_http_def)
  note p = printf_bounds [OF demo_channel, of "''%s''" "[ArgS (cstr (replicate n (CHR ''x'')))]" NO_AUTH ?s for n, unfolded f]
  show ?thesis
    using p [of 128] p [of 129] by (simp add: s session_of_demo)
qed

section \<open>Parameters\<close>

text \<open>
  C20. A GET request with a query string that the server lets through, from the socket to the callback: the REST callback gets
  the segments of the path, and reading parameters there gives exactly the URL encoded
  parameters of the query, when they fit and the URL buffer was clear behind the request.
\<close>
theorem execute_query:
  assumes "byte_channel E pending sent" and "server_ok s" and "admitted E ''GET'' (query_url segs ps) (pending rd (io s))"
    and "length (query_url segs ps) \<le> 62" and "url s ! (length (query_url segs ps) + 1) = NUL"
    and "segs \<noteq> []" and "\<forall>x \<in> set segs. segment x" and "\<forall>c \<in> set (path_of segs). \<not> isblank c \<and> c \<noteq> CHR ''?''"
    and "page_at s (query_url segs ps) = None" and "path_of segs \<noteq> strz (ssePage s)"
    and "defaultCallback s = Some cb" and "\<forall>p \<in> set ps. param_ok (unat nl) (unat vl) p"
    and "unat nl \<le> length name" and "unat vl \<le> length val" and "0 < nl" and "0 < vl" and "length ps < k"
  shows "\<exists>d ks js s'. read_params E k name nl val vl d = returns (ps, s') \<and>
    map (\<lambda>k. strz (drop k (url d))) ks = take 3 (fst (alternate segs)) \<and>
    map (\<lambda>k. strz (drop k (url d))) js = take 3 (snd (alternate segs)) \<and>
    attoHTTPExecute E rd wr s =
      rbind (callback E cb METHOD_GET (accept d) (map Some ks @ replicate (3 - length ks) None)
        (map Some js @ replicate (3 - length js) None) (length ks) (length js) d) (\<lambda>(rc, s).
      after_find E 1 (s\<lparr>returnCode := rc\<rparr>))"
  by (rule byte_channel.Execute_query [OF assms])

theorem execute_query_witness:
  "\<exists>d ks js s'. read_params (demo_env NO_AUTH) 3 (replicate 8 NUL) 8 (replicate 8 NUL) 8 d =
      returns ([(''a'', ''1''), (''b'', ''x&y'')], s') \<and>
    map (\<lambda>k. strz (drop k (url d))) ks = [''led''] \<and> js = [] \<and>
    attoHTTPExecute (demo_env NO_AUTH) 0 0
        ((demo_http [index_page] (demo_session ''GET /led?a=1&b=x%26y HTTP/1.0''))\<lparr>defaultCallback := Some 5\<rparr>) =
      after_find (demo_env NO_AUTH) 1 (d\<lparr>returnCode := STATUS_ACCEPTED\<rparr>)"
proof -
  let ?x = "''GET /led?a=1&b=x%26y HTTP/1.0''" and ?ps = "[(''a'', ''1''), (''b'', ''x&y'')]"
  let ?s = "(demo_http [index_page] (demo_session ?x))\<lparr>defaultCallback := Some 5\<rparr>"
  have q: "query_url [''led''] ?ps = ''/led?a=1&b=x%26y''" by code_simp
  have ok: "server_ok ?s" unfolding server_ok_updates by (rule demo_server_ok) (simp_all add: blank_page_ok)
  have adm: "admitted (demo_env NO_AUTH) ''GET'' (query_url [''led''] ?ps) (session_pending 0 (io ?s))"
    by (rule demo_admitted [of _ _ _ "''HTTP/1.0''"]) (simp add: q session_of_demo)
  have len: "length (query_url [''led''] ?ps) \<le> 62" unfolding q by simp
  have u: "url ?s ! (length (query_url [''led''] ?ps) + 1) = NUL" unfolding q by (simp add: demo_http_def)
  have seg: "[''led''] \<noteq> []" "\<forall>x \<in> set [''led'']. segment x"
    "\<forall>c \<in> set (path_of [''led'']). \<not> isblank c \<and> c \<noteq> CHR ''?''"
    by (simp_all add: segment_def path_of_def isblank_def)
  have at: "page_at ?s (query_url [''led''] ?ps) = None"
    unfolding q page_at_updates by (rule demo_page_at(3))
  have sse: "path_of [''led''] \<noteq> strz (ssePage ?s)" by (simp add: path_of_def)
  have cb: "defaultCallback ?s = Some 5" by simp
  have ps: "\<forall>p \<in> set ?ps. param_ok (unat (8 :: 8 word)) (unat (8 :: 8 word)) p" by (simp add: param_ok_def)
  from execute_query [OF demo_channel ok adm len u seg at sse cb ps, of "replicate 8 NUL" "replicate 8 NUL" 3 0]
  show ?thesis by (auto intro!: exI)
qed

text \<open>
  C21. Stale parameters, over two requests. A GET request for a page leaves its URL in the URL buffer.
  If the next request is shorter, so that its query ends just before a form \<open>qs\<close> at the end of that
  URL, its REST callback reads the parameters of its own query and then those of the earlier
  request: attoHTTPParseParam goes on behind the end of the query, and nothing clears the buffer.
\<close>
theorem query_stale:
  assumes "byte_channel E pending sent" and "server_ok s"
    and "admitted E ''GET'' (x @ form_text qs) (pending rd (io s))"
    and "\<forall>c \<in> set x. \<not> isblank c" and "NUL \<notin> set x" and "length (x @ form_text qs) \<le> 62"
    and "url s ! (length (x @ form_text qs) + 1) = NUL"
    and "page_at s (x @ form_text qs) = Some p" and "page_content p = Some b"
    and "length x = length (query_url segs ps) + 1"
    and "segs \<noteq> []" and "\<forall>x \<in> set segs. segment x" and "\<forall>c \<in> set (path_of segs). \<not> isblank c \<and> c \<noteq> CHR ''?''"
    and "page_at s (query_url segs ps) = None" and "path_of segs \<noteq> strz (ssePage s)" and "defaultCallback s = Some cb"
    and "\<forall>p \<in> set (ps @ qs). param_ok (unat nl) (unat vl) p" and "ps \<noteq> []" and "qs \<noteq> []"
    and "unat nl \<le> length name" and "unat vl \<le> length val" and "0 < nl" and "0 < vl" and "length (ps @ qs) < k"
  shows "\<exists>s1. attoHTTPExecute E rd wr s = returns (STATUS_OK, s1) \<and>
    (\<forall>n rd' wr'. admitted E ''GET'' (query_url segs ps) (pending rd' n) \<longrightarrow>
      (\<exists>d ks js s'. read_params E k name nl val vl d = returns (ps @ qs, s') \<and>
        map (\<lambda>k. strz (drop k (url d))) ks = take 3 (fst (alternate segs)) \<and>
        map (\<lambda>k. strz (drop k (url d))) js = take 3 (snd (alternate segs)) \<and>
        attoHTTPExecute E rd' wr' (s1\<lparr>io := n\<rparr>) =
          rbind (callback E cb METHOD_GET (accept d) (map Some ks @ replicate (3 - length ks) None)
            (map Some js @ replicate (3 - length js) None) (length ks) (length js) d) (\<lambda>(rc, s).
          after_find E 1 (s\<lparr>returnCode := rc\<rparr>))))"
  by (rule byte_channel.Execute_query_stale [OF assms])

theorem query_stale_witness:
  "\<exists>s1 d s'.
    attoHTTPExecute (demo_env NO_AUTH) 0 0
        ((demo_http [index_page] (demo_session ''GET /index.html?key=secret HTTP/1.0''))\<lparr>defaultCallback := Some 5\<rparr>) =
      returns (STATUS_OK, s1) \<and>
    attoHTTPExecute (demo_env NO_AUTH) 0 0 (s1\<lparr>io := demo_session ''GET /status?a=1 HTTP/1.0''\<rparr>) =
      after_find (demo_env NO_AUTH) 1 (d\<lparr>returnCode := STATUS_ACCEPTED\<rparr>) \<and>
    read_params (demo_env NO_AUTH) 3 (replicate 8 NUL) 8 (replicate 8 NUL) 8 d =
      returns ([(''a'', ''1''), (''key'', ''secret'')], s')"
proof -
  let ?x = "''GET /index.html?key=secret HTTP/1.0''" and ?y = "demo_session ''GET /status?a=1 HTTP/1.0''"
  let ?s = "(demo_http [index_page] (demo_session ?x))\<lparr>defaultCallback := Some 5\<rparr>"
  let ?ps = "[(''a'', ''1'')]" and ?qs = "[(''key'', ''secret'')]"
  have f: "form_text ?qs = ''key=secret''" "query_url [''status''] ?ps = ''/status?a=1''" by code_simp+
  have ok: "server_ok ?s" unfolding server_ok_updates by (rule demo_server_ok) (simp_all add: blank_page_ok)
  have first: "admitted (demo_env NO_AUTH) ''GET'' (''/index.html?'' @ form_text ?qs) (session_pending 0 (io ?s))"
    unfolding f by (rule demo_admitted [of _ _ _ "''HTTP/1.0''"]) (simp add: session_of_demo)
  have second: "admitted (demo_env NO_AUTH) ''GET'' (query_url [''status''] ?ps) (session_pending 0 ?y)"
    unfolding f by (rule demo_admitted [of _ _ _ "''HTTP/1.0''"]) (simp add: session_of_demo)
  have x: "\<forall>c \<in> set ''/index.html?''. \<not> isblank c" "NUL \<notin> set ''/index.html?''"
    "length (''/index.html?'' @ form_text ?qs) \<le> 62" "url ?s ! (length (''/index.html?'' @ form_text ?qs) + 1) = NUL"
    "length ''/index.html?'' = length (query_url [''status''] ?ps) + 1"
    unfolding f by (simp_all add: isblank_def demo_http_def)
  have seg: "[''status''] \<noteq> []" "\<forall>x \<in> set [''status'']. segment x"
    "\<forall>c \<in> set (path_of [''status'']). \<not> isblank c \<and> c \<noteq> CHR ''?''"
    by (simp_all add: segment_def path_of_def isblank_def)
  have at: "page_at ?s (''/index.html?'' @ form_text ?qs) = Some index_page"
    "page_at ?s (query_url [''status''] ?ps) = None" "page_content index_page = Some ''Default''"
    unfolding f page_at_updates by (simp_all add: demo_page_at) (simp add: index_page_def)
  have sse: "path_of [''status''] \<noteq> strz (ssePage ?s)" by (simp add: path_of_def)
  have cb: "defaultCallback ?s = Some 5" by simp
  have ps: "\<forall>p \<in> set (?ps @ ?qs). param_ok (unat (8 :: 8 word)) (unat (8 :: 8 word)) p" by (simp add: param_ok_def)
  from query_stale [OF demo_channel ok first x(1-4) at(1,3) x(5) seg at(2) sse cb ps,
      of "replicate 8 NUL" "replicate 8 NUL" 3 0]
  obtain s1 where s1: "attoHTTPExecute (demo_env NO_AUTH) 0 0 ?s = returns (STATUS_OK, s1)"
    and "\<forall>n rd' wr'. admitted (demo_env NO_AUTH) ''GET'' (query_url [''status''] ?ps) (session_pending rd' n) \<longrightarrow>
      (\<exists>d ks js s'. read_params (demo_env NO_AUTH) 3 (replicate 8 NUL) 8 (replicate 8 NUL) 8 d = returns (?ps @ ?qs, s') \<and>
        attoHTTPExecute (demo_env NO_AUTH) rd' wr' (s1\<lparr>io := n\<rparr>) =
          after_find (demo_env NO_AUTH) 1 (d\<lparr>returnCode := STATUS_ACCEPTED\<rparr>))"
    by (auto, blast)
  with second have "\<exists>d s'. read_params (demo_env NO_AUTH) 3 (replicate 8 NUL) 8 (replicate 8 NUL) 8 d = returns (?ps @ ?qs, s') \<and>
      attoHTTPExecute (demo_env NO_AUTH) 0 0 (s1\<lparr>io := ?y\<rparr>) =
        after_find (demo_env NO_AUTH) 1 (d\<lparr>returnCode := STATUS_ACCEPTED\<rparr>)" by blast
  with s1 show ?thesis by simp blast
qed

text \<open>
  C22. A form in the body of a POST, PUT, PATCH or DELETE request: calling attoHTTPParseParam until
  it returns 0 gives exactly the parameters that the form encodes, in their order.
\<close>
theorem form_round_trip:
  assumes "byte_channel E pending sent" and "http_method s \<in> {METHOD_POST, METHOD_PUT, METHOD_PATCH, METHOD_DELETE}"
    and "contenttype s = APPLICATION_XWWWFORMURLENCODED" and "input_of pending s = form_text ps" and "ps \<noteq> []"
    and "\<forall>p \<in> set ps. param_ok (unat nl) (unat vl) p"
    and "unat nl \<le> length name" and "unat vl \<le> length val" and "0 < nl" and "length ps < k"
  shows "\<exists>s'. read_params E k name nl val vl s = returns (ps, s')"
  using byte_source.read_body_form [OF byte_channel.axioms(1) [OF assms(1)] assms(2,3), of "[]"] assms(4-) by simp

theorem form_round_trip_witness:
  "\<exists>s'. read_params (demo_env NO_AUTH) 3 (replicate 8 NUL) 8 (replicate 8 NUL) 8
      ((demo_http [] (demo_session ''k=v%20w&n=%3D''))\<lparr>http_method := METHOD_PUT,
        contenttype := APPLICATION_XWWWFORMURLENCODED\<rparr>) = returns ([(''k'', ''v w''), (''n'', ''='')], s')"
proof -
  let ?s = "(demo_http [] (demo_session ''k=v%20w&n=%3D''))\<lparr>http_method := METHOD_PUT,
        contenttype := APPLICATION_XWWWFORMURLENCODED\<rparr>"
  let ?ps = "[(''k'', ''v w''), (''n'', ''='')]"
  have f: "form_text ?ps = ''k=v%20w&n=%3D''" by code_simp
  have i: "input_of session_pending ?s = form_text ?ps"
    unfolding f by (simp add: input_of_def session_of_demo) (simp add: demo_http_def)
  have ok: "\<forall>p \<in> set ?ps. param_ok (unat (8 :: 8 word)) (unat (8 :: 8 word)) p" by (simp add: param_ok_def)
  from form_round_trip [OF demo_channel _ _ i _ ok, of "replicate 8 NUL" "replicate 8 NUL" 3 NO_AUTH]
  show ?thesis by simp
qed

text \<open>
  C23. A JSON object in the body whose names are strings or words and whose values are strings, words or
  flat lists (\<open>member_ok\<close>), with any white space around the tokens: calling attoHTTPParseParam until it
  returns 0 gives exactly the members of the object in their order, each name and value cut to the
  caller's buffers. Strings stand in double or single quotation marks and are returned as they are, escapes
  included. Not covered is what the code misreads: a comma, a bracket or a brace in a string (a comma may
  stand in a list), the string's own quotation mark in it, and objects or lists nested deeper (C25,
  \<open>call_quoted_comma\<close>).
\<close>
theorem json_round_trip:
  assumes "byte_channel E pending sent" and "http_method s \<in> {METHOD_POST, METHOD_PUT, METHOD_PATCH, METHOD_DELETE}"
    and "contenttype s \<noteq> APPLICATION_XWWWFORMURLENCODED" and "body_start s"
    and "input_of pending s = sp @ object_text ms @ cs" and "spaces sp" and "\<forall>m \<in> set ms. member_ok m"
    and "buffers name nl val vl" and "length ms < k"
  shows "\<exists>s'. read_params E k name nl val vl s = returns
    (map (\<lambda>m. (take (unat nl - 1) (jvalue_chars (jm_name m)), take (unat vl - 1) (jvalue_chars (jm_value m)))) ms, s')"
proof -
  have "json_request s" using assms(2,3) by (simp add: json_request_def)
  from byte_source.read_object [OF byte_channel.axioms(1) [OF assms(1)] this assms(4-9)]
  show ?thesis unfolding member_pair_def .
qed

theorem json_round_trip_witness:
  "\<exists>s'. read_params (demo_env NO_AUTH) 5 (replicate 8 NUL) 8 (replicate 8 NUL) 8
      ((demo_http [] (demo_session ''{ \"on\": true, \"n\" : 'a: \"b' ,\"list\":[1, 2], \"long name\":\"long value\" }''))
        \<lparr>http_method := METHOD_POST, contenttype := APPLICATION_JSON\<rparr>) =
    returns ([(''on'', ''true''), (''n'', ''a: \"b''), (''list'', ''[1, 2]''), (''long na'', ''long va'')], s')"
proof -
  let ?ms = "[demo_member '' '' (Quoted ''on'') '''' '' '' (Bare ''true'') '''',
    demo_member '' '' (Quoted ''n'') '' '' '' '' (Single ''a: \"b'') '' '',
    demo_member '''' (Quoted ''list'') '''' '''' (Listed ''1, 2'') '''',
    demo_member '' '' (Quoted ''long name'') '''' '''' (Quoted ''long value'') '' '']"
  let ?x = "''{ \"on\": true, \"n\" : 'a: \"b' ,\"list\":[1, 2], \"long name\":\"long value\" }''"
  let ?s = "(demo_http [] (demo_session ?x))\<lparr>http_method := METHOD_POST, contenttype := APPLICATION_JSON\<rparr>"
  have x: "?x = [] @ object_text ?ms @ []" by code_simp
  have l: "length ?x < 2 ^ 16" by simp
  have i: "input_of session_pending ?s = [] @ object_text ?ms @ []"
    unfolding x [symmetric] by (simp add: input_of_def session_of_demo [OF l]) (simp add: demo_http_def)
  have b: "body_start ?s" by (simp add: body_start_def demo_http_def)
  have ok: "\<forall>m \<in> set ?ms. member_ok m" by code_simp
  have buf: "buffers (replicate 8 NUL) (8 :: 8 word) (replicate 8 NUL) 8" by code_simp
  have r: "map (\<lambda>m. (take (unat (8 :: 8 word) - 1) (jvalue_chars (jm_name m)), take (unat (8 :: 8 word) - 1) (jvalue_chars (jm_value m)))) ?ms =
      [(''on'', ''true''), (''n'', ''a: \"b''), (''list'', ''[1, 2]''), (''long na'', ''long va'')]" by code_simp
  have k: "length ?ms < 5" by simp
  have s: "spaces []" by (simp add: spaces_def)
  from json_round_trip [OF demo_channel _ _ b i s ok buf k] show ?thesis unfolding r by simp
qed

text \<open>
  C24. A JSON array in the body whose elements are strings or words of at least one character: calling
  attoHTTPParseParam until it returns 0 gives exactly the elements of the array in their order, under their
  numbers as names, which are counted in one byte. An element is collected in the name buffer, so it is cut
  to that buffer and not to the value's; so cut it must leave room for a terminator in the value buffer
  (\<open>item_fits\<close>). Behind the array there is nothing but white space. Not covered is what the code misreads:
  a comma, a bracket or a brace in a string, the string's own quotation mark in it, an empty element (which
  ends reading, \<open>call_empty_element\<close>), and lists or objects as elements.
\<close>
theorem json_array:
  assumes "byte_channel E pending sent" and "http_method s \<in> {METHOD_POST, METHOD_PUT, METHOD_PATCH, METHOD_DELETE}"
    and "contenttype s \<noteq> APPLICATION_XWWWFORMURLENCODED" and "body_start s"
    and "input_of pending s = sp @ array_text xs @ sp'" and "spaces sp" and "spaces sp'"
    and "\<forall>x \<in> set xs. item_fits (unat nl) (unat vl) x" and "buffers name nl val vl" and "length xs < k"
  shows "\<exists>s'. read_params E k name nl val vl s = returns (numbered (unat nl) (counter s) xs, s')"
proof -
  have "json_request s" using assms(2,3) by (simp add: json_request_def)
  from byte_source.read_array [OF byte_channel.axioms(1) [OF assms(1)] this assms(4-10)]
  show ?thesis .
qed

theorem json_array_witness:
  "\<exists>s'. read_params (demo_env NO_AUTH) 4 (replicate 8 NUL) 8 (replicate 8 NUL) 8
      ((demo_http [] (demo_session '' [ 12, \"hello world\" ,'x' ]''))\<lparr>http_method := METHOD_PUT, contenttype := APPLICATION_JSON\<rparr>) =
    returns ([(''0'', ''12''), (''1'', ''hello w''), (''2'', ''x'')], s')"
proof -
  let ?xs = "[('' '', Bare ''12'', ''''), ('' '', Quoted ''hello world'', '' ''), ('''', Single ''x'', '' '')]"
  let ?x = "'' [ 12, \"hello world\" ,'x' ]''"
  let ?s = "(demo_http [] (demo_session ?x))\<lparr>http_method := METHOD_PUT, contenttype := APPLICATION_JSON\<rparr>"
  have x: "?x = '' '' @ array_text ?xs @ []" by code_simp
  have l: "length ?x < 2 ^ 16" by simp
  have i: "input_of session_pending ?s = '' '' @ array_text ?xs @ []"
    unfolding x [symmetric] by (simp add: input_of_def session_of_demo [OF l]) (simp add: demo_http_def)
  have b: "body_start ?s" by (simp add: body_start_def demo_http_def)
  have ok: "\<forall>x \<in> set ?xs. item_fits (unat (8 :: 8 word)) (unat (8 :: 8 word)) x" by code_simp
  have buf: "buffers (replicate 8 NUL) (8 :: 8 word) (replicate 8 NUL) 8" by code_simp
  have c: "counter ?s = 0" by (simp add: demo_http_def)
  have r: "numbered (unat (8 :: 8 word)) 0 ?xs = [(''0'', ''12''), (''1'', ''hello w''), (''2'', ''x'')]" by code_simp
  have k: "length ?xs < 4" by simp
  have s: "spaces '' ''" "spaces []" by (simp_all add: spaces_def isspace_def)
  from json_array [OF demo_channel _ _ b i s ok buf k] show ?thesis unfolding c r by simp
qed

text \<open>
  C25. A member whose value is an object ends reading: its text is returned as the value, but the
  comma behind it is left for the next call, which therefore returns 0. A caller that stops there, as the
  interface tells it to, never sees the members behind it.
\<close>
theorem json_nested_stops:
  assumes "byte_channel E pending sent" and "http_method s \<in> {METHOD_POST, METHOD_PUT, METHOD_PATCH, METHOD_DELETE}"
    and "contenttype s \<noteq> APPLICATION_XWWWFORMURLENCODED" and "body_start s" and "spaces sp" and "spaces sp'"
    and "input_of pending s =
      sp @ CHR ''{'' # members_before ms @ name_text p @ CHR ''{'' # x @ CHR ''}'' # sp' @ CHR '','' # cs"
    and "\<forall>m \<in> set ms. member_ok m" and "name_ok p" and "list_all json_inner x"
    and "buffers name nl val vl" and "length ms + 1 < k"
  shows "\<exists>s'. read_params E k name nl val vl s = returns (map (member_pair (unat nl) (unat vl)) ms @
    [(take (unat nl - 1) (jvalue_chars (jm_name p)), take (unat vl - 1) (CHR ''{'' # x @ ''}''))], s')"
proof -
  have "json_request s" using assms(2,3) by (simp add: json_request_def)
  from byte_source.read_nested_object [OF byte_channel.axioms(1) [OF assms(1)] this assms(4-12)]
  show ?thesis .
qed

theorem json_nested_stops_witness:
  "\<exists>s'. read_params (demo_env NO_AUTH) 9 (replicate 8 NUL) 8 (replicate 8 NUL) 8
      ((demo_http [] (demo_session ''{\"a\":1,\"b\": {\"c\":2} , \"on\":0, \"x\":1}''))\<lparr>http_method := METHOD_POST, contenttype := APPLICATION_JSON\<rparr>) =
    returns ([(''a'', ''1''), (''b'', ''{\"c\":2}'')], s')"
proof -
  let ?ms = "[demo_member '''' (Quoted ''a'') '''' '''' (Bare ''1'') '''']"
  let ?p = "demo_member '''' (Quoted ''b'') '''' '' '' (Bare '''') ''''"
  let ?x = "''{\"a\":1,\"b\": {\"c\":2} , \"on\":0, \"x\":1}''"
  let ?s = "(demo_http [] (demo_session ?x))\<lparr>http_method := METHOD_POST, contenttype := APPLICATION_JSON\<rparr>"
  let ?y = "[] @ CHR ''{'' # members_before ?ms @ name_text ?p @ CHR ''{'' # ''\"c\":2'' @ CHR ''}'' # '' '' @ CHR '','' # '' \"on\":0, \"x\":1}''"
  have x: "?x = ?y" by code_simp
  have l: "length ?x < 2 ^ 16" by simp
  have i: "input_of session_pending ?s = ?y"
    unfolding x [symmetric] by (simp add: input_of_def session_of_demo [OF l]) (simp add: demo_http_def)
  have b: "body_start ?s" by (simp add: body_start_def demo_http_def)
  have ok: "\<forall>m \<in> set ?ms. member_ok m" "name_ok ?p" "list_all json_inner ''\"c\":2''" by code_simp+
  have buf: "buffers (replicate 8 NUL) (8 :: 8 word) (replicate 8 NUL) 8" by code_simp
  have r: "map (member_pair (unat (8 :: 8 word)) (unat (8 :: 8 word))) ?ms @
      [(take (unat (8 :: 8 word) - 1) (jvalue_chars (jm_name ?p)), take (unat (8 :: 8 word) - 1) (CHR ''{'' # ''\"c\":2'' @ ''}''))] =
    [(''a'', ''1''), (''b'', ''{\"c\":2}'')]" by code_simp
  have k: "length ?ms + 1 < 9" by simp
  have s: "spaces []" "spaces '' ''" by (simp_all add: spaces_def isspace_def)
  from json_nested_stops [OF demo_channel _ _ b s i ok buf k] show ?thesis unfolding r by simp
qed

text \<open>
  C26. A POST, PUT, PATCH or DELETE request with headers and a JSON object as its body, from the
  transport to the callback: the REST callback gets the segments of the path and the accepted type, and
  reading parameters there gives exactly the members of the object, cut to the caller's buffers. The object
  is one of C23 (\<open>member_ok\<close>): names that are strings or words, values that are strings, words or flat
  lists, no comma, bracket or brace in a string, and nothing nested deeper.
\<close>
theorem execute_json_body:
  assumes "byte_channel E pending sent" and "server_ok s"
    and "pending rd (io s) = request_text m tok ver hs (sp @ object_text ms @ cs)"
    and "method_of_token m = Some mm" and "mm \<noteq> METHOD_GET"
    and "\<forall>c \<in> set tok. \<not> isblank c" and "NUL \<notin> set tok" and "tok \<noteq> []"
    and "\<forall>c \<in> set ver. \<not> isspace c" and "NUL \<notin> set ver" and "ver \<noteq> []" and "length ver \<le> 8"
    and "\<forall>h \<in> set hs. header_ok h" and "auth_is E chk" and "authorised (request_info (authMode E) chk hs)"
    and "hi_type (request_info (authMode E) chk hs) \<noteq> APPLICATION_XWWWFORMURLENCODED"
    and "page_at s tok = None" and "path_part tok \<noteq> strz (ssePage s) \<or> strz (ssePage s) = []"
    and "defaultCallback s = Some cb"
    and "path_part tok = path_of segs" and "segs \<noteq> []" and "\<forall>x \<in> set segs. segment x"
    and "spaces sp" and "\<forall>m \<in> set ms. member_ok m" and "buffers name nl val vl" and "length ms < k"
  shows "\<exists>d ks js s'. read_params E k name nl val vl d = returns (map (member_pair (unat nl) (unat vl)) ms, s') \<and>
    map (\<lambda>k. strz (drop k (url d))) ks = take 3 (fst (alternate segs)) \<and>
    map (\<lambda>k. strz (drop k (url d))) js = take 3 (snd (alternate segs)) \<and>
    attoHTTPExecute E rd wr s =
      rbind (callback E cb mm (hi_accept (request_info (authMode E) chk hs)) (map Some ks @ replicate (3 - length ks) None)
        (map Some js @ replicate (3 - length js) None) (length ks) (length js) d) (\<lambda>(rc, s).
      after_find E 1 (s\<lparr>returnCode := rc\<rparr>))"
  by (rule byte_channel.Execute_json_body [OF assms])

theorem execute_json_body_witness:
  "\<exists>d s'. read_params (demo_env NO_AUTH) 3 (replicate 8 NUL) 8 (replicate 8 NUL) 8 d = returns ([(''on'', ''1''), (''id'', ''a b'')], s') \<and>
    attoHTTPExecute (demo_env NO_AUTH) 0 0 ((demo_http [index_page] (demo_session (request_text ''POST'' ''/led'' ''HTTP/1.0''
        [(''content-type'', ''application/json'')] ''{\"on\": 1, \"id\": \"a b\"}'')))\<lparr>defaultCallback := Some 5\<rparr>) =
      after_find (demo_env NO_AUTH) 1 (d\<lparr>returnCode := STATUS_ACCEPTED\<rparr>)"
proof -
  let ?hs = "[(''content-type'', ''application/json'')]"
  let ?ps = "[demo_member '''' (Quoted ''on'') '''' '' '' (Bare ''1'') '''', demo_member '' '' (Quoted ''id'') '''' '' '' (Quoted ''a b'') '''']"
  let ?x = "request_text ''POST'' ''/led'' ''HTTP/1.0'' ?hs ''{\"on\": 1, \"id\": \"a b\"}''"
  let ?s = "(demo_http [index_page] (demo_session ?x))\<lparr>defaultCallback := Some 5\<rparr>"
  have ok: "server_ok ?s" unfolding server_ok_updates by (rule demo_server_ok) (simp_all add: blank_page_ok)
  have l: "length ?x < 2 ^ 16"
    by (simp add: request_text_def block_text_def header_text_def)
  have o: "''{\"on\": 1, \"id\": \"a b\"}'' = [] @ object_text ?ps @ []" by code_simp
  have pend: "session_pending 0 (io ?s) = request_text ''POST'' ''/led'' ''HTTP/1.0'' ?hs ([] @ object_text ?ps @ [])"
    unfolding o [symmetric] using session_of_demo(1) [OF l, of 0] by simp
  have m: "method_of_token ''POST'' = Some METHOD_POST" "METHOD_POST \<noteq> METHOD_GET" by (simp_all add: method_of_token_def)
  have tok: "\<forall>c \<in> set ''/led''. \<not> isblank c" "NUL \<notin> set ''/led''" "''/led'' \<noteq> []"
    and ver: "\<forall>c \<in> set ''HTTP/1.0''. \<not> isspace c" "NUL \<notin> set ''HTTP/1.0''" "''HTTP/1.0'' \<noteq> []" "length ''HTTP/1.0'' \<le> 8"
    and hs: "\<forall>h \<in> set ?hs. header_ok h" "authorised (request_info NO_AUTH (\<lambda>_ _. 0) ?hs)"
      "hi_type (request_info NO_AUTH (\<lambda>_ _. 0) ?hs) \<noteq> APPLICATION_XWWWFORMURLENCODED"
    by code_simp+
  have chk: "auth_is (demo_env NO_AUTH) (\<lambda>_ _. 0)" by (simp add: auth_is_def)
  have at: "page_at ?s ''/led'' = None" unfolding page_at_updates by (rule demo_page_at(4))
  have seg: "path_part ''/led'' = path_of [''led'']" "[''led''] \<noteq> []" "\<forall>x \<in> set [''led'']. segment x"
    by (simp_all add: path_part_def path_of_def segment_def)
  have sse: "path_part ''/led'' \<noteq> strz (ssePage ?s) \<or> strz (ssePage ?s) = []" and cb: "defaultCallback ?s = Some 5" by simp_all
  have ps: "spaces []" "\<forall>p \<in> set ?ps. member_ok p" "buffers (replicate 8 NUL) (8 :: 8 word) (replicate 8 NUL) 8" "length ?ps < 3"
    and r: "map (member_pair (unat (8 :: 8 word)) (unat (8 :: 8 word))) ?ps = [(''on'', ''1''), (''id'', ''a b'')]" by code_simp+
  from execute_json_body [OF demo_channel ok pend m tok ver hs(1) chk _ _ at sse cb seg ps, of 0] hs(2,3)
  show ?thesis unfolding r by auto
qed

text \<open>
  C27. The same for a form in the body, when a header says that it is one: the callback reads exactly
  the parameters that the form encodes.
\<close>
theorem execute_form_body:
  assumes "byte_channel E pending sent" and "server_ok s"
    and "pending rd (io s) = request_text m tok ver hs (form_text ps)"
    and "method_of_token m = Some mm" and "mm \<noteq> METHOD_GET"
    and "\<forall>c \<in> set tok. \<not> isblank c" and "NUL \<notin> set tok" and "tok \<noteq> []"
    and "\<forall>c \<in> set ver. \<not> isspace c" and "NUL \<notin> set ver" and "ver \<noteq> []" and "length ver \<le> 8"
    and "\<forall>h \<in> set hs. header_ok h" and "auth_is E chk" and "authorised (request_info (authMode E) chk hs)"
    and "hi_type (request_info (authMode E) chk hs) = APPLICATION_XWWWFORMURLENCODED"
    and "page_at s tok = None" and "path_part tok \<noteq> strz (ssePage s) \<or> strz (ssePage s) = []"
    and "defaultCallback s = Some cb"
    and "path_part tok = path_of segs" and "segs \<noteq> []" and "\<forall>x \<in> set segs. segment x"
    and "ps \<noteq> []" and "\<forall>p \<in> set ps. param_ok (unat nl) (unat vl) p"
    and "unat nl \<le> length name" and "unat vl \<le> length val" and "0 < nl" and "length ps < k"
  shows "\<exists>d ks js s'. read_params E k name nl val vl d = returns (ps, s') \<and>
    map (\<lambda>k. strz (drop k (url d))) ks = take 3 (fst (alternate segs)) \<and>
    map (\<lambda>k. strz (drop k (url d))) js = take 3 (snd (alternate segs)) \<and>
    attoHTTPExecute E rd wr s =
      rbind (callback E cb mm (hi_accept (request_info (authMode E) chk hs)) (map Some ks @ replicate (3 - length ks) None)
        (map Some js @ replicate (3 - length js) None) (length ks) (length js) d) (\<lambda>(rc, s).
      after_find E 1 (s\<lparr>returnCode := rc\<rparr>))"
  by (rule byte_channel.Execute_form_body [OF assms])

theorem execute_form_body_witness:
  "\<exists>d s'. read_params (demo_env NO_AUTH) 3 (replicate 8 NUL) 8 (replicate 8 NUL) 8 d = returns ([(''on'', ''1''), (''id'', ''a b'')], s') \<and>
    attoHTTPExecute (demo_env NO_AUTH) 0 0 ((demo_http [index_page] (demo_session (request_text ''PUT'' ''/led'' ''HTTP/1.0''
        [(''Content-Type'', ''application/x-www-form-urlencoded; charset=UTF-8'')]
        (form_text [(''on'', ''1''), (''id'', ''a b'')]))))\<lparr>defaultCallback := Some 5\<rparr>) =
      after_find (demo_env NO_AUTH) 1 (d\<lparr>returnCode := STATUS_ACCEPTED\<rparr>)"
proof -
  let ?hs = "[(''Content-Type'', ''application/x-www-form-urlencoded; charset=UTF-8'')]"
  let ?ps = "[(''on'', ''1''), (''id'', ''a b'')]"
  let ?x = "request_text ''PUT'' ''/led'' ''HTTP/1.0'' ?hs (form_text ?ps)"
  let ?s = "(demo_http [index_page] (demo_session ?x))\<lparr>defaultCallback := Some 5\<rparr>"
  have ok: "server_ok ?s" unfolding server_ok_updates by (rule demo_server_ok) (simp_all add: blank_page_ok)
  have f: "form_text ?ps = ''on=1&id=a%20b''" by code_simp
  have l: "length ?x < 2 ^ 16" unfolding f by (simp add: request_text_def block_text_def header_text_def)
  have pend: "session_pending 0 (io ?s) = ?x" using session_of_demo(1) [OF l, of 0] by simp
  have m: "method_of_token ''PUT'' = Some METHOD_PUT" "METHOD_PUT \<noteq> METHOD_GET" by (simp_all add: method_of_token_def)
  have tok: "\<forall>c \<in> set ''/led''. \<not> isblank c" "NUL \<notin> set ''/led''" "''/led'' \<noteq> []"
    and ver: "\<forall>c \<in> set ''HTTP/1.0''. \<not> isspace c" "NUL \<notin> set ''HTTP/1.0''" "''HTTP/1.0'' \<noteq> []" "length ''HTTP/1.0'' \<le> 8"
    and hs: "\<forall>h \<in> set ?hs. header_ok h" "authorised (request_info NO_AUTH (\<lambda>_ _. 0) ?hs)"
      "hi_type (request_info NO_AUTH (\<lambda>_ _. 0) ?hs) = APPLICATION_XWWWFORMURLENCODED"
    by code_simp+
  have chk: "auth_is (demo_env NO_AUTH) (\<lambda>_ _. 0)" by (simp add: auth_is_def)
  have at: "page_at ?s ''/led'' = None" unfolding page_at_updates by (rule demo_page_at(4))
  have seg: "path_part ''/led'' = path_of [''led'']" "[''led''] \<noteq> []" "\<forall>x \<in> set [''led'']. segment x"
    by (simp_all add: path_part_def path_of_def segment_def)
  have sse: "path_part ''/led'' \<noteq> strz (ssePage ?s) \<or> strz (ssePage ?s) = []" and cb: "defaultCallback ?s = Some 5" by simp_all
  have ps: "?ps \<noteq> []" "\<forall>p \<in> set ?ps. param_ok (unat (8 :: 8 word)) (unat (8 :: 8 word)) p" by code_simp+
  from execute_form_body [OF demo_channel ok pend m tok ver hs(1) chk _ _ at sse cb seg ps, of "replicate 8 NUL" "replicate 8 NUL" 3 0] hs(2,3)
  show ?thesis by auto
qed

text \<open>
  C28. A callback that reads the raw body gets one byte more than the client sent as the body: the line
  feed at the end of the header block comes first.
\<close>
theorem execute_raw_body:
  assumes "byte_channel E pending sent" and "server_ok s"
    and "pending rd (io s) = request_text m tok ver hs content" and "method_of_token m = Some mm"
    and "\<forall>c \<in> set tok. \<not> isblank c" and "NUL \<notin> set tok" and "tok \<noteq> []"
    and "\<forall>c \<in> set ver. \<not> isspace c" and "NUL \<notin> set ver" and "ver \<noteq> []" and "length ver \<le> 8"
    and "\<forall>h \<in> set hs. header_ok h" and "auth_is E chk" and "authorised (request_info (authMode E) chk hs)"
    and "page_at s tok = None" and "path_part tok \<noteq> strz (ssePage s) \<or> strz (ssePage s) = []"
    and "defaultCallback s = Some cb"
    and "path_part tok = path_of segs" and "segs \<noteq> []" and "\<forall>x \<in> set segs. segment x"
    and "length content + 1 < k"
  shows "\<exists>d ks js s'. read_raw E k d = returns (LF # content, s') \<and>
    attoHTTPExecute E rd wr s =
      rbind (callback E cb mm (hi_accept (request_info (authMode E) chk hs)) (map Some ks @ replicate (3 - length ks) None)
        (map Some js @ replicate (3 - length js) None) (length ks) (length js) d) (\<lambda>(rc, s).
      after_find E 1 (s\<lparr>returnCode := rc\<rparr>))"
  by (rule byte_channel.Execute_raw_body [OF assms])

theorem execute_raw_body_witness:
  "\<exists>d s'. read_raw (demo_env NO_AUTH) 9 d = returns (LF # ''raw'', s') \<and>
    attoHTTPExecute (demo_env NO_AUTH) 0 0 ((demo_http [index_page] (demo_session
        (request_text ''PUT'' ''/led'' ''HTTP/1.1'' [] ''raw'')))\<lparr>defaultCallback := Some 5\<rparr>) =
      after_find (demo_env NO_AUTH) 1 (d\<lparr>returnCode := STATUS_ACCEPTED\<rparr>)"
proof -
  let ?x = "request_text ''PUT'' ''/led'' ''HTTP/1.1'' [] ''raw''"
  let ?s = "(demo_http [index_page] (demo_session ?x))\<lparr>defaultCallback := Some 5\<rparr>"
  have ok: "server_ok ?s" unfolding server_ok_updates by (rule demo_server_ok) (simp_all add: blank_page_ok)
  have l: "length ?x < 2 ^ 16" by (simp add: request_text_def block_text_def)
  have pend: "session_pending 0 (io ?s) = ?x" using session_of_demo(1) [OF l, of 0] by simp
  have m: "method_of_token ''PUT'' = Some METHOD_PUT" by (simp add: method_of_token_def)
  have tok: "\<forall>c \<in> set ''/led''. \<not> isblank c" "NUL \<notin> set ''/led''" "''/led'' \<noteq> []"
    and ver: "\<forall>c \<in> set ''HTTP/1.1''. \<not> isspace c" "NUL \<notin> set ''HTTP/1.1''" "''HTTP/1.1'' \<noteq> []" "length ''HTTP/1.1'' \<le> 8"
    and hs: "\<forall>h \<in> set []. header_ok h" "authorised (request_info NO_AUTH (\<lambda>_ _. 0) [])"
    by code_simp+
  have chk: "auth_is (demo_env NO_AUTH) (\<lambda>_ _. 0)" by (simp add: auth_is_def)
  have at: "page_at ?s ''/led'' = None" unfolding page_at_updates by (rule demo_page_at(4))
  have seg: "path_part ''/led'' = path_of [''led'']" "[''led''] \<noteq> []" "\<forall>x \<in> set [''led'']. segment x"
    by (simp_all add: path_part_def path_of_def segment_def)
  have sse: "path_part ''/led'' \<noteq> strz (ssePage ?s) \<or> strz (ssePage ?s) = []" and cb: "defaultCallback ?s = Some 5" by simp_all
  from execute_raw_body [OF demo_channel ok pend m tok ver hs(1) chk _ at sse cb seg, of 9 0] hs(2)
  show ?thesis by auto
qed

text \<open>
  C29. With name and value buffers larger than their declared lengths, which are not both 0,
  attoHTTPParseParam stays in them on every GET request, with or without a query, whatever the URL
  buffer holds, and however often it is called, also behind the end of the query. The calls are at most
  65000: the 16-bit position in the URL moves on with each of them and would wrap around.
\<close>
theorem url_param_bounds:
  assumes "http_method s = METHOD_GET" and "length (url s) = 64" and "params_ok s"
    and "unat nl < length name" and "unat vl < length val" and "0 < nl \<or> 0 < vl" and "k \<le> 65000"
  shows "\<exists>name' val' s'. call_params E k name nl val vl s = returns (name', val', s') \<and>
    length name' = length name \<and> length val' = length val"
  using get_calls [OF get_ok_params [OF assms(1-3,7)] assms(4-6), of E] by (auto elim!: ensuresE)

theorem url_param_bounds_witness:
  "(\<exists>name' val' s'. call_params (demo_env NO_AUTH) 200 (replicate 4 NUL) 3 (replicate 4 NUL) 3
      ((demo_http [] (demo_session []))\<lparr>http_method := METHOD_GET, url_params := Some 0, url_params_start := 0,
        url := replicate 64 (CHR ''%'')\<rparr>) = returns (name', val', s') \<and> length name' = 4 \<and> length val' = 4) \<and>
   (\<exists>name' val' s'. call_params (demo_env NO_AUTH) 200 (replicate 4 NUL) 3 (replicate 1 NUL) 0
      ((demo_http [] (demo_session []))\<lparr>http_method := METHOD_GET, url_params := None, url_params_start := 64\<rparr>) =
      returns (name', val', s') \<and> length name' = 4 \<and> length val' = 1)"
proof (rule conjI, goal_cases)
  case 1
  let ?s = "(demo_http [] (demo_session []))\<lparr>http_method := METHOD_GET, url_params := Some 0, url_params_start := 0,
        url := replicate 64 (CHR ''%'')\<rparr>"
  have "http_method ?s = METHOD_GET" "length (url ?s) = 64" "params_ok ?s" by (simp_all add: params_ok_def)
  from url_param_bounds [OF this, of 3 "replicate 4 NUL" 3 "replicate 4 NUL" 200 "demo_env NO_AUTH"]
  show ?case by simp
next
  case 2
  let ?s = "(demo_http [] (demo_session []))\<lparr>http_method := METHOD_GET, url_params := None, url_params_start := 64\<rparr>"
  have "http_method ?s = METHOD_GET" "length (url ?s) = 64" "params_ok ?s" by (simp_all add: params_ok_def demo_http_def)
  from url_param_bounds [OF this, of 3 "replicate 4 NUL" 0 "replicate 1 NUL" 200 "demo_env NO_AUTH"]
  show ?case by simp
qed

text \<open>
  C30. A buffer of exactly the declared length overflows: a parameter whose name has name_len
  characters makes attoHTTPParseParam write its terminator behind the name buffer.
\<close>
theorem url_param_overflow:
  assumes "holds_query (url_encode x @ CHR ''='' # url_encode y @ NUL # r) s"
    and "x \<noteq> []" and "length x = unat nl" and "length name = unat nl" and "length y < unat vl" and "unat vl \<le> length val"
  shows "attoHTTPParseParam E name nl val vl s = faults OutOfBounds"
proof -
  have c: "get_chars s = url_encode x @ CHR ''='' # url_encode y @ NUL # r" by (rule holds_query_chars(1) [OF assms(1)])
  have "length (url_encode x @ CHR ''='' # url_encode y) \<le> 63" using holds_query_chars(3) [OF assms(1)] by simp
  then have ok: "get_ok (length (url_encode x @ CHR ''='' # url_encode y) + Suc 0) s"
    by (intro holds_query_chars(2) [OF assms(1)]) simp
  have l: "length x = length (name[0 := NUL])" "unat vl \<le> length (val[0 := NUL])" using assms by simp_all
  have "attoHTTPParseURLParam E (name[0 := NUL]) nl (val[0 := NUL]) vl s = faults OutOfBounds"
    by (rule url_source.param_overflow [OF assms(2,3) l(1) assms(5) l(2) ok c]) simp
  moreover have "name \<noteq> []" "val \<noteq> []" using assms by auto
  ultimately show ?thesis using assms(1) by (simp add: attoHTTPParseParam_def holds_query_def)
qed

theorem url_param_overflow_witness:
  "attoHTTPParseParam (demo_env NO_AUTH) (replicate 4 NUL) 4 (replicate 4 NUL) 4
      ((demo_http [] (demo_session []))\<lparr>http_method := METHOD_GET, url_params := Some 0, url_params_start := 0,
        url := ''name=v'' @ replicate 58 NUL\<rparr>) = faults OutOfBounds"
proof -
  have r: "replicate 58 NUL = NUL # replicate 57 NUL" by (simp add: numeral_eq_Suc)
  have f: "url_encode ''name'' = ''name''" "url_encode ''v'' = ''v''" by code_simp+
  have q: "holds_query (url_encode ''name'' @ CHR ''='' # url_encode ''v'' @ NUL # replicate 57 NUL)
      ((demo_http [] (demo_session []))\<lparr>http_method := METHOD_GET, url_params := Some 0, url_params_start := 0,
        url := ''name=v'' @ replicate 58 NUL\<rparr>)"
    unfolding f by (simp add: holds_query_def r)
  show ?thesis by (rule url_param_overflow [OF q]) simp_all
qed

text \<open>
  C31. With buffers of the declared lengths the JSON parser stays in them and returns, whatever
  bytes the body holds.
\<close>
theorem json_param_bounds:
  assumes "byte_channel E pending sent" and "http_method s \<in> {METHOD_POST, METHOD_PUT, METHOD_PATCH, METHOD_DELETE}"
    and "contenttype s \<noteq> APPLICATION_XWWWFORMURLENCODED"
    and "unat nl \<le> length name" and "unat vl \<le> length val" and "name \<noteq> []" and "val \<noteq> []"
  shows "\<exists>r name' val' s'. attoHTTPParseParam E name nl val vl s = returns (r, name', val', s') \<and>
    length name' = length name \<and> length val' = length val"
proof -
  have s: "json_request s" using assms(2,3) by (simp add: json_request_def)
  have "ensures (attoHTTPParseJSONParam E (name[0 := NUL]) (unat nl) (val[0 := NUL]) (unat vl) s)
      (\<lambda>(r, name', val', s'). length name' = length name \<and> length val' = length val)"
    using byte_source.ParseJSONParam_total [OF byte_channel.axioms(1) [OF assms(1)],
        of "unat nl" "name[0 := NUL]" "unat vl" "val[0 := NUL]" s] assms(4-7) by simp
  then show ?thesis using assms(6,7) by (auto simp: ParseParam_json [OF s] elim!: ensuresE)
qed

theorem json_param_bounds_witness:
  "\<exists>r name' val' s'. attoHTTPParseParam (demo_env NO_AUTH) (replicate 2 NUL) 2 (replicate 2 NUL) 2
      ((demo_http [] (demo_session ''}}[,,abcdefg:::''))\<lparr>http_method := METHOD_PATCH\<rparr>) = returns (r, name', val', s') \<and>
    length name' = 2 \<and> length val' = 2"
  using json_param_bounds [OF demo_channel, of "(demo_http [] (demo_session ''}}[,,abcdefg:::''))\<lparr>http_method := METHOD_PATCH\<rparr>"
      2 "replicate 2 NUL" 2 "replicate 2 NUL" NO_AUTH]
  by (simp add: demo_http_def numeral_2_eq_2)

section \<open>The socket transports\<close>

text \<open>
  C32. A connection that waits on the unix socket is accepted; when its request is one the server lets
  through, with or without authorisation, the page it asks for is sent on this connection and nothing
  else, however often the system calls are interrupted, and then the connection is closed.
\<close>
theorem unix_page:
  assumes "stream_socket A arriving transmitted intr"
    and "auth_quiet U" and "callback_ok U" and "server_ok s" and "sock > 0"
    and "sk_select A sock True None (io s) = (1, e, True, t, n1)"
    and "sk_accept A sock n1 = (k, n2)" and "0 < k" and "k < 2 ^ 15"
    and "admitted U ''GET'' tok (arriving k n2)"
    and "\<forall>c \<in> set tok. \<not> isblank c" and "NUL \<notin> set tok" and "tok \<noteq> []"
    and "page_at s tok = Some p" and "page_content p = Some b"
  shows "\<exists>s' n'. unix_WrapperMain A U var sock s = returns s' \<and> server_ok s' \<and> io s' = sk_close A k n' \<and>
    transmitted k n' = transmitted k n2 @ status_line 200 @
      page_headers (page_type p) (page_size p) (gzipPages U) @ take (unat (page_size p)) b"
  by (rule stream_socket.unix_Main_page [OF assms])

theorem unix_page_witness:
  "\<exists>s' n'. unix_WrapperMain toy_api user_env 0 3 (demo_http [index_page] (toy_peer page_request 0)) = returns s' \<and>
    io s' = sk_close toy_api 4 n' \<and> ty_out n' 4 = page_answer"
proof -
  let ?n = "toy_peer page_request 0"
  have sel: "sk_select toy_api 3 True None (io (demo_http [index_page] ?n)) = (1, EAGAIN, True, None, ?n)"
    and acc: "sk_accept toy_api 3 ?n = (4, ?n)"
    by (simp_all add: toy_api_def toy_peer_def)
  have i: "admitted user_env ''GET'' ''/index.html'' (ty_in ?n 4)"
    using page_request_shape(1) by (simp add: toy_peer_def)
  have o: "ty_out ?n 4 = []" by (simp add: toy_peer_def)
  from unix_page [OF ty.stream_socket_axioms user_env_facts(3,4) demo_site(1) _ sel acc _ _ i
      page_request_shape(2-4) demo_site(2,3), of 0] o demo_site(4)
  show ?thesis by auto
qed

text \<open>
  C33. The server never stops serving: over sockets that work, the main loop gets through any number
  of rounds, whatever the clients send, interruptions included.
\<close>
theorem unix_serves:
  assumes "listening A arriving transmitted intr sock"
    and "auth_quiet U" and "callback_ok U" and "server_ok s"
  shows "\<exists>s'. unix_serve A U var sock m s = returns s' \<and> server_ok s'"
  by (rule listening.serve_returns [OF assms])

theorem unix_serves_witness:
  "\<exists>s'. unix_serve toy_api user_env 0 3 1000 (demo_http [index_page] (toy_peer ''GET'' 7)) = returns s' \<and> server_ok s'"
  by (rule unix_serves [OF ty.listening_axioms]) (simp_all add: demo_site(1))

text \<open>
  C34. Opening the port ends, when the clock runs while the process sleeps and does not go back while it
  binds. attoHTTPWrapperInit exits when there is no socket, when every bind of a minute fails (which is
  counted from a start kept in an \<^verbatim>\<open>int\<close>, so that from 2038 on it is over at once,
  \<open>WrapperInit_late_clock\<close>), and when listen fails. Otherwise it returns the socket whose bind succeeded, after \<open>k\<close> attempts that failed, and
  on which listen succeeded next, with the buffers of the server initialised.
\<close>
theorem unix_init_ends:
  assumes "\<And>n. sk_time A n < sk_time A (sk_sleep A n)"
    and "\<And>sock n. sk_time A n \<le> sk_time A (snd (sk_bind A sock port n))" and "sized s"
    and "sk_socket A (io s) = (sock, n)"
  shows "sock = -1 \<and> unix_WrapperInit A U port s = faults ProcessExit \<or>
    sock \<noteq> -1 \<and> (\<exists>k. let attempt = (\<lambda>j. (retry A sock port ^^ j) n) in
      (\<forall>j < k. fst (sk_bind A sock port (attempt j)) \<noteq> 0) \<and>
      (if sk_time A (attempt k) \<ge> int32 (sk_time A n) + 60
       then unix_WrapperInit A U port s = faults ProcessExit
       else \<exists>n1 r n2. sk_bind A sock port (attempt k) = (0, n1) \<and> sk_listen A sock n1 = (r, n2) \<and>
         (if r < 0 then unix_WrapperInit A U port s = faults ProcessExit
          else \<exists>s'. unix_WrapperInit A U port s = returns (sock, s') \<and> io s' = n2 \<and> server_ok s')))"
  by (rule WrapperInit_ends [OF assms])

theorem unix_init_ends_witness:
  "\<exists>s'. unix_WrapperInit toy_api user_env 80 (demo_http [] (toy_peer [] 0)) = returns (3, s') \<and>
    ty_clock (io s') = 2 \<and> server_ok s'"
proof -
  let ?p = "toy_peer [] 0" and ?f = "retry toy_api 3 80"
  have f: "(?f ^^ j) ?p = ?p\<lparr>ty_clock := int j\<rparr>" for j
    by (induction j) (simp_all add: retry_def toy_api_def toy_peer_def)
  have b: "sk_bind toy_api 3 80 ((?f ^^ j) ?p) = (if j \<ge> 2 then 0 else -1, ?p\<lparr>ty_clock := int j\<rparr>)"
    "sk_time toy_api ((?f ^^ j) ?p) = int j" for j
    unfolding f by (simp_all add: toy_api_def)
  have a: "sk_time toy_api n < sk_time toy_api (sk_sleep toy_api n)" "sk_listen toy_api 3 n = (0, n)"
    "sk_socket toy_api (io (demo_http [] ?p)) = (3, ?p)" "sk_time toy_api ?p = 0" for n
    by (simp_all add: toy_api_def demo_http_def toy_peer_def)
  have c: "sk_time toy_api n \<le> sk_time toy_api (snd (sk_bind toy_api sock port n))" for sock port n
    by (simp add: toy_api_def)
  have s: "sized (demo_http [] ?p)" by (simp add: sized_def demo_http_def blank_page_def)
  from unix_init_ends [OF a(1) c s a(3), where U = user_env and port = 80] obtain k where
    k: "\<forall>j < k. \<not> 2 \<le> j" "\<not> 60 \<le> int k \<longrightarrow> 2 \<le> k \<and> (\<exists>s'. unix_WrapperInit toy_api user_env 80 (demo_http [] ?p) =
      returns (3, s') \<and> io s' = ?p\<lparr>ty_clock := int k\<rparr> \<and> server_ok s')"
    unfolding Let_def b a(4) by (auto simp: a(2) int32_def split: if_splits)
  have "k \<le> 2" using k(1) by (metis leI order_refl)
  with k(2) have "k = 2" by simp
  with k(2) show ?thesis by auto
qed

text \<open>
  C35. On a system in which no call fails, the Windows wrapper serves a connection exactly as the
  unix wrapper does.
\<close>
theorem win_equals_unix:
  assumes "steady_socket A arriving transmitted intr" and "sock > 0"
  shows "win_WrapperMain A U var sock s = unix_WrapperMain A U var sock s"
  by (rule steady_socket.Main_eq [OF assms])

theorem win_equals_unix_witness:
  "win_WrapperMain steady_api user_env 0 3 (demo_http [index_page] (toy_peer page_request 0)) =
    unix_WrapperMain steady_api user_env 0 3 (demo_http [index_page] (toy_peer page_request 0))"
  by (rule win_equals_unix [OF st.steady_socket_axioms]) simp

text \<open>
  C36. Where a call of send fails, the two differ: on Windows the byte is lost and the error is
  returned, the unix wrapper sends the byte again when the failure is an interruption.
\<close>
theorem win_lost_byte:
  assumes "stream_socket A arriving transmitted intr" and "0 < intr (io s)"
  shows "\<exists>n n'. attoHTTPWriteC (win_env A U k) c s = returns (-1, s\<lparr>io := n\<rparr>) \<and> transmitted k n = transmitted k (io s) \<and>
    attoHTTPWriteC (unix_env A U k) c s = returns (1, s\<lparr>io := n'\<rparr>) \<and> transmitted k n' = transmitted k (io s) @ [c]"
  by (rule stream_socket.WriteC_interrupted [OF assms])

theorem win_lost_byte_witness:
  "\<exists>n n'. attoHTTPWriteC (win_env toy_api user_env 4) (CHR ''x'') (demo_http [] (toy_peer [] 1)) =
      returns (-1, (demo_http [] (toy_peer [] 1))\<lparr>io := n\<rparr>) \<and> ty_out n 4 = [] \<and>
    attoHTTPWriteC (unix_env toy_api user_env 4) (CHR ''x'') (demo_http [] (toy_peer [] 1)) =
      returns (1, (demo_http [] (toy_peer [] 1))\<lparr>io := n'\<rparr>) \<and> ty_out n' 4 = ''x''"
  using win_lost_byte [OF ty.stream_socket_axioms, of "demo_http [] (toy_peer [] 1)" user_env 4 "CHR ''x''"]
  by (simp add: toy_peer_def demo_http_def)

section \<open>The particle.io transport\<close>

text \<open>
  C37. A particle.io client that stays connected and whose request the server lets through gets the
  page it asks for and nothing else; then its output is flushed and the connection is stopped.
\<close>
theorem particle_page:
  assumes "tcp_client A arriving transmitted"
    and "auth_quiet U" and "callback_ok U" and "server_ok s"
    and "pc_accept A (io s) = (True, n1)" and "admitted U ''GET'' tok (arriving n1)"
    and "\<forall>c \<in> set tok. \<not> isblank c" and "NUL \<notin> set tok" and "tok \<noteq> []"
    and "page_at s tok = Some p" and "page_content p = Some b"
  shows "\<exists>s' n'. particle_WrapperMain A (particle_env A U) client s = returns s' \<and> server_ok s' \<and>
    io s' = pc_stop A (pc_flush A n') \<and>
    transmitted n' = transmitted n1 @ status_line 200 @
      page_headers (page_type p) (page_size p) (gzipPages U) @ take (unat (page_size p)) b"
  by (rule tcp_client.particle_Main_page [OF assms])

theorem particle_page_witness:
  "\<exists>s'. particle_WrapperMain (client_api True) (particle_env (client_api True) user_env) 0
      (demo_http [index_page] (waiting_client page_request)) = returns s' \<and> cl_out (io s') = page_answer"
proof -
  let ?n = "waiting_client page_request"
  have acc: "pc_accept (client_api True) (io (demo_http [index_page] ?n)) = (True, ?n)" by (simp add: client_api_def)
  have i: "admitted user_env ''GET'' ''/index.html'' (cl_in ?n)"
    using page_request_shape(1) by (simp add: waiting_client_def)
  have o: "cl_out ?n = []" by (simp add: waiting_client_def)
  have c: "pc_stop (client_api True) (pc_flush (client_api True) n') = n'" for n' by (simp add: client_api_def)
  from particle_page [OF stays.tcp_client_axioms user_env_facts(3,4) demo_site(1) acc i
      page_request_shape(2-4) demo_site(2,3), of 0] o c demo_site(4)
  show ?thesis by auto
qed

text \<open>
  C38. A client that goes away in the middle of the URL of a GET request keeps the server in
  attoHTTPExecute for ever: the transport returns -1, and the loops of the URL wait for 0.
\<close>
theorem particle_cut_off:
  assumes "tcp_dropped A arriving transmitted"
    and "pc_accept A (io s) = (True, n1)" and "arriving n1 = ''GET '' @ tok"
    and "tok \<noteq> []" and "no_blank tok" and "NUL \<notin> set tok" and "length (url s) = 64" and "no_blank (url s)"
  shows "particle_WrapperMain A (particle_env A U) client s = None"
  by (rule tcp_dropped.Main_cut_off [OF assms])

theorem particle_cut_off_witness:
  "particle_WrapperMain (client_api False) (particle_env (client_api False) user_env) 0
    (demo_http [index_page] (waiting_client ''GET /ind'')) = None"
  by (rule particle_cut_off [OF drops.tcp_dropped_axioms, of _ "waiting_client ''GET /ind''" "''/ind''"])
    (simp_all add: client_api_def waiting_client_def no_blank_def demo_http_def isblank_def)

section \<open>The ESP8266 transport\<close>



text \<open>
  C40. With its one slot taken, a second connection makes attoHTTPConnectcb write behind the
  connection table.
\<close>
theorem esp_second_connection:
  assumes "esp_inv st" and "espconns st a = Some (Some k)" and "espconns st b = Some None"
  shows "attoHTTPConnectcb A b st = faults OutOfBounds"
proof -
  have l: "length (connections st) = 1" using assms(1) by (simp add: esp_inv_def esp_table_def)
  have "cn_active (connections st ! k) \<noteq> 0" "k = 0"
    using assms(1,2) unfolding esp_inv_def esp_table_def ATTO_MAX_CONN_def less_one by blast+
  then show ?thesis using Connectcb_full [OF l _ assms(3)] by simp
qed

theorem esp_second_connection_witness:
  "attoHTTPConnectcb wire_api 8 (esp_idle\<lparr>connections := [\<lparr>cn_buffer = [], cn_length = 0, cn_ptr = 0, cn_active = 1\<rparr>],
      espconns := [7 \<mapsto> Some 0, 8 \<mapsto> None]\<rparr>) = faults OutOfBounds"
  by (rule esp_second_connection [of _ 7 0]) (simp_all add: esp_inv_def esp_table_def)

end
